(* ===== verification/Prelude.thy ===== *)
theory Prelude
  imports Main "HOL-Library.Word"
begin

text \<open>
  Shared vocabulary of the development: Rust's integer types as words, panics as values of a
  result type, the sequencing combinators the component models are written with, and the generic
  lemmas on lists, options and words the components share.

  The kernel and the image packer are built with \<^verbatim>\<open>cargo build --release\<close> (\<open>src/os/Makefile\<close>),
  so integer arithmetic wraps around silently, while \<open>assert!\<close>, \<open>unwrap\<close>, slice indexing,
  division by zero and \<open>RefCell\<close> double borrows still panic. \<open>usize\<close> is 64 bits wide (RV64).
\<close>

unbundle bit_operations_syntax

section \<open>Machine integers\<close>

type_synonym u8 = "8 word"
type_synonym u32 = "32 word"
type_synonym u64 = "64 word"
type_synonym usize = "64 word"
type_synonym isize = "64 word"
type_synonym i32 = "32 word"

section \<open>Panics and fallible computations\<close>

datatype panic =
    UnwrapNone            \<comment> \<open>\<open>Option::unwrap\<close> on \<open>None\<close>\<close>
  | AssertFailed          \<comment> \<open>\<open>assert!\<close>, \<open>assert_eq!\<close>\<close>
  | IndexOutOfBounds      \<comment> \<open>indexing or slicing out of range\<close>
  | SliceLengthMismatch   \<comment> \<open>\<open>copy_from_slice\<close> with different lengths\<close>
  | DivideByZero
  | AlreadyBorrowed       \<comment> \<open>\<open>RefCell::borrow_mut\<close> while borrowed\<close>
  | Deadlock              \<comment> \<open>a spin lock taken twice on the one processor\<close>
  | Diverges              \<comment> \<open>a loop that has not ended within its fuel\<close>
  | Explicit string       \<comment> \<open>\<open>panic!\<close>\<close>

datatype 'a res = Ok 'a | Panic panic

fun bindr :: "'a res \<Rightarrow> ('a \<Rightarrow> 'b res) \<Rightarrow> 'b res" where
  "bindr (Ok x) f = f x"
| "bindr (Panic p) f = Panic p"

fun unwrap :: "'a option \<Rightarrow> 'a res" where
  "unwrap (Some x) = Ok x"
| "unwrap None = Panic UnwrapNone"

definition assertr :: "bool \<Rightarrow> unit res" where
  "assertr b = (if b then Ok () else Panic AssertFailed)"

definition indexr :: "'a list \<Rightarrow> nat \<Rightarrow> 'a res" where
  "indexr xs i = (if i < length xs then Ok (xs ! i) else Panic IndexOutOfBounds)"

definition updater :: "'a list \<Rightarrow> nat \<Rightarrow> 'a \<Rightarrow> 'a list res" where
  "updater xs i v = (if i < length xs then Ok (xs[i := v]) else Panic IndexOutOfBounds)"

text \<open>\<open>for x in xs\<close> with a body that may panic and threads a state.\<close>

fun for_each :: "('a \<Rightarrow> 's \<Rightarrow> 's res) \<Rightarrow> 'a list \<Rightarrow> 's \<Rightarrow> 's res" where
  "for_each f [] s = Ok s"
| "for_each f (x # xs) s = bindr (f x s) (for_each f xs)"

text \<open>\<open>iter().enumerate().find(..)\<close>: the first index (from \<open>k\<close>) whose element satisfies \<open>P\<close>.\<close>

fun find_index :: "('a \<Rightarrow> bool) \<Rightarrow> 'a list \<Rightarrow> nat option" where
  "find_index P [] = None"
| "find_index P (x # xs) = (if P x then Some 0 else map_option Suc (find_index P xs))"

text \<open>\<open>Vec::remove\<close>: delete the element at an index, shifting the rest left.\<close>

definition remove_nth :: "nat \<Rightarrow> 'a list \<Rightarrow> 'a list" where
  "remove_nth i xs = take i xs @ drop (Suc i) xs"

section \<open>Sequencing\<close>

named_theorems res_simps \<open>unfolding of the fallible combinators\<close>

lemma bindr_eq_Ok [simp]: "bindr m f = Ok y \<longleftrightarrow> (\<exists>x. m = Ok x \<and> f x = Ok y)"
  by (cases m) auto

lemma bindr_eq_Panic:
  "bindr m f = Panic p \<longleftrightarrow> m = Panic p \<or> (\<exists>x. m = Ok x \<and> f x = Panic p)"
  by (cases m) auto

lemma bindr_assoc: "bindr (bindr m f) g = bindr m (\<lambda>x. bindr (f x) g)"
  by (cases m) auto

lemma bindr_cong [fundef_cong]:
  "m = m' \<Longrightarrow> (\<And>x. m' = Ok x \<Longrightarrow> f x = f' x) \<Longrightarrow> bindr m f = bindr m' f'"
  by (cases m') auto

lemma bindr_Ok_right [simp]: "bindr m Ok = m"
  by (cases m) auto

lemma unwrap_eq_Ok [simp]: "unwrap v = Ok x \<longleftrightarrow> v = Some x"
  by (cases v) auto

lemma assertr_eq_Ok [simp]: "assertr b = Ok u \<longleftrightarrow> b"
  by (simp add: assertr_def)

lemma assertr_True [simp]: "assertr True = Ok ()"
  by (simp add: assertr_def)

lemma assertr_False [simp]: "assertr False = Panic AssertFailed"
  by (simp add: assertr_def)

lemma indexr_eq_Ok [simp]: "indexr xs i = Ok x \<longleftrightarrow> i < length xs \<and> x = xs ! i"
  by (auto simp: indexr_def)

lemma updater_eq_Ok [simp]: "updater xs i v = Ok ys \<longleftrightarrow> i < length xs \<and> ys = xs[i := v]"
  by (auto simp: updater_def)

lemmas [res_simps] = assertr_def indexr_def updater_def

lemma for_each_append: "for_each f (xs @ ys) s = bindr (for_each f xs s) (for_each f ys)"
proof (induction xs arbitrary: s)
  case Nil
  then show ?case by simp
next
  case (Cons x xs)
  then have "for_each f (xs @ ys) = (\<lambda>s. bindr (for_each f xs s) (for_each f ys))" by blast
  then show ?case by (simp add: bindr_assoc)
qed

text \<open>An invariant of the body is an invariant of the loop, and a body that never panics under
  the invariant makes a loop that never panics.\<close>

lemma for_each_inv:
  assumes "\<And>x s s'. x \<in> set xs \<Longrightarrow> I s \<Longrightarrow> f x s = Ok s' \<Longrightarrow> I s'"
    and "I s" and "for_each f xs s = Ok s'"
  shows "I s'"
  using assms
proof (induction xs arbitrary: s)
  case Nil
  then show ?case by simp
next
  case (Cons x xs)
  from Cons.prems(3) obtain s1 where s1: "f x s = Ok s1" "for_each f xs s1 = Ok s'" by auto
  with Cons.prems have "I s1" by (meson list.set_intros(1))
  with Cons s1 show ?case by (meson list.set_intros(2))
qed

lemma for_each_total:
  assumes "\<And>x s. x \<in> set xs \<Longrightarrow> I s \<Longrightarrow> \<exists>s'. f x s = Ok s' \<and> I s'"
    and "I s"
  shows "\<exists>s'. for_each f xs s = Ok s' \<and> I s'"
  using assms
proof (induction xs arbitrary: s)
  case Nil
  then show ?case by simp
next
  case (Cons x xs)
  then obtain s1 where "f x s = Ok s1" and "I s1"
    by (meson list.set_intros(1))
  with Cons show ?case by (auto 0 3)
qed

section \<open>Calls that return\<close>

text \<open>Total correctness: the call does not panic, and its result satisfies \<open>P\<close>.\<close>

definition returns :: "'a res \<Rightarrow> ('a \<Rightarrow> bool) \<Rightarrow> bool" where
  "returns m P \<longleftrightarrow> (\<exists>x. m = Ok x \<and> P x)"

lemma returns_Ok [simp]: "returns (Ok x) P \<longleftrightarrow> P x"
  by (simp add: returns_def)

lemma returns_Panic [simp]: "\<not> returns (Panic p) P"
  by (simp add: returns_def)

lemma returns_bindr [simp]: "returns (bindr m f) P \<longleftrightarrow> returns m (\<lambda>x. returns (f x) P)"
  by (cases m) auto

lemma returns_mono: "returns m P \<Longrightarrow> (\<And>x. P x \<Longrightarrow> Q x) \<Longrightarrow> returns m Q"
  by (auto simp: returns_def)

lemma returns_bind:
  "returns m P \<Longrightarrow> (\<And>x. P x \<Longrightarrow> returns (f x) Q) \<Longrightarrow> returns (bindr m f) Q"
  by (auto simp: returns_def)

lemma returns_assertr [simp]: "returns (assertr b) P \<longleftrightarrow> b \<and> P ()"
  by (simp add: assertr_def)

lemma returns_indexr [simp]: "returns (indexr xs i) P \<longleftrightarrow> i < length xs \<and> P (xs ! i)"
  by (simp add: indexr_def)

lemma returns_updater [simp]: "returns (updater xs i v) P \<longleftrightarrow> i < length xs \<and> P (xs[i := v])"
  by (simp add: updater_def)

lemma returns_unwrap [simp]: "returns (unwrap r) P \<longleftrightarrow> (\<exists>x. r = Some x \<and> P x)"
  by (cases r) auto

lemma returnsE: "returns m P \<Longrightarrow> (\<And>x. m = Ok x \<Longrightarrow> P x \<Longrightarrow> R) \<Longrightarrow> R"
  by (auto simp: returns_def)

section \<open>Lists\<close>

lemma find_index_Some:
  "find_index P xs = Some i \<longleftrightarrow> i < length xs \<and> P (xs ! i) \<and> (\<forall>j < i. \<not> P (xs ! j))"
proof (induction xs arbitrary: i)
  case Nil
  then show ?case by simp
next
  case (Cons x xs)
  show ?case
    by (cases i) (auto simp: Cons.IH less_Suc_eq_0_disj)
qed

lemma find_index_None: "find_index P xs = None \<longleftrightarrow> (\<forall>x \<in> set xs. \<not> P x)"
  by (induction xs) auto

lemma find_index_bound: "find_index P xs = Some i \<Longrightarrow> i < length xs"
  by (simp add: find_index_Some)

lemma length_remove_nth [simp]: "i < length xs \<Longrightarrow> length (remove_nth i xs) = length xs - 1"
  by (simp add: remove_nth_def min_def)

lemma remove_nth_0 [simp]: "remove_nth 0 (x # xs) = xs"
  by (simp add: remove_nth_def)

lemma remove_nth_Suc [simp]: "remove_nth (Suc i) (x # xs) = x # remove_nth i xs"
  by (simp add: remove_nth_def)

lemma set_remove_nth_subset: "set (remove_nth i xs) \<subseteq> set xs"
  unfolding remove_nth_def by (auto dest: in_set_takeD in_set_dropD)

lemma remove_nth_split: "i < length xs \<Longrightarrow> xs = take i xs @ xs ! i # drop (Suc i) xs"
  by (rule id_take_nth_drop)

lemma set_remove_nth_distinct:
  "distinct xs \<Longrightarrow> i < length xs \<Longrightarrow> set (remove_nth i xs) = set xs - {xs ! i}"
proof (induction i arbitrary: xs)
  case 0
  then show ?case by (cases xs) auto
next
  case (Suc i)
  then show ?case by (cases xs) (auto simp: nth_mem)
qed

lemma distinct_remove_nth: "distinct xs \<Longrightarrow> distinct (remove_nth i xs)"
proof (induction i arbitrary: xs)
  case 0
  then show ?case by (cases xs) (auto simp: remove_nth_def)
next
  case (Suc i)
  then show ?case
    by (cases xs) (auto dest: set_remove_nth_subset [THEN subsetD] simp: remove_nth_def
        dest!: in_set_takeD in_set_dropD)
qed

section \<open>Words\<close>

lemma unat_plus_one:
  fixes c :: "'a::len word"
  assumes "c < e"
  shows "unat (c + 1) = unat c + 1"
proof -
  have "unat c + 1 < 2 ^ LENGTH('a)"
    using assms unsigned_less [of e, where 'a = nat] unfolding word_less_nat_alt by linarith
  then show ?thesis by (simp add: unat_word_ariths)
qed

lemma bump_le: "(c :: 'a::len word) < e \<Longrightarrow> c + 1 \<le> e"
  by (simp add: word_le_nat_alt word_less_nat_alt unat_plus_one)

lemma bump_less_iff: "(c :: 'a::len word) < e \<Longrightarrow> p < c + 1 \<longleftrightarrow> p \<le> c"
  by (simp add: word_le_nat_alt word_less_nat_alt unat_plus_one less_Suc_eq_le)

end
