(* ===== verification/Address.thy ===== *)
theory Address
  imports Prelude
begin

text \<open>
  \<open>src/os/src/mm/address.rs\<close> and the constants of \<open>src/os/src/config.rs\<close>: physical and virtual
  addresses and page numbers as newtypes over \<open>usize\<close>, their conversions, the split of a
  virtual page number into the three SV39 indexes, and the range of virtual page numbers with its
  iterator. The main results: rounding to pages is exact wherever it does not wrap, \<open>indexes\<close> sees
  exactly the low 27 bits, and iterating a range visits every page once, in order, and ends.
\<close>

section \<open>Constants of config.rs\<close>

definition USER_STACK_SIZE :: usize where "USER_STACK_SIZE = 4096 * 2"
definition KERNEL_STACK_SIZE :: usize where "KERNEL_STACK_SIZE = 4096 * 2"
definition KERNEL_HEAP_SIZE :: usize where "KERNEL_HEAP_SIZE = 0x200000"
definition MEMORY_END :: usize where "MEMORY_END = 0x88000000"
definition PAGE_SIZE :: usize where "PAGE_SIZE = 0x1000"
definition PAGE_SIZE_BITS :: nat where "PAGE_SIZE_BITS = 0xc"
definition MAX_SYSCALL_NUM :: nat where "MAX_SYSCALL_NUM = 500"
definition TRAMPOLINE :: usize where "TRAMPOLINE = (- 1) - PAGE_SIZE + 1"
definition TRAP_CONTEXT :: usize where "TRAP_CONTEXT = TRAMPOLINE - PAGE_SIZE"
definition CLOCK_FREQ :: usize where "CLOCK_FREQ = 12500000"
definition BIG_STRIDE :: usize where "BIG_STRIDE = 88888888"
definition MMIO :: "(usize \<times> usize) list" where "MMIO = [(0x10001000, 0x1000)]"

section \<open>Addresses and page numbers\<close>

datatype PhysAddr = PhysAddr (pa_val: usize)
datatype VirtAddr = VirtAddr (va_val: usize)
datatype PhysPageNum = PhysPageNum (ppn_val: usize)
datatype VirtPageNum = VirtPageNum (vpn_val: usize)

text \<open>\<open>#[derive(Ord)]\<close>: page numbers and addresses are ordered as their contents.\<close>

instantiation VirtAddr :: linorder
begin
definition less_eq_VirtAddr :: "VirtAddr \<Rightarrow> VirtAddr \<Rightarrow> bool" where
  "less_eq_VirtAddr a b \<longleftrightarrow> va_val a \<le> va_val b"
definition less_VirtAddr :: "VirtAddr \<Rightarrow> VirtAddr \<Rightarrow> bool" where
  "less_VirtAddr a b \<longleftrightarrow> va_val a < va_val b"
instance
  by standard (auto simp: less_eq_VirtAddr_def less_VirtAddr_def VirtAddr.expand)
end

instantiation VirtPageNum :: linorder
begin
definition less_eq_VirtPageNum :: "VirtPageNum \<Rightarrow> VirtPageNum \<Rightarrow> bool" where
  "less_eq_VirtPageNum a b \<longleftrightarrow> vpn_val a \<le> vpn_val b"
definition less_VirtPageNum :: "VirtPageNum \<Rightarrow> VirtPageNum \<Rightarrow> bool" where
  "less_VirtPageNum a b \<longleftrightarrow> vpn_val a < vpn_val b"
instance
  by standard (auto simp: less_eq_VirtPageNum_def less_VirtPageNum_def VirtPageNum.expand)
end

definition va_floor :: "VirtAddr \<Rightarrow> VirtPageNum" where
  "va_floor v = VirtPageNum (va_val v div PAGE_SIZE)"

definition va_ceil :: "VirtAddr \<Rightarrow> VirtPageNum" where
  "va_ceil v = VirtPageNum ((va_val v - 1 + PAGE_SIZE) div PAGE_SIZE)"

definition va_page_offset :: "VirtAddr \<Rightarrow> usize" where
  "va_page_offset v = va_val v AND (PAGE_SIZE - 1)"

definition va_aligned :: "VirtAddr \<Rightarrow> bool" where
  "va_aligned v \<longleftrightarrow> va_page_offset v = 0"

definition vpn_from_va :: "VirtAddr \<Rightarrow> VirtPageNum res" where
  "vpn_from_va v = bindr (assertr (va_page_offset v = 0)) (\<lambda>_. Ok (va_floor v))"

definition va_from_vpn :: "VirtPageNum \<Rightarrow> VirtAddr" where
  "va_from_vpn v = VirtAddr (push_bit PAGE_SIZE_BITS (vpn_val v))"

definition pa_floor :: "PhysAddr \<Rightarrow> PhysPageNum" where
  "pa_floor v = PhysPageNum (pa_val v div PAGE_SIZE)"

definition pa_ceil :: "PhysAddr \<Rightarrow> PhysPageNum" where
  "pa_ceil v = PhysPageNum ((pa_val v - 1 + PAGE_SIZE) div PAGE_SIZE)"

definition pa_page_offset :: "PhysAddr \<Rightarrow> usize" where
  "pa_page_offset v = pa_val v AND (PAGE_SIZE - 1)"

definition pa_aligned :: "PhysAddr \<Rightarrow> bool" where
  "pa_aligned v \<longleftrightarrow> pa_page_offset v = 0"

definition ppn_from_pa :: "PhysAddr \<Rightarrow> PhysPageNum res" where
  "ppn_from_pa v = bindr (assertr (pa_page_offset v = 0)) (\<lambda>_. Ok (pa_floor v))"

definition pa_from_ppn :: "PhysPageNum \<Rightarrow> PhysAddr" where
  "pa_from_ppn v = PhysAddr (push_bit PAGE_SIZE_BITS (ppn_val v))"

text \<open>\<open>for i in (0..3).rev() { idx[i] = vpn & 511; vpn >>= 9; }\<close>\<close>

definition indexes :: "VirtPageNum \<Rightarrow> usize list" where
  "indexes v = snd (fold (\<lambda>i (vpn, idx). (drop_bit 9 vpn, idx[i := vpn AND 511]))
                      (rev [0..<3]) (vpn_val v, replicate 3 0))"

section \<open>Ranges of page numbers\<close>

text \<open>\<open>StepByOne\<close> for the two page-number types.\<close>

definition vpn_step :: "VirtPageNum \<Rightarrow> VirtPageNum" where
  "vpn_step v = VirtPageNum (vpn_val v + 1)"

definition ppn_step :: "PhysPageNum \<Rightarrow> PhysPageNum" where
  "ppn_step v = PhysPageNum (ppn_val v + 1)"

record VPNRange =
  range_l :: VirtPageNum
  range_r :: VirtPageNum

definition range_new :: "VirtPageNum \<Rightarrow> VirtPageNum \<Rightarrow> VPNRange res" where
  "range_new start end =
     bindr (assertr (start \<le> end)) (\<lambda>_. Ok \<lparr>range_l = start, range_r = end\<rparr>)"

record VPNRangeIterator =
  iter_current :: VirtPageNum
  iter_end :: VirtPageNum

definition range_into_iter :: "VPNRange \<Rightarrow> VPNRangeIterator" where
  "range_into_iter r = \<lparr>iter_current = range_l r, iter_end = range_r r\<rparr>"

definition range_next :: "VPNRangeIterator \<Rightarrow> VirtPageNum option \<times> VPNRangeIterator" where
  "range_next it =
     (if iter_current it = iter_end it then (None, it)
      else (Some (iter_current it), it\<lparr>iter_current := vpn_step (iter_current it)\<rparr>))"

text \<open>What a \<open>for vpn in range\<close> loop visits: \<open>next\<close> until it returns \<open>None\<close>. The distance from
  \<open>current\<close> to \<open>end\<close>, taken modulo \<open>2\<^sup>6\<^sup>4\<close>, shrinks with every step, so the loop always ends.\<close>

lemma step_distance:
  fixes c e :: usize
  assumes "c \<noteq> e"
  shows "unat (e - (c + 1)) < unat (e - c)"
proof -
  have "e - c \<noteq> 0" using assms by simp
  then have "unat (e - c - 1) < unat (e - c)"
    by (simp add: measure_unat)
  then show ?thesis by (simp add: algebra_simps)
qed

function range_iter_list :: "VPNRangeIterator \<Rightarrow> VirtPageNum list" where
  "range_iter_list it =
     (case range_next it of
        (None, _) \<Rightarrow> []
      | (Some t, it') \<Rightarrow> t # range_iter_list it')"
  by pat_completeness auto
termination
  by (relation "measure (\<lambda>it. unat (vpn_val (iter_end it) - vpn_val (iter_current it)))")
    (auto simp: range_next_def vpn_step_def step_distance VirtPageNum.expand
      split: if_splits intro!: step_distance)

declare range_iter_list.simps [simp del]

definition range_list :: "VPNRange \<Rightarrow> VirtPageNum list" where
  "range_list r = range_iter_list (range_into_iter r)"

section \<open>Facts\<close>

named_theorems addr_defs \<open>the conversions between addresses and page numbers\<close>

lemmas [addr_defs] = va_floor_def va_ceil_def va_page_offset_def va_from_vpn_def pa_floor_def
  pa_ceil_def pa_page_offset_def pa_from_ppn_def PAGE_SIZE_def PAGE_SIZE_BITS_def

lemma ppn_eq_conv: "p = PhysPageNum c \<longleftrightarrow> ppn_val p = c"
  by (cases p) auto

lemma vpn_eq_conv: "p = VirtPageNum c \<longleftrightarrow> vpn_val p = c"
  by (cases p) auto

lemma ppn_val_inject [simp]: "ppn_val p = ppn_val q \<longleftrightarrow> p = q"
  by (auto dest: PhysPageNum.expand)

lemma vpn_val_inject [simp]: "vpn_val p = vpn_val q \<longleftrightarrow> p = q"
  by (auto dest: VirtPageNum.expand)

lemma and_4095: "(x :: usize) AND 4095 = take_bit 12 x"
  by (simp add: take_bit_eq_mask mask_eq_exp_minus_1)

lemma and_511: "(x :: usize) AND 511 = take_bit 9 x"
  by (simp add: take_bit_eq_mask mask_eq_exp_minus_1)

lemma unat_page_offset: "unat (va_page_offset v) = unat (va_val v) mod 4096"
  by (simp add: addr_defs and_4095 take_bit_eq_mod unat_mod_distrib)

lemma unat_floor: "unat (vpn_val (va_floor v)) = unat (va_val v) div 4096"
  by (simp add: addr_defs unat_div_distrib)

lemma unat_pa_floor: "unat (ppn_val (pa_floor v)) = unat (pa_val v) div 4096"
  by (simp add: addr_defs unat_div_distrib)

lemma div_page_size: "(x :: usize) div 4096 = drop_bit 12 x"
  by (simp add: drop_bit_eq_div)

lemma page_offset_less: "unat (va_page_offset v) < 4096"
  by (simp add: unat_page_offset)

lemma unat_va_from_vpn: "unat (va_val (va_from_vpn p)) = unat (vpn_val p) * 4096 mod 2 ^ 64"
  by (simp add: addr_defs push_bit_eq_mult unat_word_ariths)

lemma unat_pa_from_ppn: "unat (pa_val (pa_from_ppn p)) = unat (ppn_val p) * 4096 mod 2 ^ 64"
  by (simp add: addr_defs push_bit_eq_mult unat_word_ariths)

lemma ceil_value:
  "unat (vpn_val (va_ceil v)) =
     (if unat (va_val v) \<le> 2 ^ 64 - 4096 then (unat (va_val v) + 4095) div 4096 else 0)"
proof -
  have "unat (va_val v - 1 + 4096) = (unat (va_val v) + 4095) mod 2 ^ 64"
  proof -
    have "va_val v - 1 + 4096 = va_val v + 4095" by simp
    then show ?thesis by (simp only: unat_word_ariths) simp
  qed
  moreover have "unat (va_val v) < 2 ^ 64" using unsigned_less [of "va_val v"] by simp
  ultimately show ?thesis
    by (auto simp: addr_defs unat_div_distrib mod_if)
qed

lemma pa_ceil_value:
  "unat (ppn_val (pa_ceil v)) =
     (if unat (pa_val v) \<le> 2 ^ 64 - 4096 then (unat (pa_val v) + 4095) div 4096 else 0)"
  using ceil_value [of "VirtAddr (pa_val v)"] by (simp add: va_ceil_def pa_ceil_def)

lemma indexes_eq:
  "indexes v = [take_bit 9 (drop_bit 18 (vpn_val v)), take_bit 9 (drop_bit 9 (vpn_val v)),
                take_bit 9 (vpn_val v)]"
  by (simp add: indexes_def and_511 upt_rec numeral_3_eq_3)

lemma length_indexes [simp]: "length (indexes v) = 3"
  by (simp add: indexes_eq)

lemma take_bit_27_split:
  "take_bit 27 (x :: usize) = take_bit 27 y \<longleftrightarrow>
     take_bit 9 (drop_bit 18 x) = take_bit 9 (drop_bit 18 y) \<and>
     take_bit 9 (drop_bit 9 x) = take_bit 9 (drop_bit 9 y) \<and> take_bit 9 x = take_bit 9 y"
  (is "?L \<longleftrightarrow> ?R")
proof
  assume L: ?L
  have "bit x i = bit y i" if "i < 27" for i
    using arg_cong [OF L, of "\<lambda>w. bit w i"] that by (simp add: bit_take_bit_iff)
  then show ?R
    by (auto intro!: bit_word_eqI simp: bit_take_bit_iff bit_drop_bit_eq)
next
  assume R: ?R
  have "bit x i = bit y i" if "i < 27" for i
  proof -
    consider "i < 9" | "9 \<le> i" "i < 18" | "18 \<le> i" using that by linarith
    then show ?thesis
    proof cases
      case 1
      then show ?thesis
        using arg_cong [OF conjunct2 [OF conjunct2 [OF R]], of "\<lambda>w. bit w i"]
        by (simp add: bit_take_bit_iff)
    next
      case 2
      then have "i - 9 < 9" by linarith
      with 2 show ?thesis
        using arg_cong [OF conjunct1 [OF conjunct2 [OF R]], of "\<lambda>w. bit w (i - 9)"]
        by (simp add: bit_take_bit_iff bit_drop_bit_eq)
    next
      case 3
      with that have "i - 18 < 9" by linarith
      with 3 show ?thesis
        using arg_cong [OF conjunct1 [OF R], of "\<lambda>w. bit w (i - 18)"]
        by (simp add: bit_take_bit_iff bit_drop_bit_eq)
    qed
  qed
  then show ?L
    by (auto intro!: bit_word_eqI simp: bit_take_bit_iff)
qed

lemma indexes_inject: "indexes a = indexes b \<longleftrightarrow> take_bit 27 (vpn_val a) = take_bit 27 (vpn_val b)"
  by (simp add: indexes_eq take_bit_27_split)

lemma index_less_512: "i \<in> set (indexes v) \<Longrightarrow> unat i < 512"
  by (auto simp: indexes_eq take_bit_eq_mod unat_mod_distrib)

lemma range_iter_list_eq:
  "range_iter_list it =
     map (\<lambda>k. VirtPageNum (vpn_val (iter_current it) + of_nat k))
       [0..<unat (vpn_val (iter_end it) - vpn_val (iter_current it))]"
proof (induction it rule: range_iter_list.induct)
  case (1 it)
  show ?case
  proof (cases "iter_current it = iter_end it")
    case True
    then show ?thesis by (simp add: range_iter_list.simps [of it] range_next_def)
  next
    case False
    let ?c = "vpn_val (iter_current it)" and ?e = "vpn_val (iter_end it)"
    let ?it = "it\<lparr>iter_current := vpn_step (iter_current it)\<rparr>"
    have "?e - ?c \<noteq> 0" using False by (metis VirtPageNum.expand eq_iff_diff_eq_0)
    then have n: "unat (?e - ?c) = Suc (unat (?e - (?c + 1)))"
      using unat_minus_one [of "?e - ?c"] unat_gt_0 [of "?e - ?c"] by (simp add: diff_diff_add)
    have "range_iter_list it = iter_current it # range_iter_list ?it"
      using False by (simp add: range_iter_list.simps [of it] range_next_def)
    also have "range_iter_list ?it = map (\<lambda>k. VirtPageNum (?c + of_nat (Suc k))) [0..<unat (?e - (?c + 1))]"
      using "1.IH" [of "Some (iter_current it)" ?it "iter_current it"] False
      by (simp add: range_next_def vpn_step_def algebra_simps)
    finally show ?thesis
      by (simp add: n upt_conv_Cons map_Suc_upt [symmetric] del: upt_Suc)
  qed
qed

lemma range_list_eq:
  "range_list r =
     map (\<lambda>k. VirtPageNum (vpn_val (range_l r) + of_nat k))
       [0..<unat (vpn_val (range_r r) - vpn_val (range_l r))]"
  by (simp add: range_list_def range_iter_list_eq range_into_iter_def)

lemma length_range_list: "length (range_list r) = unat (vpn_val (range_r r) - vpn_val (range_l r))"
  by (simp add: range_list_eq)

lemma of_nat_inj_usize: "i < 2 ^ 64 \<Longrightarrow> j < 2 ^ 64 \<Longrightarrow> (of_nat i :: usize) = of_nat j \<longleftrightarrow> i = j"
  by (simp add: word_of_nat_eq_iff take_bit_eq_mod)

lemma unat_usize_less: "unat (x :: usize) < 2 ^ 64"
  using unsigned_less [of x] by simp

lemma unat_vpn_inject [simp]: "unat (vpn_val a) = unat (vpn_val b) \<longleftrightarrow> a = b"
  by (metis VirtPageNum.expand unsigned_word_eqI)

lemma unat_ppn_inject [simp]: "unat (ppn_val a) = unat (ppn_val b) \<longleftrightarrow> a = b"
  by (metis PhysPageNum.expand unsigned_word_eqI)

lemma distinct_range_list: "distinct (range_list r)"
proof -
  have "i < 2 ^ 64" if "i < unat (vpn_val (range_r r) - vpn_val (range_l r))" for i
    using that unat_usize_less order_less_trans by blast
  then show ?thesis
    by (auto simp: range_list_eq distinct_map inj_on_def of_nat_inj_usize)
qed

lemma range_list_unat:
  assumes "range_l r \<le> range_r r"
  shows "map (\<lambda>v. unat (vpn_val v)) (range_list r) = [unat (vpn_val (range_l r))..<unat (vpn_val (range_r r))]"
proof -
  let ?l = "vpn_val (range_l r)" and ?r = "vpn_val (range_r r)"
  have le: "?l \<le> ?r" using assms by (simp add: less_eq_VirtPageNum_def)
  then have d: "unat (?r - ?l) = unat ?r - unat ?l"
    by (rule unat_sub)
  have "unat (?l + of_nat k) = unat ?l + k" if "k < unat ?r - unat ?l" for k
  proof -
    have "unat ?l + k < 2 ^ 64" using that unat_usize_less [of ?r] by linarith
    then show ?thesis by (simp add: unat_word_ariths unat_of_nat)
  qed
  then show ?thesis
    by (intro nth_equalityI) (auto simp: range_list_eq d)
qed

text \<open>C9: iterating a range of virtual page numbers visits exactly the pages from the start up to,
  and not including, the end, each once and in increasing order; in particular the loop ends.\<close>

theorem vpn_range_iteration:
  assumes "range_new start end = Ok r"
  shows "map (\<lambda>v. unat (vpn_val v)) (range_list r) = [unat (vpn_val start)..<unat (vpn_val end)]
    \<and> set (range_list r) = {v. start \<le> v \<and> v < end}"
proof -
  from assms have le: "range_l r \<le> range_r r" and r: "range_l r = start" "range_r r = end"
    by (auto simp: range_new_def)
  have M: "map (\<lambda>v. unat (vpn_val v)) (range_list r) = [unat (vpn_val start)..<unat (vpn_val end)]"
    using range_list_unat [OF le] r by simp
  have "v \<in> set (range_list r) \<longleftrightarrow> unat (vpn_val v) \<in> set (map (\<lambda>v. unat (vpn_val v)) (range_list r))" for v
    by auto
  then have "set (range_list r) = {v. start \<le> v \<and> v < end}"
    unfolding M by (auto simp: less_eq_VirtPageNum_def less_VirtPageNum_def word_le_nat_alt word_less_nat_alt)
  with M show ?thesis by simp
qed

theorem vpn_range_iteration_witness:
  "range_new (VirtPageNum 3) (VirtPageNum 6) = Ok \<lparr>range_l = VirtPageNum 3, range_r = VirtPageNum 6\<rparr> \<and>
   map (\<lambda>v. unat (vpn_val v)) (range_list \<lparr>range_l = VirtPageNum 3, range_r = VirtPageNum 6\<rparr>) = [3, 4, 5]"
proof -
  have r: "range_new (VirtPageNum 3) (VirtPageNum 6) = Ok \<lparr>range_l = VirtPageNum 3, range_r = VirtPageNum 6\<rparr>"
    by (simp add: range_new_def less_eq_VirtPageNum_def)
  show ?thesis using vpn_range_iteration [OF r] r by (simp add: upt_rec)
qed

end
