(* ===== verification/Bytes.thy ===== *)
theory Bytes
  imports Prelude
begin

text \<open>
  Words as little-endian byte sequences, the representation both physical memory (page-table entries)
  and disk blocks (bitmaps, inodes, directory entries) share.
\<close>

text \<open>Little-endian encoding, least significant byte first.\<close>

definition le_bytes :: "nat \<Rightarrow> 'a::len word \<Rightarrow> u8 list" where
  "le_bytes n w = map (\<lambda>i. ucast (drop_bit (8 * i) w)) [0..<n]"

definition le_word :: "u8 list \<Rightarrow> 'a::len word" where
  "le_word bs = foldr (\<lambda>b w. push_bit 8 w OR ucast b) bs 0"

lemma length_le_bytes [simp]: "length (le_bytes n w) = n"
  by (simp add: le_bytes_def)

lemma bit_le_word:
  "bit (le_word bs :: 'a::len word) i \<longleftrightarrow>
     i < LENGTH('a) \<and> i < 8 * length bs \<and> bit (bs ! (i div 8)) (i mod 8)"
proof (induction bs arbitrary: i)
  case Nil
  then show ?case by (simp add: le_word_def)
next
  case (Cons b bs)
  have step: "le_word (b # bs) = push_bit 8 (le_word bs :: 'a word) OR ucast b"
    by (simp add: le_word_def)
  show ?case
  proof (cases "i < 8")
    case True
    then show ?thesis by (auto simp: step bit_or_iff bit_push_bit_iff bit_unsigned_iff bit_word_ucast_iff dest: bit_imp_le_length)
  next
    case False
    then have "bit (ucast b :: 'a word) i = False"
      using bit_imp_le_length [of b i] by (auto simp: bit_word_ucast_iff)
    with False show ?thesis
      by (auto simp: step bit_or_iff bit_push_bit_iff Cons.IH le_div_geq le_mod_geq)
  qed
qed

lemma le_word_le_bytes:
  assumes "LENGTH('a::len) \<le> 8 * n"
  shows "le_word (le_bytes n w) = (w :: 'a word)"
proof (rule bit_word_eqI)
  fix i assume i: "i < LENGTH('a)"
  with assms have "i div 8 < n" by simp
  then have "bit (le_bytes n w ! (i div 8)) (i mod 8) = bit w i"
    using order_le_less_trans [OF mod_less_eq_dividend i, of 8]
    by (simp add: le_bytes_def bit_word_ucast_iff bit_drop_bit_eq)
  then show "bit (le_word (le_bytes n w) :: 'a word) i = bit w i"
    using i assms by (simp add: bit_le_word)
qed

section \<open>Arrays of words\<close>

text \<open>\<open>n\<close> words of \<open>w\<close> bytes each.\<close>

definition load_words :: "nat \<Rightarrow> nat \<Rightarrow> u8 list \<Rightarrow> 'a::len word list" where
  "load_words w n bs = map (\<lambda>i. le_word (take w (drop (w * i) bs))) [0..<n]"

definition store_words :: "nat \<Rightarrow> 'a::len word list \<Rightarrow> u8 list" where
  "store_words w xs = concat (map (le_bytes w) xs)"

lemma length_load_words [simp]: "length (load_words w n bs) = n"
  by (simp add: load_words_def)

lemma length_store_words [simp]: "length (store_words w xs) = w * length xs"
  by (induction xs) (auto simp: store_words_def)

lemma store_words_slice: "i < length xs \<Longrightarrow> take w (drop (w * i) (store_words w xs)) = le_bytes w (xs ! i)"
proof (induction xs arbitrary: i)
  case (Cons x xs)
  then show ?case by (cases i) (auto simp: store_words_def)
qed simp

lemma load_store_words:
  fixes xs :: "'a::len word list"
  assumes "LENGTH('a) \<le> 8 * w"
  shows "load_words w (length xs) (store_words w xs) = xs"
  by (intro nth_equalityI) (auto simp: load_words_def store_words_slice le_word_le_bytes [OF assms])

lemma le_bytes_le_word:
  assumes "LENGTH('a::len) = 8 * length bs"
  shows "le_bytes (length bs) (le_word bs :: 'a word) = bs"
proof (rule nth_equalityI)
  fix i assume "i < length (le_bytes (length bs) (le_word bs :: 'a word))"
  then have i: "i < length bs" by simp
  show "le_bytes (length bs) (le_word bs :: 'a word) ! i = bs ! i"
  proof (rule bit_word_eqI)
    fix j assume "j < LENGTH(8)"
    then have j: "j < 8" by simp
    then have "8 * i + j < 8 * length bs" "(8 * i + j) div 8 = i" "(8 * i + j) mod 8 = j" using i by auto
    then show "bit (le_bytes (length bs) (le_word bs :: 'a word) ! i) j = bit (bs ! i) j"
      using i j assms by (simp add: le_bytes_def bit_word_ucast_iff bit_drop_bit_eq bit_le_word)
  qed
qed simp

lemma store_load_words:
  assumes "length bs = w * n" and "LENGTH('a::len) = 8 * w"
  shows "store_words w (load_words w n bs :: 'a word list) = bs"
proof -
  have "concat (map (\<lambda>i. take w (drop (w * i) bs)) [0..<n]) = bs"
    using assms(1)
  proof (induction n arbitrary: bs)
    case (Suc n)
    have "concat (map (\<lambda>i. take w (drop (w * i) (drop w bs))) [0..<n]) = drop w bs"
      using Suc.prems by (intro Suc.IH) simp
    moreover have "map (\<lambda>i. take w (drop (w * i) bs)) [0..<Suc n] =
        take w bs # map (\<lambda>i. take w (drop (w * i) (drop w bs))) [0..<n]"
      by (simp add: upt_conv_Cons map_Suc_upt [symmetric] add.commute del: upt_Suc)
    ultimately show ?case by simp
  qed simp
  moreover have "le_bytes w (le_word (take w (drop (w * i) bs)) :: 'a word) = take w (drop (w * i) bs)" if "i < n" for i
  proof -
    have "w * i + w \<le> w * n" using that by (metis add.commute mult_Suc_right mult_le_mono2 Suc_leI)
    then have "length (take w (drop (w * i) bs)) = w" using assms(1) by simp
    then show ?thesis using le_bytes_le_word [where 'a = 'a, of "take w (drop (w * i) bs)"] assms(2) by simp
  qed
  then have e: "map (\<lambda>i. le_bytes w (le_word (take w (drop (w * i) bs)) :: 'a word)) [0..<n] =
      map (\<lambda>i. take w (drop (w * i) bs)) [0..<n]" by simp
  have "store_words w (load_words w n bs :: 'a word list) =
      concat (map (\<lambda>i. le_bytes w (le_word (take w (drop (w * i) bs)) :: 'a word)) [0..<n])"
    by (simp add: store_words_def load_words_def comp_def)
  ultimately show ?thesis unfolding e by argo
qed

end
