(* ===== verification/PhysMem.thy ===== *)
theory PhysMem
  imports Address Bytes
begin

text \<open>
  Physical memory. The kernel runs with physical memory identity-mapped and reaches frames through
  raw pointers made from page numbers (\<open>get_bytes_array\<close>, \<open>get_pte_array\<close>, \<open>get_mut\<close> in
  \<open>src/os/src/mm/address.rs\<close>). The model is one flat byte store, so that the page-table view and
  the byte view of a frame alias exactly as they do in the code; a 64-bit value is its eight
  little-endian bytes. The lemmas say what a read returns after a write, at the same place and at
  a disjoint one.
\<close>

type_synonym phys_mem = "usize \<Rightarrow> u8"

definition read_bytes :: "phys_mem \<Rightarrow> usize \<Rightarrow> nat \<Rightarrow> u8 list" where
  "read_bytes m a n = map (\<lambda>i. m (a + of_nat i)) [0..<n]"

definition write_bytes :: "phys_mem \<Rightarrow> usize \<Rightarrow> u8 list \<Rightarrow> phys_mem" where
  "write_bytes m a bs = (\<lambda>x. if unat (x - a) < length bs then bs ! unat (x - a) else m x)"

definition read_u64 :: "phys_mem \<Rightarrow> usize \<Rightarrow> u64" where
  "read_u64 m a = le_word (read_bytes m a 8)"

definition write_u64 :: "phys_mem \<Rightarrow> usize \<Rightarrow> u64 \<Rightarrow> phys_mem" where
  "write_u64 m a w = write_bytes m a (le_bytes 8 w)"

text \<open>\<open>PhysPageNum::get_bytes_array\<close>: the 4096 bytes of a frame, read and overwritten.\<close>

definition get_bytes_array :: "phys_mem \<Rightarrow> PhysPageNum \<Rightarrow> u8 list" where
  "get_bytes_array m p = read_bytes m (pa_val (pa_from_ppn p)) 4096"

definition set_bytes_array :: "phys_mem \<Rightarrow> PhysPageNum \<Rightarrow> u8 list \<Rightarrow> phys_mem" where
  "set_bytes_array m p bs = write_bytes m (pa_val (pa_from_ppn p)) bs"

text \<open>\<open>PhysPageNum::get_pte_array\<close>: the frame as 512 entries of 8 bytes; a \<open>&mut\<close> to entry \<open>i\<close> is
  its address.\<close>

definition pte_slot :: "PhysPageNum \<Rightarrow> usize \<Rightarrow> PhysAddr" where
  "pte_slot p i = PhysAddr (pa_val (pa_from_ppn p) + 8 * i)"

section \<open>Reads after writes\<close>

lemma length_read_bytes [simp]: "length (read_bytes m a n) = n"
  by (simp add: read_bytes_def)

lemma nth_read_bytes [simp]: "i < n \<Longrightarrow> read_bytes m a n ! i = m (a + of_nat i)"
  by (simp add: read_bytes_def)

lemma write_bytes_outside: "length bs \<le> unat (x - a) \<Longrightarrow> write_bytes m a bs x = m x"
  by (simp add: write_bytes_def)

lemma write_bytes_inside:
  "i < length bs \<Longrightarrow> length bs \<le> 2 ^ 64 \<Longrightarrow> write_bytes m a bs (a + of_nat i) = bs ! i"
  by (simp add: write_bytes_def unat_of_nat)

lemma read_write_bytes:
  "length bs \<le> 2 ^ 64 \<Longrightarrow> read_bytes (write_bytes m a bs) a (length bs) = bs"
  by (rule nth_equalityI) (simp_all add: write_bytes_inside)

lemma read_bytes_cong:
  "(\<And>i. i < n \<Longrightarrow> m (a + of_nat i) = m' (a + of_nat i)) \<Longrightarrow> read_bytes m a n = read_bytes m' a n"
  by (rule nth_equalityI) simp_all

text \<open>A slice at an offset inside the range that was written.\<close>

lemma read_write_bytes_slice:
  assumes "off + n \<le> length bs" and "length bs \<le> 2 ^ 64"
  shows "read_bytes (write_bytes m a bs) (a + of_nat off) n = take n (drop off bs)"
proof (rule nth_equalityI)
  fix i assume "i < length (read_bytes (write_bytes m a bs) (a + of_nat off) n)"
  then have "i < n" by simp
  have "write_bytes m a bs (a + of_nat (off + i)) = bs ! (off + i)"
    using \<open>i < n\<close> assms by (intro write_bytes_inside) auto
  then show "read_bytes (write_bytes m a bs) (a + of_nat off) n ! i = take n (drop off bs) ! i"
    using \<open>i < n\<close> assms by (simp add: add.assoc)
qed (use assms in simp)

lemma read_write_u64 [simp]: "read_u64 (write_u64 m a w) a = w"
  using read_write_bytes [of "le_bytes 8 w" m a] by (simp add: read_u64_def write_u64_def le_word_le_bytes)

section \<open>Frames\<close>

text \<open>The frame number an address lies in. Frame numbers below \<open>2\<^sup>5\<^sup>2\<close> have a page of their own.\<close>

definition frame_of :: "usize \<Rightarrow> PhysPageNum" where
  "frame_of a = pa_floor (PhysAddr a)"

definition frame_ok :: "PhysPageNum \<Rightarrow> bool" where
  "frame_ok p \<longleftrightarrow> unat (ppn_val p) < 2 ^ 44"

lemma unat_frame_base: "frame_ok p \<Longrightarrow> unat (pa_val (pa_from_ppn p)) = unat (ppn_val p) * 4096"
  by (simp add: unat_pa_from_ppn frame_ok_def)

lemma unat_frame_addr:
  assumes "frame_ok p" and "unat i < 4096"
  shows "unat (pa_val (pa_from_ppn p) + i) = unat (ppn_val p) * 4096 + unat i"
proof -
  have "unat (ppn_val p) * 4096 + unat i < 2 ^ 64"
    using assms by (simp add: frame_ok_def)
  then show ?thesis
    using assms by (simp add: unat_word_ariths unat_frame_base)
qed

lemma frame_of_addr:
  assumes "frame_ok p" and "unat i < 4096"
  shows "frame_of (pa_val (pa_from_ppn p) + i) = p"
proof -
  have "unat (ppn_val (frame_of (pa_val (pa_from_ppn p) + i))) = unat (ppn_val p)"
    using assms by (simp add: frame_of_def unat_pa_floor unat_frame_addr)
  then show ?thesis by simp
qed

lemma write_bytes_outside_nat:
  assumes "unat x < unat a \<or> unat a + length bs \<le> unat x" and "unat a + length bs \<le> 2 ^ 64"
  shows "write_bytes m a bs x = m x"
proof -
  have "length bs \<le> unat (x - a)"
  proof (cases "a \<le> x")
    case True
    then show ?thesis using assms by (simp add: unat_sub word_le_nat_alt)
  next
    case False
    then have "unat (x - a) = unat x + 2 ^ 64 - unat a"
      by (simp add: unat_sub_if' word_le_nat_alt)
    with assms show ?thesis by simp
  qed
  then show ?thesis by (rule write_bytes_outside)
qed

lemma frame_of_nat: "unat (ppn_val (frame_of x)) = unat x div 4096"
  by (simp add: frame_of_def unat_pa_floor)

lemma set_bytes_array_other:
  assumes "frame_ok p" and "length bs \<le> 4096" and "frame_of x \<noteq> p"
  shows "set_bytes_array m p bs x = m x"
  unfolding set_bytes_array_def
proof (rule write_bytes_outside_nat)
  have "unat x div 4096 \<noteq> unat (ppn_val p)"
    using assms(3) frame_of_nat [of x] by auto
  moreover have "unat (pa_val (pa_from_ppn p)) = unat (ppn_val p) * 4096"
    using assms(1) by (rule unat_frame_base)
  ultimately show "unat x < unat (pa_val (pa_from_ppn p)) \<or> unat (pa_val (pa_from_ppn p)) + length bs \<le> unat x"
    using assms(2) by auto
  show "unat (pa_val (pa_from_ppn p)) + length bs \<le> 2 ^ 64"
    using assms(1,2) by (simp add: unat_frame_base frame_ok_def)
qed

lemma frame_addr_split:
  assumes "frame_of x = p"
  obtains i where "i < 4096" and "x = pa_val (pa_from_ppn p) + of_nat i"
proof -
  let ?i = "unat x mod 4096"
  have "x div 4096 * 4096 + x mod 4096 = x" by (rule div_mult_mod_eq)
  moreover have "x mod 4096 = of_nat ?i"
    by (simp add: word_unat_eq_iff unat_mod_distrib unat_of_nat)
  moreover have "x div 4096 * 4096 = pa_val (pa_from_ppn p)"
    using assms by (auto simp: frame_of_def addr_defs push_bit_eq_mult)
  ultimately have "x = pa_val (pa_from_ppn p) + of_nat ?i" by simp
  then show ?thesis by (intro that [of ?i]) auto
qed

lemma set_bytes_array_same:
  assumes "length bs = 4096" and "i < 4096"
  shows "set_bytes_array m p bs (pa_val (pa_from_ppn p) + of_nat i) = bs ! i"
  using assms by (simp add: set_bytes_array_def write_bytes_inside)

lemma get_set_bytes_array [simp]: "length bs = 4096 \<Longrightarrow> get_bytes_array (set_bytes_array m p bs) p = bs"
  using read_write_bytes [of bs m "pa_val (pa_from_ppn p)"]
  by (simp add: get_bytes_array_def set_bytes_array_def)

lemma get_bytes_array_cong:
  assumes "frame_ok p" and "\<And>x. frame_of x = p \<Longrightarrow> m x = m' x"
  shows "get_bytes_array m p = get_bytes_array m' p"
  unfolding get_bytes_array_def
proof (rule read_bytes_cong)
  fix i :: nat assume "i < 4096"
  then have "frame_of (pa_val (pa_from_ppn p) + of_nat i) = p"
    using assms(1) by (simp add: frame_of_addr unat_of_nat)
  then show "m (pa_val (pa_from_ppn p) + of_nat i) = m' (pa_val (pa_from_ppn p) + of_nat i)"
    by (rule assms(2))
qed

lemma length_get_bytes_array [simp]: "length (get_bytes_array m p) = 4096"
  by (simp add: get_bytes_array_def)

section \<open>Page-table slots\<close>

lemma unat_pte_slot:
  assumes "frame_ok p" and "unat i < 512"
  shows "unat (pa_val (pte_slot p i)) = unat (ppn_val p) * 4096 + 8 * unat i"
proof -
  have e: "unat (8 * i) = 8 * unat i" using assms(2) by (simp add: unat_word_ariths)
  with assms have "unat (8 * i) < 4096" by simp
  with assms(1) e show ?thesis by (simp add: pte_slot_def unat_frame_addr)
qed

text \<open>Writing one entry leaves every other byte of memory alone.\<close>

lemma write_slot_outside:
  assumes "frame_ok p" and "unat i < 512"
    and "unat x < unat (pa_val (pte_slot p i)) \<or> unat (pa_val (pte_slot p i)) + 8 \<le> unat x"
  shows "write_u64 m (pa_val (pte_slot p i)) w x = m x"
  unfolding write_u64_def
  by (rule write_bytes_outside_nat) (use assms in \<open>auto simp: unat_pte_slot frame_ok_def\<close>)

lemma write_slot_other_frame:
  assumes "frame_ok p" and "unat i < 512" and "frame_of x \<noteq> p"
  shows "write_u64 m (pa_val (pte_slot p i)) w x = m x"
proof (rule write_slot_outside [OF assms(1,2)])
  have "unat x div 4096 \<noteq> unat (ppn_val p)"
    using assms(3) frame_of_nat [of x] by auto
  then show "unat x < unat (pa_val (pte_slot p i)) \<or> unat (pa_val (pte_slot p i)) + 8 \<le> unat x"
    using assms(1,2) by (auto simp: unat_pte_slot)
qed

lemma unat_slot_byte:
  assumes "frame_ok p" and "unat i < 512" and "k < 8"
  shows "unat (pa_val (pte_slot p i) + of_nat k) = unat (ppn_val p) * 4096 + 8 * unat i + k"
proof -
  have "unat (ppn_val p) * 4096 + 8 * unat i + k < 2 ^ 64"
    using assms by (simp add: frame_ok_def)
  then show ?thesis
    using assms by (simp add: unat_word_ariths unat_pte_slot unat_of_nat)
qed

lemma read_u64_cong:
  "(\<And>k. k < 8 \<Longrightarrow> m (a + of_nat k) = m' (a + of_nat k)) \<Longrightarrow> read_u64 m a = read_u64 m' a"
  unfolding read_u64_def by (rule arg_cong [OF read_bytes_cong]) simp

lemma frame_of_slot_byte:
  assumes "frame_ok p" and "unat i < 512" and "k < 8"
  shows "frame_of (pa_val (pte_slot p i) + of_nat k) = p"
proof -
  have "unat (ppn_val (frame_of (pa_val (pte_slot p i) + of_nat k))) = unat (ppn_val p)"
    unfolding frame_of_nat unat_slot_byte [OF assms] using assms(2,3) by auto
  then show ?thesis by simp
qed

lemma slot_disjoint_nat:
  fixes P Q i j k :: nat
  assumes "i < 512" "j < 512" "k < 8" and "P \<noteq> Q \<or> i \<noteq> j"
  shows "Q * 4096 + 8 * j + k < P * 4096 + 8 * i \<or> P * 4096 + 8 * i + 8 \<le> Q * 4096 + 8 * j + k"
proof -
  consider "P < Q" | "Q < P" | "P = Q" "i < j" | "P = Q" "j < i"
    using assms(4) by linarith
  then show ?thesis
    by cases (use assms(1-3) in linarith)+
qed

text \<open>Two different entries do not overlap, so a write to one leaves the other's value.\<close>

lemma read_slot_other:
  assumes "frame_ok p" "unat i < 512" and "frame_ok q" "unat j < 512" and "(p, i) \<noteq> (q, j)"
  shows "read_u64 (write_u64 m (pa_val (pte_slot p i)) w) (pa_val (pte_slot q j)) =
         read_u64 m (pa_val (pte_slot q j))"
proof (rule read_u64_cong)
  fix k :: nat assume k: "k < 8"
  let ?x = "pa_val (pte_slot q j) + of_nat k"
  have x: "unat ?x = unat (ppn_val q) * 4096 + 8 * unat j + k"
    using assms(3,4) k by (rule unat_slot_byte)
  have "unat (ppn_val p) \<noteq> unat (ppn_val q) \<or> unat i \<noteq> unat j"
    using assms(5) by (auto simp: word_unat_eq_iff)
  then have "unat ?x < unat (pa_val (pte_slot p i)) \<or> unat (pa_val (pte_slot p i)) + 8 \<le> unat ?x"
    unfolding x unat_pte_slot [OF assms(1,2)] by (rule slot_disjoint_nat [OF assms(2,4) k])
  then show "write_u64 m (pa_val (pte_slot p i)) w ?x = m ?x"
    by (rule write_slot_outside [OF assms(1,2)])
qed

lemma read_slot_cong:
  assumes "frame_ok p" "unat i < 512" and "\<And>x. frame_of x = p \<Longrightarrow> m x = m' x"
  shows "read_u64 m (pa_val (pte_slot p i)) = read_u64 m' (pa_val (pte_slot p i))"
  by (rule read_u64_cong) (use assms in \<open>simp add: frame_of_slot_byte\<close>)

end
