(* ===== verification/IdAllocator.thy ===== *)
theory IdAllocator
  imports Prelude
begin

text \<open>
  The contract shared by the two recycling allocators of the kernel (physical frames,
  \<open>src/os/src/mm/frame_allocator.rs\<close>, whose trait \<open>FrameAllocator\<close> it states, and process
  identifiers, \<open>src/os/src/task/pid.rs\<close>), and what their clients get from it. A client holds
  handles (\<open>FrameTracker\<close>, \<open>PidHandle\<close>), obtains one from \<open>alloc\<close>, and gives one back exactly by
  dropping it. Under the contract no identifier is ever held twice and no drop panics.
\<close>

section \<open>Clients of an allocator\<close>

text \<open>One step of the clients taken together: \<open>H\<close> lists the handles that are alive.\<close>

inductive client_step ::
  "('s \<Rightarrow> 'i option \<times> 's) \<Rightarrow> ('s \<Rightarrow> 'i \<Rightarrow> 's res) \<Rightarrow> ('s \<Rightarrow> bool) \<Rightarrow>
   's \<times> 'i list \<Rightarrow> 's \<times> 'i list \<Rightarrow> bool"
  for alloc :: "'s \<Rightarrow> 'i option \<times> 's" and dealloc :: "'s \<Rightarrow> 'i \<Rightarrow> 's res" and room :: "'s \<Rightarrow> bool"
  where
    step_alloc: "room s \<Longrightarrow> alloc s = (Some i, s') \<Longrightarrow> client_step alloc dealloc room (s, H) (s', i # H)"
  | step_full: "alloc s = (None, s') \<Longrightarrow> client_step alloc dealloc room (s, H) (s', H)"
  | step_drop: "i \<in> set H \<Longrightarrow> dealloc s i = Ok s' \<Longrightarrow>
      client_step alloc dealloc room (s, H) (s', remove1 i H)"

inductive_cases client_stepE: "client_step alloc dealloc room (s, H) t"

inductive client_run ::
  "('s \<Rightarrow> 'i option \<times> 's) \<Rightarrow> ('s \<Rightarrow> 'i \<Rightarrow> 's res) \<Rightarrow> ('s \<Rightarrow> bool) \<Rightarrow>
   's \<times> 'i list \<Rightarrow> 's \<times> 'i list \<Rightarrow> bool"
  for alloc :: "'s \<Rightarrow> 'i option \<times> 's" and dealloc :: "'s \<Rightarrow> 'i \<Rightarrow> 's res" and room :: "'s \<Rightarrow> bool"
  where
    run_refl: "client_run alloc dealloc room c c"
  | run_step: "client_run alloc dealloc room c d \<Longrightarrow> client_step alloc dealloc room d e \<Longrightarrow>
      client_run alloc dealloc room c e"

section \<open>The contract\<close>

text \<open>\<open>live\<close> is the set of identifiers in use; \<open>room\<close> says the counter does not wrap around.\<close>

locale id_allocator =
  fixes alloc :: "'s \<Rightarrow> 'i option \<times> 's"
    and dealloc :: "'s \<Rightarrow> 'i \<Rightarrow> 's res"
    and live :: "'s \<Rightarrow> 'i set"
    and inv :: "'s \<Rightarrow> bool"
    and room :: "'s \<Rightarrow> bool"
  assumes alloc_fresh: "inv s \<Longrightarrow> room s \<Longrightarrow> alloc s = (Some i, s') \<Longrightarrow> i \<notin> live s"
    and alloc_live: "inv s \<Longrightarrow> room s \<Longrightarrow> alloc s = (Some i, s') \<Longrightarrow> live s' = insert i (live s)"
    and alloc_inv: "inv s \<Longrightarrow> room s \<Longrightarrow> alloc s = (Some i, s') \<Longrightarrow> inv s'"
    and alloc_none: "alloc s = (None, s') \<Longrightarrow> s' = s"
    and dealloc_ok: "inv s \<Longrightarrow> i \<in> live s \<Longrightarrow>
          \<exists>s'. dealloc s i = Ok s' \<and> inv s' \<and> live s' = live s - {i}"
    and dealloc_dead: "inv s \<Longrightarrow> i \<notin> live s \<Longrightarrow> \<exists>p. dealloc s i = Panic p"
begin

lemma dealloc_live:
  assumes "inv s" and "dealloc s i = Ok s'"
  shows "i \<in> live s \<and> inv s' \<and> live s' = live s - {i}"
proof -
  have "i \<in> live s" using dealloc_dead [OF assms(1)] assms(2) by force
  with dealloc_ok [OF assms(1) this] assms(2) show ?thesis by auto
qed

text \<open>What the clients hold is live and held once, at every step.\<close>

lemma client_step_inv:
  assumes "client_step alloc dealloc room c d" and "inv (fst c)"
    and "distinct (snd c)" and "set (snd c) \<subseteq> live (fst c)"
  shows "inv (fst d) \<and> distinct (snd d) \<and> set (snd d) \<subseteq> live (fst d)"
  using assms
proof (cases rule: client_step.cases)
  case (step_alloc s i s' H)
  then show ?thesis
    using assms(2-4) alloc_fresh [of s i s'] alloc_live [of s i s'] alloc_inv [of s i s'] by auto
next
  case (step_full s s' H)
  then show ?thesis using assms(2-4) alloc_none [of s s'] by auto
next
  case (step_drop i H s s')
  then show ?thesis using assms(2-4) dealloc_live [of s i s'] by (auto simp: set_remove1_eq)
qed

lemma client_run_inv:
  assumes "client_run alloc dealloc room c d" and "inv (fst c)"
    and "distinct (snd c)" and "set (snd c) \<subseteq> live (fst c)"
  shows "inv (fst d) \<and> distinct (snd d) \<and> set (snd d) \<subseteq> live (fst d)"
  using assms
proof (induction rule: client_run.induct)
  case (run_refl c)
  then show ?case by simp
next
  case (run_step c d e)
  then show ?case using client_step_inv [of d e] by blast
qed

text \<open>Dropping a handle that is held never panics.\<close>

lemma client_drop_ok:
  assumes "client_run alloc dealloc room (s, []) (t, H)" and "inv s" and "i \<in> set H"
  shows "\<exists>t'. dealloc t i = Ok t'"
proof -
  have "inv t \<and> set H \<subseteq> live t" using client_run_inv [OF assms(1)] assms(2) by auto
  then show ?thesis using assms(3) dealloc_ok [of t i] by auto
qed

lemma client_handles_distinct:
  assumes "client_run alloc dealloc room (s, []) (t, H)" and "inv s"
  shows "distinct H"
  using client_run_inv [OF assms(1)] assms(2) by auto

end

end
