(* ===== verification/FrameAllocator.thy ===== *)
theory FrameAllocator
  imports PhysMem IdAllocator
begin

text \<open>
  \<open>src/os/src/mm/frame_allocator.rs\<close>: the stack allocator of physical frames and the
  \<open>FrameTracker\<close> that owns one frame and gives it back when dropped. Rust drops owners
  implicitly; the model calls \<open>drop_tracker\<close> wherever the code ends a tracker's life. Results:
  the allocator keeps the contract of \<open>IdAllocator\<close>, so live trackers never share a frame, and
  a frame handed out is zeroed while the rest of memory is untouched.
\<close>

record StackFrameAllocator =
  fa_current :: usize
  fa_end :: usize
  fa_recycled :: "usize list"

definition fa_new :: StackFrameAllocator where
  "fa_new = \<lparr>fa_current = 0, fa_end = 0, fa_recycled = []\<rparr>"

definition fa_init :: "StackFrameAllocator \<Rightarrow> PhysPageNum \<Rightarrow> PhysPageNum \<Rightarrow> StackFrameAllocator" where
  "fa_init fa l r = fa\<lparr>fa_current := ppn_val l, fa_end := ppn_val r\<rparr>"

text \<open>\<open>recycled\<close> is a \<open>Vec\<close>: \<open>push\<close> and \<open>pop\<close> work on its end.\<close>

definition fa_alloc :: "StackFrameAllocator \<Rightarrow> PhysPageNum option \<times> StackFrameAllocator" where
  "fa_alloc fa =
     (if fa_recycled fa \<noteq> [] then
        (Some (PhysPageNum (last (fa_recycled fa))), fa\<lparr>fa_recycled := butlast (fa_recycled fa)\<rparr>)
      else if fa_current fa = fa_end fa then (None, fa)
      else (Some (PhysPageNum (fa_current fa + 1 - 1)), fa\<lparr>fa_current := fa_current fa + 1\<rparr>))"

definition fa_dealloc :: "StackFrameAllocator \<Rightarrow> PhysPageNum \<Rightarrow> StackFrameAllocator res" where
  "fa_dealloc fa p =
     (if fa_current fa \<le> ppn_val p \<or> ppn_val p \<in> set (fa_recycled fa)
      then Panic (Explicit ''Frame has not been allocated!'')
      else Ok (fa\<lparr>fa_recycled := fa_recycled fa @ [ppn_val p]\<rparr>))"

text \<open>The part of the kernel state the memory managers share: physical memory and the global
  \<open>FRAME_ALLOCATOR\<close>.\<close>

record mm =
  mem :: phys_mem
  FRAME_ALLOCATOR :: StackFrameAllocator

datatype FrameTracker = FrameTracker (ft_ppn: PhysPageNum)

definition tracker_new :: "PhysPageNum \<Rightarrow> mm \<Rightarrow> FrameTracker \<times> mm" where
  "tracker_new p k = (FrameTracker p, k\<lparr>mem := set_bytes_array (mem k) p (replicate 4096 0)\<rparr>)"

text \<open>\<open>ekernel\<close> is a symbol of the linker script.\<close>

definition init_frame_allocator :: "usize \<Rightarrow> mm \<Rightarrow> mm" where
  "init_frame_allocator ekernel k =
     k\<lparr>FRAME_ALLOCATOR := fa_init (FRAME_ALLOCATOR k) (pa_ceil (PhysAddr ekernel)) (pa_floor (PhysAddr MEMORY_END))\<rparr>"

definition frame_alloc :: "mm \<Rightarrow> FrameTracker option \<times> mm" where
  "frame_alloc k =
     (case fa_alloc (FRAME_ALLOCATOR k) of
        (None, fa) \<Rightarrow> (None, k\<lparr>FRAME_ALLOCATOR := fa\<rparr>)
      | (Some p, fa) \<Rightarrow> (case tracker_new p (k\<lparr>FRAME_ALLOCATOR := fa\<rparr>) of (t, k') \<Rightarrow> (Some t, k')))"

definition frame_dealloc :: "PhysPageNum \<Rightarrow> mm \<Rightarrow> mm res" where
  "frame_dealloc p k =
     bindr (fa_dealloc (FRAME_ALLOCATOR k) p) (\<lambda>fa. Ok (k\<lparr>FRAME_ALLOCATOR := fa\<rparr>))"

definition drop_tracker :: "FrameTracker \<Rightarrow> mm \<Rightarrow> mm res" where
  "drop_tracker t k = frame_dealloc (ft_ppn t) k"

text \<open>\<open>frame_alloc().unwrap()\<close>, the form in which every caller uses it.\<close>

definition frame_alloc_unwrap :: "mm \<Rightarrow> (FrameTracker \<times> mm) res" where
  "frame_alloc_unwrap k =
     (case frame_alloc k of (t, k') \<Rightarrow> bindr (unwrap t) (\<lambda>t. Ok (t, k')))"

section \<open>The allocator keeps its contract\<close>

definition fa_inv :: "StackFrameAllocator \<Rightarrow> bool" where
  "fa_inv fa \<longleftrightarrow> fa_current fa \<le> fa_end fa \<and> distinct (fa_recycled fa) \<and>
     (\<forall>p \<in> set (fa_recycled fa). p < fa_current fa)"

text \<open>In use: below the bump pointer and not recycled. The frames of the kernel image, below the
  first frame the allocator was given, count as in use for ever.\<close>

definition fa_live :: "StackFrameAllocator \<Rightarrow> PhysPageNum set" where
  "fa_live fa = {p. ppn_val p < fa_current fa \<and> ppn_val p \<notin> set (fa_recycled fa)}"

lemma fa_alloc_recycled:
  "fa_recycled fa \<noteq> [] \<Longrightarrow> fa_alloc fa = (Some i, fa') \<Longrightarrow>
     i = PhysPageNum (last (fa_recycled fa)) \<and> fa' = fa\<lparr>fa_recycled := butlast (fa_recycled fa)\<rparr>"
  by (auto simp: fa_alloc_def)

lemma fa_alloc_bump:
  "fa_recycled fa = [] \<Longrightarrow> fa_alloc fa = (Some i, fa') \<Longrightarrow>
     fa_current fa \<noteq> fa_end fa \<and> i = PhysPageNum (fa_current fa) \<and>
     fa' = fa\<lparr>fa_current := fa_current fa + 1\<rparr>"
  by (auto simp: fa_alloc_def split: if_splits)

lemma distinct_butlast_last:
  assumes "xs \<noteq> []" and "distinct xs"
  shows "last xs \<notin> set (butlast xs)" and "set xs = insert (last xs) (set (butlast xs))"
    and "distinct (butlast xs)"
  using assms by (cases xs rule: rev_cases; simp)+

lemma fa_alloc_contract:
  assumes "fa_inv fa" and "fa_alloc fa = (Some i, fa')"
  shows "i \<notin> fa_live fa \<and> fa_live fa' = insert i (fa_live fa) \<and> fa_inv fa'"
proof (cases "fa_recycled fa = []")
  case True
  with assms have c: "fa_current fa < fa_end fa" and i: "i = PhysPageNum (fa_current fa)"
    and fa': "fa' = fa\<lparr>fa_current := fa_current fa + 1\<rparr>"
    by (auto dest: fa_alloc_bump simp: fa_inv_def)
  show ?thesis
    unfolding i fa' using True c
    by (auto simp: fa_live_def fa_inv_def bump_less_iff bump_le ppn_eq_conv)
next
  case False
  with assms have i: "i = PhysPageNum (last (fa_recycled fa))"
    and fa': "fa' = fa\<lparr>fa_recycled := butlast (fa_recycled fa)\<rparr>"
    by (auto dest: fa_alloc_recycled)
  from assms(1) have d: "distinct (fa_recycled fa)" by (simp add: fa_inv_def)
  show ?thesis
    unfolding i fa' using assms(1) distinct_butlast_last [OF False d]
    by (auto simp: fa_live_def fa_inv_def ppn_eq_conv dest: in_set_butlastD)
qed

interpretation fa: id_allocator fa_alloc fa_dealloc fa_live fa_inv "\<lambda>_. True"
proof (unfold_locales, goal_cases)
  case (1 s i s')
  then show ?case using fa_alloc_contract by blast
next
  case (2 s i s')
  then show ?case using fa_alloc_contract by blast
next
  case (3 s i s')
  then show ?case using fa_alloc_contract by blast
next
  case (4 s s')
  then show ?case by (auto simp: fa_alloc_def split: if_splits)
next
  case (5 s i)
  then show ?case
    by (auto simp: fa_dealloc_def fa_live_def fa_inv_def ppn_eq_conv)
next
  case (6 s i)
  then show ?case by (auto simp: fa_dealloc_def fa_live_def)
qed

text \<open>C1: however the kernel's owners of frames interleave allocations and drops, starting from an
  allocator in a consistent state with no tracker alive, no two live trackers own the same frame,
  and dropping any live tracker succeeds.\<close>

theorem frames_never_shared:
  assumes "client_run fa_alloc fa_dealloc (\<lambda>_. True) (fa, []) (fa', H)" and "fa_inv fa"
  shows "distinct H \<and> (\<forall>p \<in> set H. \<exists>fa''. fa_dealloc fa' p = Ok fa'')"
  using fa.client_handles_distinct [OF assms] fa.client_drop_ok [OF assms] by blast

lemma frames_never_shared_example_run:
  "client_run fa_alloc fa_dealloc (\<lambda>_. True)
     (\<lparr>fa_current = 5, fa_end = 9, fa_recycled = []\<rparr>, [])
     (\<lparr>fa_current = 7, fa_end = 9, fa_recycled = []\<rparr>, [PhysPageNum 5, PhysPageNum 6])"
proof -
  let ?step = "client_step fa_alloc fa_dealloc (\<lambda>_. True)"
  let ?s = "\<lambda>c r. \<lparr>fa_current = c, fa_end = 9, fa_recycled = r\<rparr>"
  have "?step (?s 5 [], []) (?s 6 [], [PhysPageNum 5])"
    by (rule client_step.step_alloc) (simp_all add: fa_alloc_def)
  moreover have "?step (?s 6 [], [PhysPageNum 5]) (?s 7 [], [PhysPageNum 6, PhysPageNum 5])"
    by (rule client_step.step_alloc) (simp_all add: fa_alloc_def)
  moreover have "?step (?s 7 [], [PhysPageNum 6, PhysPageNum 5]) (?s 7 [5], [PhysPageNum 6])"
    using client_step.step_drop [of "PhysPageNum 5" "[PhysPageNum 6, PhysPageNum 5]" fa_dealloc "?s 7 []"]
    by (simp add: fa_dealloc_def)
  moreover have "?step (?s 7 [5], [PhysPageNum 6]) (?s 7 [], [PhysPageNum 5, PhysPageNum 6])"
    by (rule client_step.step_alloc) (simp_all add: fa_alloc_def)
  ultimately show ?thesis by (meson run_refl run_step)
qed

theorem frames_never_shared_witness:
  "distinct [PhysPageNum 5, PhysPageNum 6] \<and>
   (\<exists>fa''. fa_dealloc \<lparr>fa_current = 7, fa_end = 9, fa_recycled = []\<rparr> (PhysPageNum 5) = Ok fa'') \<and>
   (\<exists>fa''. fa_dealloc \<lparr>fa_current = 7, fa_end = 9, fa_recycled = []\<rparr> (PhysPageNum 6) = Ok fa'')"
proof -
  have "fa_inv \<lparr>fa_current = 5, fa_end = 9, fa_recycled = []\<rparr>" by (simp add: fa_inv_def)
  from frames_never_shared [OF frames_never_shared_example_run this] show ?thesis by simp
qed

section \<open>What \<open>frame_alloc\<close> gives its caller\<close>

text \<open>A consistent memory manager: the allocator's invariant, and every frame it may hand out has a
  page of its own in a page-table entry.\<close>

definition mm_inv :: "mm \<Rightarrow> bool" where
  "mm_inv k \<longleftrightarrow> fa_inv (FRAME_ALLOCATOR k) \<and> unat (fa_end (FRAME_ALLOCATOR k)) \<le> 2 ^ 44"

abbreviation live :: "mm \<Rightarrow> PhysPageNum set" where
  "live k \<equiv> fa_live (FRAME_ALLOCATOR k)"

lemma live_frame_ok:
  assumes "mm_inv k" and "p \<in> live k"
  shows "frame_ok p"
proof -
  have "ppn_val p < fa_end (FRAME_ALLOCATOR k)"
    using assms by (auto simp: mm_inv_def fa_inv_def fa_live_def)
  then show ?thesis
    using assms(1) unfolding mm_inv_def frame_ok_def word_less_nat_alt by linarith
qed

lemma fa_alloc_end: "fa_alloc fa = (r, fa') \<Longrightarrow> fa_end fa' = fa_end fa"
  by (auto simp: fa_alloc_def split: if_splits)

text \<open>The frame of a new tracker was not in use, is now, reads as zeros, and no other byte of
  memory changed.\<close>

lemma frame_alloc_Some:
  assumes "frame_alloc k = (Some t, k')" and "mm_inv k"
  shows "mm_inv k' \<and> ft_ppn t \<notin> live k \<and> live k' = insert (ft_ppn t) (live k) \<and> frame_ok (ft_ppn t) \<and>
    (\<forall>x. frame_of x \<noteq> ft_ppn t \<longrightarrow> mem k' x = mem k x) \<and>
    (\<forall>x. frame_of x = ft_ppn t \<longrightarrow> mem k' x = 0)"
proof -
  obtain fa where fa: "fa_alloc (FRAME_ALLOCATOR k) = (Some (ft_ppn t), fa)"
    and k': "k' = k\<lparr>FRAME_ALLOCATOR := fa, mem := set_bytes_array (mem k) (ft_ppn t) (replicate 4096 0)\<rparr>"
    using assms(1) by (auto simp: frame_alloc_def tracker_new_def split: prod.splits option.splits)
  have c: "ft_ppn t \<notin> live k \<and> fa_live fa = insert (ft_ppn t) (live k) \<and> fa_inv fa"
    using fa_alloc_contract [OF _ fa] assms(2) by (simp add: mm_inv_def)
  then have inv': "mm_inv k'" using assms(2) fa_alloc_end [OF fa] by (simp add: k' mm_inv_def)
  moreover have ok: "frame_ok (ft_ppn t)"
    using live_frame_ok [OF inv'] c by (simp add: k')
  moreover have "mem k' x = 0" if x: "frame_of x = ft_ppn t" for x
  proof -
    obtain i where "i < 4096" and "x = pa_val (pa_from_ppn (ft_ppn t)) + of_nat i"
      by (rule frame_addr_split [OF x])
    then show ?thesis by (simp add: k' set_bytes_array_same)
  qed
  ultimately show ?thesis using c by (simp add: k' set_bytes_array_other)
qed

lemma frame_alloc_None: "frame_alloc k = (None, k') \<Longrightarrow> k' = k"
  by (auto simp: frame_alloc_def tracker_new_def fa.alloc_none split: prod.splits option.splits)

lemma frame_alloc_unwrap_Ok:
  "frame_alloc_unwrap k = Ok (t, k') \<longleftrightarrow> frame_alloc k = (Some t, k')"
  by (auto simp: frame_alloc_unwrap_def split: prod.splits)

lemma frame_dealloc_live:
  assumes "mm_inv k" and "p \<in> live k"
  shows "\<exists>k'. frame_dealloc p k = Ok k' \<and> mm_inv k' \<and> live k' = live k - {p} \<and> mem k' = mem k"
proof -
  obtain fa where "fa_dealloc (FRAME_ALLOCATOR k) p = Ok fa" "fa_inv fa" "fa_live fa = live k - {p}"
    using fa.dealloc_ok [of "FRAME_ALLOCATOR k" p] assms by (auto simp: mm_inv_def)
  moreover from this(1) have "fa_end fa = fa_end (FRAME_ALLOCATOR k)"
    by (auto simp: fa_dealloc_def split: if_splits)
  ultimately show ?thesis using assms(1) by (simp add: frame_dealloc_def mm_inv_def)
qed

lemma frame_dealloc_Ok:
  assumes "mm_inv k" and "frame_dealloc p k = Ok k'"
  shows "p \<in> live k \<and> mm_inv k' \<and> live k' = live k - {p} \<and> mem k' = mem k"
proof -
  obtain fa where "fa_dealloc (FRAME_ALLOCATOR k) p = Ok fa" using assms(2) by (auto simp: frame_dealloc_def)
  then have "p \<in> live k" using fa.dealloc_live assms(1) by (auto simp: mm_inv_def)
  with frame_dealloc_live [OF assms(1) this] assms(2) show ?thesis by auto
qed

text \<open>C8: booting the allocator on the frames from the end of the kernel image to the end of memory
  gives a consistent state in which exactly the frames below the first whole page after the image
  are in use, and the first allocation returns that page.\<close>

theorem init_frame_allocator_ready:
  assumes "FRAME_ALLOCATOR k = fa_new" and "unat ekernel + 4096 \<le> unat MEMORY_END"
  shows "mm_inv (init_frame_allocator ekernel k) \<and>
    live (init_frame_allocator ekernel k) = {p. unat (ppn_val p) < (unat ekernel + 4095) div 4096} \<and>
    (\<exists>t k'. frame_alloc (init_frame_allocator ekernel k) = (Some t, k') \<and>
       unat (ppn_val (ft_ppn t)) = (unat ekernel + 4095) div 4096)"
proof -
  let ?k = "init_frame_allocator ekernel k"
  have e: "unat (ppn_val (pa_floor (PhysAddr MEMORY_END))) = 0x88000"
    by (simp add: unat_pa_floor MEMORY_END_def)
  have c: "unat (ppn_val (pa_ceil (PhysAddr ekernel))) = (unat ekernel + 4095) div 4096"
    using assms(2) by (simp add: pa_ceil_value MEMORY_END_def)
  have lt: "ppn_val (pa_ceil (PhysAddr ekernel)) < ppn_val (pa_floor (PhysAddr MEMORY_END))"
    unfolding word_less_nat_alt e c using assms(2) by (simp add: MEMORY_END_def)
  have fa: "FRAME_ALLOCATOR ?k = \<lparr>fa_current = ppn_val (pa_ceil (PhysAddr ekernel)),
      fa_end = ppn_val (pa_floor (PhysAddr MEMORY_END)), fa_recycled = []\<rparr>"
    using assms(1) by (simp add: init_frame_allocator_def fa_init_def fa_new_def)
  have "mm_inv ?k" using lt by (simp add: mm_inv_def fa fa_inv_def e)
  moreover have "live ?k = {p. unat (ppn_val p) < (unat ekernel + 4095) div 4096}"
    by (simp add: fa fa_live_def word_less_nat_alt c)
  moreover have "\<exists>t k'. frame_alloc ?k = (Some t, k') \<and> unat (ppn_val (ft_ppn t)) = (unat ekernel + 4095) div 4096"
    using lt c by (auto simp: frame_alloc_def fa fa_alloc_def tracker_new_def)
  ultimately show ?thesis by blast
qed

definition boot_mm :: mm where
  "boot_mm = \<lparr>mem = (\<lambda>_. 0), FRAME_ALLOCATOR = fa_new\<rparr>"

theorem init_frame_allocator_ready_witness:
  "mm_inv (init_frame_allocator 0x80400010 boot_mm) \<and>
   (\<exists>t k'. frame_alloc (init_frame_allocator 0x80400010 boot_mm) = (Some t, k') \<and>
      unat (ppn_val (ft_ppn t)) = 0x80401)"
  using init_frame_allocator_ready [of boot_mm "0x80400010"] by (simp add: boot_mm_def MEMORY_END_def)

end
