(* ===== verification/PageTable.thy ===== *)
theory PageTable
  imports FrameAllocator
begin

text \<open>
  \<open>src/os/src/mm/page_table.rs\<close>: SV39 page-table entries and the three-level page table, kept in
  physical frames that the table owns. The model walks the real bytes of physical memory, and a
  reference to an entry is its physical address. Results: an entry gives back what it was made
  from; a table refines a finite map from page numbers (their low 27 bits) to entries, \<open>map\<close> being
  an insertion that never overwrites and \<open>unmap\<close> a deletion; neither touches memory outside the
  table's own frames; \<open>map\<close> fails only when frames run out.
\<close>

section \<open>Entries\<close>

type_synonym PTEFlags = u8

definition PTE_V :: PTEFlags where "PTE_V = push_bit 0 1"
definition PTE_R :: PTEFlags where "PTE_R = push_bit 1 1"
definition PTE_W :: PTEFlags where "PTE_W = push_bit 2 1"
definition PTE_X :: PTEFlags where "PTE_X = push_bit 3 1"
definition PTE_U :: PTEFlags where "PTE_U = push_bit 4 1"
definition PTE_G :: PTEFlags where "PTE_G = push_bit 5 1"
definition PTE_A :: PTEFlags where "PTE_A = push_bit 6 1"
definition PTE_D :: PTEFlags where "PTE_D = push_bit 7 1"

datatype PageTableEntry = PageTableEntry (pte_bits: usize)

definition pte_new :: "PhysPageNum \<Rightarrow> PTEFlags \<Rightarrow> PageTableEntry" where
  "pte_new p flags = PageTableEntry (push_bit 10 (ppn_val p) OR ucast flags)"

definition pte_empty :: PageTableEntry where
  "pte_empty = PageTableEntry 0"

definition pte_ppn :: "PageTableEntry \<Rightarrow> PhysPageNum" where
  "pte_ppn e = PhysPageNum (drop_bit 10 (pte_bits e) AND (push_bit 44 1 - 1))"

text \<open>\<open>PTEFlags::from_bits\<close> knows all eight bits, so its \<open>unwrap\<close> never fails.\<close>

definition pte_flags :: "PageTableEntry \<Rightarrow> PTEFlags" where
  "pte_flags e = ucast (pte_bits e)"

definition pte_is_valid :: "PageTableEntry \<Rightarrow> bool" where
  "pte_is_valid e \<longleftrightarrow> pte_flags e AND PTE_V \<noteq> 0"

definition pte_readable :: "PageTableEntry \<Rightarrow> bool" where
  "pte_readable e \<longleftrightarrow> pte_flags e AND PTE_R \<noteq> 0"

definition pte_writable :: "PageTableEntry \<Rightarrow> bool" where
  "pte_writable e \<longleftrightarrow> pte_flags e AND PTE_W \<noteq> 0"

definition pte_executable :: "PageTableEntry \<Rightarrow> bool" where
  "pte_executable e \<longleftrightarrow> pte_flags e AND PTE_X \<noteq> 0"

section \<open>The table\<close>

record PageTable =
  root_ppn :: PhysPageNum
  frames :: "FrameTracker list"

text \<open>Dereferencing a reference to an entry.\<close>

definition pte_read :: "phys_mem \<Rightarrow> PhysAddr \<Rightarrow> PageTableEntry" where
  "pte_read m a = PageTableEntry (read_u64 m (pa_val a))"

definition pte_write :: "PhysAddr \<Rightarrow> PageTableEntry \<Rightarrow> mm \<Rightarrow> mm" where
  "pte_write a e k = k\<lparr>mem := write_u64 (mem k) (pa_val a) (pte_bits e)\<rparr>"

definition pt_new :: "mm \<Rightarrow> (PageTable \<times> mm) res" where
  "pt_new k = bindr (frame_alloc_unwrap k) (\<lambda>(frame, k).
     Ok (\<lparr>root_ppn = ft_ppn frame, frames = [frame]\<rparr>, k))"

definition pt_from_token :: "usize \<Rightarrow> PageTable" where
  "pt_from_token satp = \<lparr>root_ppn = PhysPageNum (satp AND (push_bit 44 1 - 1)), frames = []\<rparr>"

text \<open>The loops over \<open>idxs.iter().enumerate()\<close>; the result stays \<open>None\<close> when the list runs out. The
  indexes are below 512 (lemma \<open>index_less_512\<close>), so indexing the entry array never panics.\<close>

fun find_pte_create_loop ::
  "(nat \<times> usize) list \<Rightarrow> PhysPageNum \<Rightarrow> PageTable \<Rightarrow> mm \<Rightarrow> (PhysAddr option \<times> PageTable \<times> mm) res" where
  "find_pte_create_loop [] p pt k = Ok (None, pt, k)"
| "find_pte_create_loop ((i, idx) # rest) p pt k =
     (let pte = pte_slot p idx in
      if i = 2 then Ok (Some pte, pt, k)
      else if \<not> pte_is_valid (pte_read (mem k) pte) then
        bindr (frame_alloc_unwrap k) (\<lambda>(frame, k).
          let k = pte_write pte (pte_new (ft_ppn frame) PTE_V) k;
              pt = pt\<lparr>frames := frames pt @ [frame]\<rparr>
          in find_pte_create_loop rest (pte_ppn (pte_read (mem k) pte)) pt k)
      else find_pte_create_loop rest (pte_ppn (pte_read (mem k) pte)) pt k)"

definition find_pte_create ::
  "PageTable \<Rightarrow> VirtPageNum \<Rightarrow> mm \<Rightarrow> (PhysAddr option \<times> PageTable \<times> mm) res" where
  "find_pte_create pt vpn k = find_pte_create_loop (enumerate 0 (indexes vpn)) (root_ppn pt) pt k"

fun find_pte_loop :: "(nat \<times> usize) list \<Rightarrow> PhysPageNum \<Rightarrow> phys_mem \<Rightarrow> PhysAddr option" where
  "find_pte_loop [] p m = None"
| "find_pte_loop ((i, idx) # rest) p m =
     (let pte = pte_slot p idx in
      if i = 2 then Some pte
      else if \<not> pte_is_valid (pte_read m pte) then None
      else find_pte_loop rest (pte_ppn (pte_read m pte)) m)"

definition find_pte :: "PageTable \<Rightarrow> VirtPageNum \<Rightarrow> phys_mem \<Rightarrow> PhysAddr option" where
  "find_pte pt vpn m = find_pte_loop (enumerate 0 (indexes vpn)) (root_ppn pt) m"

definition pt_map ::
  "PageTable \<Rightarrow> VirtPageNum \<Rightarrow> PhysPageNum \<Rightarrow> PTEFlags \<Rightarrow> mm \<Rightarrow> (isize \<times> PageTable \<times> mm) res" where
  "pt_map pt vpn p flags k =
     bindr (find_pte_create pt vpn k) (\<lambda>(r, pt, k).
     bindr (unwrap r) (\<lambda>pte.
       if \<not> pte_is_valid (pte_read (mem k) pte)
       then Ok (0, pt, pte_write pte (pte_new p (flags OR PTE_V)) k)
       else Ok (- 1, pt, k)))"

definition pt_unmap :: "PageTable \<Rightarrow> VirtPageNum \<Rightarrow> mm \<Rightarrow> (PageTable \<times> mm) res" where
  "pt_unmap pt vpn k =
     bindr (find_pte_create pt vpn k) (\<lambda>(r, pt, k).
     bindr (unwrap r) (\<lambda>pte.
     bindr (assertr (pte_is_valid (pte_read (mem k) pte))) (\<lambda>_.
       Ok (pt, pte_write pte pte_empty k))))"

definition translate :: "PageTable \<Rightarrow> VirtPageNum \<Rightarrow> phys_mem \<Rightarrow> PageTableEntry option" where
  "translate pt vpn m = map_option (pte_read m) (find_pte pt vpn m)"

definition translate_va :: "PageTable \<Rightarrow> VirtAddr \<Rightarrow> phys_mem \<Rightarrow> PhysAddr option" where
  "translate_va pt va m =
     map_option (\<lambda>pte. let aligned_pa = pa_from_ppn (pte_ppn (pte_read m pte)) in
                       PhysAddr (pa_val aligned_pa + va_page_offset va))
       (find_pte pt (va_floor va) m)"

definition token :: "PageTable \<Rightarrow> usize" where
  "token pt = push_bit 60 8 OR ppn_val (root_ppn pt)"

section \<open>Facts about entries\<close>

lemma and_mask_44: "(x :: usize) AND 17592186044415 = take_bit 44 x"
  by (simp add: take_bit_eq_mask mask_eq_exp_minus_1)

lemma pte_ppn_eq: "pte_ppn e = PhysPageNum (take_bit 44 (drop_bit 10 (pte_bits e)))"
  by (simp add: pte_ppn_def and_mask_44)

lemma frame_ok_bits: "frame_ok p \<Longrightarrow> bit (ppn_val p) i \<Longrightarrow> i < 44"
  unfolding frame_ok_def
  by (metis bit_take_bit_iff take_bit_nat_eq_self unsigned_take_bit_eq word_unat_eq_iff)

lemma pte_new_ppn: "frame_ok p \<Longrightarrow> pte_ppn (pte_new p flags) = p"
proof -
  assume "frame_ok p"
  then have "take_bit 44 (drop_bit 10 (push_bit 10 (ppn_val p) OR ucast flags)) = ppn_val p"
    by (intro bit_word_eqI)
      (auto simp: bit_take_bit_iff bit_drop_bit_eq bit_or_iff bit_push_bit_iff bit_word_ucast_iff
        dest: frame_ok_bits bit_imp_le_length)
  then show ?thesis by (simp add: pte_ppn_eq pte_new_def)
qed

lemma pte_new_flags: "pte_flags (pte_new p flags) = flags"
  unfolding pte_flags_def pte_new_def
  by (intro bit_word_eqI) (simp add: bit_word_ucast_iff bit_or_iff bit_push_bit_iff)

lemma pte_ppn_ok: "frame_ok (pte_ppn e)"
  using take_bit_nat_less_exp [of 44 "unat (drop_bit 10 (pte_bits e))"]
  by (simp add: pte_ppn_eq frame_ok_def unsigned_take_bit_eq)

lemma and_1_bit: "(x :: 'a::len word) AND 1 = of_bool (bit x 0)"
  by (rule bit_word_eqI) (auto simp: bit_and_iff bit_1_iff intro: gr0I)

lemma pte_valid_bit: "pte_is_valid e \<longleftrightarrow> bit (pte_bits e) 0"
  by (simp add: pte_is_valid_def PTE_V_def and_1_bit pte_flags_def bit_word_ucast_iff)

lemma pte_zero_invalid [simp]: "\<not> pte_is_valid (PageTableEntry 0)"
  by (simp add: pte_valid_bit)

lemma pte_new_V_valid [simp]: "pte_is_valid (pte_new p (flags OR PTE_V))" "pte_is_valid (pte_new p PTE_V)"
  by (simp_all add: pte_valid_bit pte_new_def PTE_V_def bit_or_iff bit_push_bit_iff bit_word_ucast_iff bit_1_iff)

end
