(* ===== verification/BTreeMap.thy ===== *)
theory BTreeMap
  imports Prelude
begin

text \<open>
  What the kernel uses of the standard library's \<open>BTreeMap\<close> (\<open>src/os/src/mm/memory_set.rs\<close> keeps
  the frames of an area in one): a map kept in the order of its keys, as a sorted association
  list, with \<open>insert\<close> and \<open>remove\<close>, both of which give the displaced value back. The ordered-map
  contract is the locale \<open>ordered_map\<close>, and the sorted list is shown to meet it.
\<close>

fun bt_insert :: "'k::linorder \<Rightarrow> 'v \<Rightarrow> ('k \<times> 'v) list \<Rightarrow> ('k \<times> 'v) list" where
  "bt_insert k v [] = [(k, v)]"
| "bt_insert k v ((k', v') # m) =
     (if k < k' then (k, v) # (k', v') # m
      else if k = k' then (k, v) # m
      else (k', v') # bt_insert k v m)"

fun bt_remove :: "'k::linorder \<Rightarrow> ('k \<times> 'v) list \<Rightarrow> ('k \<times> 'v) list" where
  "bt_remove k [] = []"
| "bt_remove k ((k', v') # m) = (if k = k' then m else (k', v') # bt_remove k m)"

definition bt_get :: "'k \<Rightarrow> ('k \<times> 'v) list \<Rightarrow> 'v option" where
  "bt_get k m = map_of m k"

definition bt_ok :: "('k::linorder \<times> 'v) list \<Rightarrow> bool" where
  "bt_ok m \<longleftrightarrow> sorted_wrt (<) (map fst m)"

section \<open>The contract of an ordered map\<close>

locale ordered_map =
  fixes get :: "'k::linorder \<Rightarrow> 'm \<Rightarrow> 'v option"
    and insert :: "'k \<Rightarrow> 'v \<Rightarrow> 'm \<Rightarrow> 'm"
    and remove :: "'k \<Rightarrow> 'm \<Rightarrow> 'm"
    and empty :: "'m"
    and entries :: "'m \<Rightarrow> ('k \<times> 'v) list"
    and inv :: "'m \<Rightarrow> bool"
  assumes get_empty: "get k empty = None"
    and inv_empty: "inv empty"
    and get_insert: "inv m \<Longrightarrow> get k (insert k' v m) = (if k = k' then Some v else get k m)"
    and inv_insert: "inv m \<Longrightarrow> inv (insert k v m)"
    and get_remove: "inv m \<Longrightarrow> get k (remove k' m) = (if k = k' then None else get k m)"
    and inv_remove: "inv m \<Longrightarrow> inv (remove k m)"
    and entries_get: "inv m \<Longrightarrow> (k, v) \<in> set (entries m) \<longleftrightarrow> get k m = Some v"
    and entries_sorted: "inv m \<Longrightarrow> sorted_wrt (<) (map fst (entries m))"
begin

text \<open>Two maps with the same contents have the same entries in the same order, so what a loop over
  a map does depends on its contents only.\<close>

lemma entries_unique:
  assumes "inv m" and "inv m'" and "\<And>k. get k m = get k m'"
  shows "entries m = entries m'"
proof -
  have s: "set (entries m) = set (entries m')"
    using assms entries_get by auto
  have d: "distinct (map fst (entries m))" "distinct (map fst (entries m'))"
    using entries_sorted [OF assms(1)] entries_sorted [OF assms(2)]
    by (auto simp: strict_sorted_iff)
  have "map fst (entries m) = map fst (entries m')"
    using entries_sorted [OF assms(1)] entries_sorted [OF assms(2)] s
    by (intro strict_sorted_equal) auto
  then have n: "length (entries m) = length (entries m')"
    "\<And>i. i < length (entries m) \<Longrightarrow> fst (entries m ! i) = fst (entries m' ! i)"
    by (metis length_map, metis length_map nth_map)
  show ?thesis
  proof (rule nth_equalityI [OF n(1)])
    fix i assume i: "i < length (entries m)"
    have "entries m ! i \<in> set (entries m')" using i s nth_mem by blast
    moreover have "entries m' ! i \<in> set (entries m')" using i n(1) by simp
    ultimately show "entries m ! i = entries m' ! i"
      using n(2) [OF i] d(2) by (metis eq_key_imp_eq_value prod.collapse)
  qed
qed

lemma insert_remove_entries:
  assumes "inv m" and "get k m = None"
  shows "entries (remove k (insert k v m)) = entries m"
  using assms
  by (intro entries_unique) (auto simp: inv_insert inv_remove get_remove get_insert)

end

section \<open>The sorted list meets it\<close>

lemma bt_insert_keys: "set (map fst (bt_insert k v m)) = insert k (set (map fst m))"
  by (induction k v m rule: bt_insert.induct) auto

lemma bt_ok_insert: "bt_ok m \<Longrightarrow> bt_ok (bt_insert k v m)"
proof (induction k v m rule: bt_insert.induct)
  case (2 k v k' v' m)
  then show ?case
    using bt_insert_keys [of k v m] by (auto simp: bt_ok_def)
qed (simp add: bt_ok_def)

lemma bt_get_insert: "bt_ok m \<Longrightarrow> bt_get k (bt_insert k' v m) = (if k = k' then Some v else bt_get k m)"
  by (induction k' v m rule: bt_insert.induct) (auto simp: bt_get_def bt_ok_def)

lemma bt_remove_keys: "set (bt_remove k m) \<subseteq> set m"
  by (induction k m rule: bt_remove.induct) auto

lemma bt_ok_remove: "bt_ok m \<Longrightarrow> bt_ok (bt_remove k m)"
proof (induction k m rule: bt_remove.induct)
  case (2 k k' v' m)
  then show ?case using bt_remove_keys [of k m] by (auto simp: bt_ok_def)
qed (simp add: bt_ok_def)

lemma bt_get_remove: "bt_ok m \<Longrightarrow> bt_get k (bt_remove k' m) = (if k = k' then None else bt_get k m)"
proof (induction k' m rule: bt_remove.induct)
  case (2 k0 k' v' m)
  then have "k' \<notin> fst ` set m" by (auto simp: bt_ok_def)
  with 2 show ?case by (auto simp: bt_get_def bt_ok_def map_of_eq_None_iff) force
qed (simp add: bt_get_def)

interpretation bt: ordered_map bt_get bt_insert bt_remove "[]" "\<lambda>m. m" bt_ok
proof unfold_locales
  fix m :: "('a \<times> 'b) list" and k v
  assume "bt_ok m"
  then have "distinct (map fst m)" by (simp add: bt_ok_def strict_sorted_iff)
  then show "(k, v) \<in> set m \<longleftrightarrow> bt_get k m = Some v" by (simp add: bt_get_def)
qed (auto simp: bt_get_insert bt_get_remove bt_ok_insert bt_ok_remove, auto simp: bt_get_def bt_ok_def)

text \<open>Inserting above every key appends.\<close>

lemma bt_insert_append: "\<forall>x \<in> set m. fst x < k \<Longrightarrow> bt_insert k v m = m @ [(k, v)]"
proof (induction m)
  case (Cons x m)
  then show ?case by (cases x) auto
qed simp

lemma bt_get_above: "\<forall>x \<in> set m. fst x < (k :: 'k::linorder) \<Longrightarrow> bt_get k m = None"
  by (force simp: bt_get_def map_of_eq_None_iff)

end
