(* ===== verification/MemorySet.thy ===== *)
theory MemorySet
  imports PageTable BTreeMap
begin

text \<open>
  \<open>src/os/src/mm/memory_set.rs\<close>: areas of virtual memory and address spaces. An area owns the
  frames of its pages (\<open>data_frames\<close>); an address space owns its page table and its areas. Where
  the source drops an area or a tracker implicitly, the model calls \<open>drop_tracker\<close>. The addresses
  the linker script defines are a record of parameters, and so is the result of the \<open>xmas_elf\<close>
  parser. A panic stops the kernel, so nothing is dropped after one.
\<close>

section \<open>Areas\<close>

datatype MapType = Identical | Framed

type_synonym MapPermission = u8

definition MP_R :: MapPermission where "MP_R = push_bit 1 1"
definition MP_W :: MapPermission where "MP_W = push_bit 2 1"
definition MP_X :: MapPermission where "MP_X = push_bit 3 1"
definition MP_U :: MapPermission where "MP_U = push_bit 4 1"

record MapArea =
  vpn_range :: VPNRange
  data_frames :: "(VirtPageNum \<times> FrameTracker) list"
  map_type :: MapType
  map_perm :: MapPermission

definition area_new :: "VirtAddr \<Rightarrow> VirtAddr \<Rightarrow> MapType \<Rightarrow> MapPermission \<Rightarrow> MapArea res" where
  "area_new start_va end_va ty perm =
     bindr (range_new (va_floor start_va) (va_ceil end_va)) (\<lambda>r.
       Ok \<lparr>vpn_range = r, data_frames = [], map_type = ty, map_perm = perm\<rparr>)"

definition from_another :: "MapArea \<Rightarrow> MapArea res" where
  "from_another another =
     bindr (range_new (range_l (vpn_range another)) (range_r (vpn_range another))) (\<lambda>r.
       Ok \<lparr>vpn_range = r, data_frames = [], map_type = map_type another, map_perm = map_perm another\<rparr>)"

definition drop_option :: "FrameTracker option \<Rightarrow> mm \<Rightarrow> mm res" where
  "drop_option t k = (case t of None \<Rightarrow> Ok k | Some t \<Rightarrow> drop_tracker t k)"

text \<open>Dropping an area drops the trackers of its map in the order of the keys.\<close>

definition drop_area :: "MapArea \<Rightarrow> mm \<Rightarrow> mm res" where
  "drop_area area k = for_each drop_tracker (map snd (data_frames area)) k"

text \<open>\<open>PTEFlags::from_bits\<close> accepts every byte, so its \<open>unwrap\<close> does not panic. The value that
  \<open>insert\<close> displaces is dropped.\<close>

definition map_one ::
  "MapArea \<Rightarrow> PageTable \<Rightarrow> VirtPageNum \<Rightarrow> mm \<Rightarrow> (isize \<times> MapArea \<times> PageTable \<times> mm) res" where
  "map_one area pt vpn k =
     bindr (case map_type area of
        Identical \<Rightarrow> Ok (PhysPageNum (vpn_val vpn), area, k)
      | Framed \<Rightarrow>
          bindr (frame_alloc_unwrap k) (\<lambda>(frame, k).
          bindr (drop_option (bt_get vpn (data_frames area)) k) (\<lambda>k.
            Ok (ft_ppn frame, area\<lparr>data_frames := bt_insert vpn frame (data_frames area)\<rparr>, k))))
     (\<lambda>(ppn, area, k).
     bindr (pt_map pt vpn ppn (map_perm area) k) (\<lambda>(r, pt, k). Ok (r, area, pt, k)))"

definition unmap_one :: "MapArea \<Rightarrow> PageTable \<Rightarrow> VirtPageNum \<Rightarrow> mm \<Rightarrow> (MapArea \<times> PageTable \<times> mm) res" where
  "unmap_one area pt vpn k =
     bindr (case map_type area of
        Framed \<Rightarrow>
          bindr (drop_option (bt_get vpn (data_frames area)) k) (\<lambda>k.
            Ok (area\<lparr>data_frames := bt_remove vpn (data_frames area)\<rparr>, k))
      | _ \<Rightarrow> Ok (area, k))
     (\<lambda>(area, k).
     bindr (pt_unmap pt vpn k) (\<lambda>(pt, k). Ok (area, pt, k)))"

fun area_map_loop ::
  "VirtPageNum list \<Rightarrow> MapArea \<Rightarrow> PageTable \<Rightarrow> mm \<Rightarrow> (isize \<times> MapArea \<times> PageTable \<times> mm) res" where
  "area_map_loop [] area pt k = Ok (0, area, pt, k)"
| "area_map_loop (vpn # vpns) area pt k =
     bindr (map_one area pt vpn k) (\<lambda>(r, area, pt, k).
       if r = - 1 then Ok (- 1, area, pt, k) else area_map_loop vpns area pt k)"

definition area_map :: "MapArea \<Rightarrow> PageTable \<Rightarrow> mm \<Rightarrow> (isize \<times> MapArea \<times> PageTable \<times> mm) res" where
  "area_map area pt k = area_map_loop (range_list (vpn_range area)) area pt k"

fun area_unmap_loop ::
  "VirtPageNum list \<Rightarrow> MapArea \<Rightarrow> PageTable \<Rightarrow> mm \<Rightarrow> (MapArea \<times> PageTable \<times> mm) res" where
  "area_unmap_loop [] area pt k = Ok (area, pt, k)"
| "area_unmap_loop (vpn # vpns) area pt k =
     bindr (unmap_one area pt vpn k) (\<lambda>(area, pt, k). area_unmap_loop vpns area pt k)"

definition area_unmap :: "MapArea \<Rightarrow> PageTable \<Rightarrow> mm \<Rightarrow> (MapArea \<times> PageTable \<times> mm) res" where
  "area_unmap area pt k = area_unmap_loop (range_list (vpn_range area)) area pt k"

text \<open>The \<open>loop\<close> of \<open>copy_data\<close>. The length of a slice is below \<open>2\<^sup>6\<^sup>3\<close>, so \<open>start\<close> does not wrap
  and is kept as a natural number.\<close>

function copy_data_loop ::
  "u8 list \<Rightarrow> nat \<Rightarrow> VirtPageNum \<Rightarrow> PageTable \<Rightarrow> phys_mem \<Rightarrow> phys_mem res" where
  "copy_data_loop data start current_vpn pt m =
     (let src = take (min (length data) (start + 4096) - start) (drop start data) in
      bindr (unwrap (translate pt current_vpn m)) (\<lambda>pte.
        let m = set_bytes_array m (pte_ppn pte) src in
        if length data \<le> start + 4096 then Ok m
        else copy_data_loop data (start + 4096) (vpn_step current_vpn) pt m))"
  by pat_completeness auto
termination
  by (relation "measure (\<lambda>(data, start, _). length data - start)") auto

declare copy_data_loop.simps [simp del]

definition copy_data :: "MapArea \<Rightarrow> PageTable \<Rightarrow> u8 list \<Rightarrow> mm \<Rightarrow> mm res" where
  "copy_data area pt data k =
     bindr (assertr (map_type area = Framed)) (\<lambda>_.
     bindr (copy_data_loop data 0 (range_l (vpn_range area)) pt (mem k)) (\<lambda>m.
       Ok (k\<lparr>mem := m\<rparr>)))"

section \<open>Address spaces\<close>

record MemorySet =
  page_table :: PageTable
  areas :: "MapArea list"

definition new_bare :: "mm \<Rightarrow> (MemorySet \<times> mm) res" where
  "new_bare k = bindr (pt_new k) (\<lambda>(pt, k). Ok (\<lparr>page_table = pt, areas = []\<rparr>, k))"

definition ms_token :: "MemorySet \<Rightarrow> usize" where
  "ms_token ms = token (page_table ms)"

text \<open>An area that cannot be mapped is dropped on the early return.\<close>

definition ms_push :: "MapArea \<Rightarrow> u8 list option \<Rightarrow> MemorySet \<Rightarrow> mm \<Rightarrow> (isize \<times> MemorySet \<times> mm) res" where
  "ms_push map_area data ms k =
     bindr (area_map map_area (page_table ms) k) (\<lambda>(r, map_area, pt, k).
       if r = - 1 then bindr (drop_area map_area k) (\<lambda>k. Ok (- 1, ms\<lparr>page_table := pt\<rparr>, k))
       else
         bindr (case data of None \<Rightarrow> Ok k | Some data \<Rightarrow> copy_data map_area pt data k) (\<lambda>k.
           Ok (0, ms\<lparr>page_table := pt, areas := areas ms @ [map_area]\<rparr>, k)))"

definition insert_framed_area ::
  "VirtAddr \<Rightarrow> VirtAddr \<Rightarrow> MapPermission \<Rightarrow> MemorySet \<Rightarrow> mm \<Rightarrow> (isize \<times> MemorySet \<times> mm) res" where
  "insert_framed_area start_va end_va permission ms k =
     bindr (area_new start_va end_va Framed permission) (\<lambda>area. ms_push area None ms k)"

text \<open>\<open>area.unmap(&mut self.page_table); self.areas.remove(idx)\<close>, which drops the area.\<close>

definition remove_area_at :: "nat \<Rightarrow> MemorySet \<Rightarrow> mm \<Rightarrow> (MemorySet \<times> mm) res" where
  "remove_area_at idx ms k =
     bindr (area_unmap (areas ms ! idx) (page_table ms) k) (\<lambda>(area, pt, k).
     bindr (drop_area area k) (\<lambda>k.
       Ok (ms\<lparr>page_table := pt, areas := remove_nth idx (areas ms)\<rparr>, k)))"

definition remove_framed_area :: "VirtAddr \<Rightarrow> VirtAddr \<Rightarrow> MemorySet \<Rightarrow> mm \<Rightarrow> (isize \<times> MemorySet \<times> mm) res" where
  "remove_framed_area start_va end_va ms k =
     (let start_vpn = va_floor start_va; end_vpn = va_ceil end_va in
      bindr (case find_index (\<lambda>area. vpn_val start_vpn \<le> vpn_val (range_l (vpn_range area)) \<and>
                                     vpn_val (range_r (vpn_range area)) \<le> vpn_val end_vpn) (areas ms) of
          Some idx \<Rightarrow>
            (let area = areas ms ! idx;
                 len = 0 + (vpn_val (range_r (vpn_range area)) - vpn_val (range_l (vpn_range area)))
             in bindr (remove_area_at idx ms k) (\<lambda>(ms, k). Ok (len, ms, k)))
        | None \<Rightarrow> Ok (0, ms, k))
      (\<lambda>(len, ms, k). Ok (if len = vpn_val end_vpn - vpn_val start_vpn then 0 else - 1, ms, k)))"

definition remove_area_with_start_vpn :: "VirtPageNum \<Rightarrow> MemorySet \<Rightarrow> mm \<Rightarrow> (MemorySet \<times> mm) res" where
  "remove_area_with_start_vpn start_vpn ms k =
     (case find_index (\<lambda>area. range_l (vpn_range area) = start_vpn) (areas ms) of
        Some idx \<Rightarrow> remove_area_at idx ms k
      | None \<Rightarrow> Ok (ms, k))"

text \<open>\<open>strampoline\<close> is the address of the trampoline page in the kernel image. The answer of \<open>map\<close> is
  ignored.\<close>

definition map_trampoline :: "usize \<Rightarrow> MemorySet \<Rightarrow> mm \<Rightarrow> (MemorySet \<times> mm) res" where
  "map_trampoline strampoline ms k =
     bindr (vpn_from_va (VirtAddr TRAMPOLINE)) (\<lambda>vpn.
     bindr (ppn_from_pa (PhysAddr strampoline)) (\<lambda>ppn.
     bindr (pt_map (page_table ms) vpn ppn (PTE_R OR PTE_X) k) (\<lambda>(_, pt, k).
       Ok (ms\<lparr>page_table := pt\<rparr>, k))))"

record LinkerSymbols =
  stext :: usize
  etext :: usize
  srodata :: usize
  erodata :: usize
  sdata :: usize
  edata :: usize
  sbss_with_stack :: usize
  ebss :: usize
  ekernel :: usize
  strampoline :: usize

definition push_identical :: "usize \<Rightarrow> usize \<Rightarrow> MapPermission \<Rightarrow> MemorySet \<times> mm \<Rightarrow> (MemorySet \<times> mm) res" where
  "push_identical start end perm s =
     bindr (area_new (VirtAddr start) (VirtAddr end) Identical perm) (\<lambda>area.
     bindr (ms_push area None (fst s) (snd s)) (\<lambda>(_, ms, k). Ok (ms, k)))"

definition new_kernel :: "LinkerSymbols \<Rightarrow> mm \<Rightarrow> (MemorySet \<times> mm) res" where
  "new_kernel L k =
     bindr (new_bare k) (\<lambda>(ms, k).
     bindr (map_trampoline (strampoline L) ms k) (\<lambda>s.
     bindr (push_identical (stext L) (etext L) (MP_R OR MP_X) s) (\<lambda>s.
     bindr (push_identical (srodata L) (erodata L) MP_R s) (\<lambda>s.
     bindr (push_identical (sdata L) (edata L) (MP_R OR MP_W) s) (\<lambda>s.
     bindr (push_identical (sbss_with_stack L) (ebss L) (MP_R OR MP_W) s) (\<lambda>s.
     bindr (push_identical (ekernel L) MEMORY_END (MP_R OR MP_W) s) (\<lambda>s.
       for_each (\<lambda>pair. push_identical (fst pair) (fst pair + snd pair) (MP_R OR MP_W)) MMIO s)))))))"

section \<open>Programs\<close>

text \<open>What \<open>from_elf\<close> reads of the parsed file. The parser (\<open>xmas_elf\<close>) is a parameter: it answers
  \<open>None\<close> where the source's \<open>unwrap\<close> would panic.\<close>

datatype SegmentType = Load | OtherSegment

record ProgramHeader =
  ph_type :: "SegmentType option"
  virtual_addr :: u64
  mem_size :: u64
  ph_offset :: u64
  file_size :: u64
  is_read :: bool
  is_write :: bool
  is_execute :: bool

record ElfFile =
  elf_magic :: "u8 list"
  program_headers :: "ProgramHeader option list"
  entry_point :: u64

definition slice :: "'a list \<Rightarrow> usize \<Rightarrow> usize \<Rightarrow> 'a list res" where
  "slice xs a b =
     (if a \<le> b \<and> unat b \<le> length xs then Ok (take (unat b - unat a) (drop (unat a) xs))
      else Panic IndexOutOfBounds)"

definition segment_perm :: "ProgramHeader \<Rightarrow> MapPermission" where
  "segment_perm ph =
     MP_U OR (if is_read ph then MP_R else 0) OR (if is_write ph then MP_W else 0)
          OR (if is_execute ph then MP_X else 0)"

definition load_segment ::
  "u8 list \<Rightarrow> ProgramHeader option \<Rightarrow> VirtPageNum \<times> MemorySet \<times> mm \<Rightarrow> (VirtPageNum \<times> MemorySet \<times> mm) res" where
  "load_segment input ph0 s =
     (case s of (max_end_vpn, ms, k) \<Rightarrow>
      bindr (unwrap ph0) (\<lambda>ph.
      bindr (unwrap (ph_type ph)) (\<lambda>ty.
        if ty = Load then
          bindr (area_new (VirtAddr (virtual_addr ph)) (VirtAddr (virtual_addr ph + mem_size ph))
                          Framed (segment_perm ph)) (\<lambda>map_area.
          bindr (slice input (ph_offset ph) (ph_offset ph + file_size ph)) (\<lambda>data.
          bindr (ms_push map_area (Some data) ms k) (\<lambda>(_, ms, k).
            Ok (range_r (vpn_range map_area), ms, k))))
        else Ok s)))"

definition from_elf ::
  "(u8 list \<Rightarrow> ElfFile option) \<Rightarrow> usize \<Rightarrow> u8 list \<Rightarrow> mm \<Rightarrow> (MemorySet \<times> usize \<times> usize \<times> mm) res" where
  "from_elf parse_elf tramp elf_data k =
     bindr (new_bare k) (\<lambda>(ms, k).
     bindr (map_trampoline tramp ms k) (\<lambda>(ms, k).
     bindr (unwrap (parse_elf elf_data)) (\<lambda>elf.
     bindr (assertr (elf_magic elf = [0x7f, 0x45, 0x4c, 0x46])) (\<lambda>_.
     bindr (for_each (load_segment elf_data) (program_headers elf) (VirtPageNum 0, ms, k))
       (\<lambda>(max_end_vpn, ms, k).
     let user_stack_bottom = va_val (va_from_vpn max_end_vpn) + PAGE_SIZE;
         user_stack_top = user_stack_bottom + USER_STACK_SIZE in
     bindr (insert_framed_area (VirtAddr user_stack_bottom) (VirtAddr user_stack_top)
              (MP_R OR MP_W OR MP_U) ms k) (\<lambda>(_, ms, k).
     bindr (insert_framed_area (VirtAddr TRAP_CONTEXT) (VirtAddr TRAMPOLINE)
              (MP_R OR MP_W) ms k) (\<lambda>(_, ms, k).
       Ok (ms, user_stack_top, entry_point elf, k))))))))"

definition ms_translate :: "MemorySet \<Rightarrow> VirtPageNum \<Rightarrow> phys_mem \<Rightarrow> PageTableEntry option" where
  "ms_translate ms vpn m = translate (page_table ms) vpn m"

text \<open>The body of the inner loop of \<open>from_existed_user\<close>; both slices are 4096 bytes long.\<close>

definition copy_page :: "MemorySet \<Rightarrow> MemorySet \<Rightarrow> VirtPageNum \<Rightarrow> phys_mem \<Rightarrow> phys_mem res" where
  "copy_page user_space memory_set vpn m =
     bindr (unwrap (ms_translate user_space vpn m)) (\<lambda>src.
     bindr (unwrap (ms_translate memory_set vpn m)) (\<lambda>dst.
       Ok (set_bytes_array m (pte_ppn dst) (get_bytes_array m (pte_ppn src)))))"

definition copy_area :: "MemorySet \<Rightarrow> MapArea \<Rightarrow> MemorySet \<times> mm \<Rightarrow> (MemorySet \<times> mm) res" where
  "copy_area user_space area s =
     bindr (from_another area) (\<lambda>new_area.
     bindr (ms_push new_area None (fst s) (snd s)) (\<lambda>(_, ms, k).
     bindr (for_each (copy_page user_space ms) (range_list (vpn_range area)) (mem k)) (\<lambda>m.
       Ok (ms, k\<lparr>mem := m\<rparr>))))"

definition from_existed_user :: "usize \<Rightarrow> MemorySet \<Rightarrow> mm \<Rightarrow> (MemorySet \<times> mm) res" where
  "from_existed_user tramp user_space k =
     bindr (new_bare k) (\<lambda>(ms, k).
     bindr (map_trampoline tramp ms k) (\<lambda>s.
       for_each (copy_area user_space) (areas user_space) s))"

definition recycle_data_pages :: "MemorySet \<Rightarrow> mm \<Rightarrow> (MemorySet \<times> mm) res" where
  "recycle_data_pages ms k =
     bindr (for_each drop_area (areas ms) k) (\<lambda>k. Ok (ms\<lparr>areas := []\<rparr>, k))"

text \<open>Dropping a whole address space: its fields in order, the table's frames and then the areas.\<close>

definition drop_memory_set :: "MemorySet \<Rightarrow> mm \<Rightarrow> mm res" where
  "drop_memory_set ms k =
     bindr (for_each drop_tracker (frames (page_table ms)) k) (\<lambda>k. for_each drop_area (areas ms) k)"

end
