(* ===== verification/PageTableRefine.thy ===== *)
theory PageTableRefine
  imports PageTable
begin

text \<open>
  The page table of \<open>PageTable\<close> as a finite map. The abstraction \<open>pt_lookup\<close> reads off the valid
  leaf entry of a page number. The invariant places every frame of a table at one path of indexes
  from the root, so that the table is a tree and a write to one entry is seen by one page number
  only.
\<close>

abbreviation pte_at :: "phys_mem \<Rightarrow> PhysPageNum \<Rightarrow> usize \<Rightarrow> PageTableEntry" where
  "pte_at m p i \<equiv> pte_read m (pte_slot p i)"

abbreviation table_frames :: "PageTable \<Rightarrow> PhysPageNum set" where
  "table_frames pt \<equiv> ft_ppn ` set (frames pt)"

text \<open>The valid entry at the end of a path of indexes.\<close>

fun lookup_path :: "phys_mem \<Rightarrow> PhysPageNum \<Rightarrow> usize list \<Rightarrow> PageTableEntry option" where
  "lookup_path m p [] = None"
| "lookup_path m p (i # is) =
     (let e = pte_at m p i in
      if \<not> pte_is_valid e then None else if is = [] then Some e else lookup_path m (pte_ppn e) is)"

definition pt_lookup :: "phys_mem \<Rightarrow> PageTable \<Rightarrow> VirtPageNum \<Rightarrow> PageTableEntry option" where
  "pt_lookup m pt vpn = lookup_path m (root_ppn pt) (indexes vpn)"

text \<open>\<open>\<pi>\<close> gives each frame of a table its path from the root; only frames at depth 0 and 1 hold
  pointers to further frames of the table.\<close>

definition placed :: "(PhysPageNum \<Rightarrow> usize list) \<Rightarrow> phys_mem \<Rightarrow> PhysPageNum set \<Rightarrow> bool" where
  "placed \<pi> m F \<longleftrightarrow> (\<forall>p \<in> F. frame_ok p) \<and>
     (\<forall>p \<in> F. length (\<pi> p) < 2 \<longrightarrow> (\<forall>i. unat i < 512 \<longrightarrow> pte_is_valid (pte_at m p i) \<longrightarrow>
        pte_ppn (pte_at m p i) \<in> F \<and> \<pi> (pte_ppn (pte_at m p i)) = \<pi> p @ [i]))"

definition pt_inv :: "mm \<Rightarrow> PageTable \<Rightarrow> bool" where
  "pt_inv k pt \<longleftrightarrow> mm_inv k \<and> table_frames pt \<subseteq> live k \<and> distinct (frames pt) \<and>
     root_ppn pt \<in> table_frames pt \<and>
     (\<exists>\<pi>. \<pi> (root_ppn pt) = [] \<and> placed \<pi> (mem k) (table_frames pt))"

section \<open>Entries of other frames\<close>

lemma pte_at_write_same [simp]: "pte_at (mem (pte_write (pte_slot p i) e k)) p i = e"
  by (simp add: pte_read_def pte_write_def)

lemma pte_at_write_other:
  assumes "frame_ok p" "unat i < 512" "frame_ok q" "unat j < 512" "(p, i) \<noteq> (q, j)"
  shows "pte_at (mem (pte_write (pte_slot p i) e k)) q j = pte_at (mem k) q j"
  using read_slot_other [OF assms] by (simp add: pte_read_def pte_write_def)

lemma pte_write_other_frame:
  "frame_ok p \<Longrightarrow> unat i < 512 \<Longrightarrow> frame_of x \<noteq> p \<Longrightarrow> mem (pte_write (pte_slot p i) e k) x = mem k x"
  by (simp add: pte_write_def write_slot_other_frame)

lemma pte_write_allocator [simp]: "FRAME_ALLOCATOR (pte_write a e k) = FRAME_ALLOCATOR k"
  by (simp add: pte_write_def)

lemma mm_inv_pte_write [simp]: "mm_inv (pte_write a e k) = mm_inv k"
  by (simp add: mm_inv_def)

lemma pte_at_cong:
  assumes "frame_ok p" "unat i < 512" "\<And>x. frame_of x = p \<Longrightarrow> m x = m' x"
  shows "pte_at m p i = pte_at m' p i"
  using read_slot_cong [OF assms] by (simp add: pte_read_def)

lemma read_u64_zero: "(\<And>k. k < 8 \<Longrightarrow> m (a + of_nat k) = 0) \<Longrightarrow> read_u64 m a = 0"
  unfolding read_u64_def by (rule bit_word_eqI) (simp add: bit_le_word)

lemma pte_at_zero_frame:
  assumes "frame_ok p" "unat i < 512" "\<And>x. frame_of x = p \<Longrightarrow> m x = 0"
  shows "pte_at m p i = PageTableEntry 0"
proof -
  have "read_u64 m (pa_val (pte_slot p i)) = 0"
    by (rule read_u64_zero) (use assms frame_of_slot_byte in blast)
  then show ?thesis by (simp add: pte_read_def)
qed

section \<open>One level of the walk\<close>

text \<open>A new table frame \<open>ft_ppn t\<close> is hung below the empty entry \<open>i\<close> of the frame \<open>p\<close> of a table with
  frames \<open>F\<close>: what the code's loop knows at that point.\<close>

definition hang ::
  "mm \<Rightarrow> FrameTracker \<Rightarrow> mm \<Rightarrow> PhysPageNum \<Rightarrow> usize \<Rightarrow> PhysPageNum set \<Rightarrow> (PhysPageNum \<Rightarrow> usize list) \<Rightarrow> mm \<Rightarrow> bool" where
  "hang k t k1 p i F \<pi> k2 \<longleftrightarrow> mm_inv k \<and> F \<subseteq> live k \<and> placed \<pi> (mem k) F \<and> p \<in> F \<and> length (\<pi> p) < 2 \<and>
     unat i < 512 \<and> \<not> pte_is_valid (pte_at (mem k) p i) \<and> frame_alloc k = (Some t, k1) \<and>
     k2 = pte_write (pte_slot p i) (pte_new (ft_ppn t) PTE_V) k1"

lemma hang_facts:
  assumes "hang k t k1 p i F \<pi> k2"
  shows "mm_inv k2" and "live k2 = insert (ft_ppn t) (live k)" and "ft_ppn t \<notin> F"
    and "frame_ok (ft_ppn t)" and "\<And>q. q \<in> F \<Longrightarrow> frame_ok q" and "ft_ppn t \<notin> live k"
  using assms frame_alloc_Some [of k t k1] by (auto simp: hang_def placed_def)

lemma hang_entry: "hang k t k1 p i F \<pi> k2 \<Longrightarrow> pte_at (mem k2) p i = pte_new (ft_ppn t) PTE_V"
  by (simp add: hang_def)

lemma hang_memory:
  assumes "hang k t k1 p i F \<pi> k2" and "frame_of x \<noteq> p"
  shows "mem k2 x = (if frame_of x = ft_ppn t then 0 else mem k x)"
proof -
  have "mem k2 x = mem k1 x"
    using assms hang_facts(5) [OF assms(1), of p] by (simp add: hang_def pte_write_other_frame)
  then show ?thesis
    using assms(1) frame_alloc_Some [of k t k1] by (simp add: hang_def)
qed

lemma hang_other_entry:
  assumes h: "hang k t k1 p i F \<pi> k2" and "q \<in> F" "unat j < 512" "(p, i) \<noteq> (q, j)"
  shows "pte_at (mem k2) q j = pte_at (mem k) q j"
proof -
  have "pte_at (mem k2) q j = pte_at (mem k1) q j"
    using assms hang_facts(5) [OF h] pte_at_write_other [of p i q j] by (auto simp: hang_def)
  also have "\<dots> = pte_at (mem k) q j"
  proof (rule pte_at_cong)
    fix x assume "frame_of x = q"
    then have "frame_of x \<noteq> ft_ppn t" using hang_facts(3) [OF h] assms(2) by auto
    then show "mem k1 x = mem k x" using h frame_alloc_Some [of k t k1] by (simp add: hang_def)
  qed (use assms hang_facts(5) [OF h] in auto)
  finally show ?thesis .
qed

lemma hang_new_entry:
  assumes h: "hang k t k1 p i F \<pi> k2" and "unat j < 512"
  shows "pte_at (mem k2) (ft_ppn t) j = PageTableEntry 0"
proof (rule pte_at_zero_frame)
  fix x assume x: "frame_of x = ft_ppn t"
  then have "frame_of x \<noteq> p" using hang_facts(3) [OF h] h by (auto simp: hang_def)
  then show "mem k2 x = 0" using hang_memory [OF h] x by simp
qed (use assms hang_facts [OF h] in auto)

lemma hang_placed:
  assumes h: "hang k t k1 p i F \<pi> k2"
  shows "placed (\<pi>(ft_ppn t := \<pi> p @ [i])) (mem k2) (insert (ft_ppn t) F)"
  unfolding placed_def
proof (intro conjI ballI impI)
  fix q assume "q \<in> insert (ft_ppn t) F"
  then show "frame_ok q" using hang_facts [OF h] by blast
next
  fix q
  let ?\<pi> = "\<pi>(ft_ppn t := \<pi> p @ [i])"
  assume q: "q \<in> insert (ft_ppn t) F" and d: "length (?\<pi> q) < 2"
  have "pte_ppn (pte_at (mem k2) q j) \<in> insert (ft_ppn t) F \<and>
      ?\<pi> (pte_ppn (pte_at (mem k2) q j)) = ?\<pi> q @ [j]"
    if j: "unat j < 512" and v: "pte_is_valid (pte_at (mem k2) q j)" for j
  proof -
    have nf: "q \<noteq> ft_ppn t" using v hang_new_entry [OF h j] by auto
    with q d have qF: "q \<in> F" "length (\<pi> q) < 2" by auto
    show ?thesis
    proof (cases "(p, i) = (q, j)")
      case True
      then show ?thesis
        using nf hang_entry [OF h] hang_facts(4) [OF h] by (auto simp: pte_new_ppn)
    next
      case False
      then have e: "pte_at (mem k2) q j = pte_at (mem k) q j"
        using hang_other_entry [OF h] qF(1) j by blast
      with v qF j h have "pte_ppn (pte_at (mem k) q j) \<in> F \<and> \<pi> (pte_ppn (pte_at (mem k) q j)) = \<pi> q @ [j]"
        by (auto simp: hang_def placed_def)
      then show ?thesis using hang_facts(3) [OF h] nf by (auto simp: e)
    qed
  qed
  then show "\<forall>j. unat j < 512 \<longrightarrow> pte_is_valid (pte_at (mem k2) q j) \<longrightarrow>
      pte_ppn (pte_at (mem k2) q j) \<in> insert (ft_ppn t) F \<and> ?\<pi> (pte_ppn (pte_at (mem k2) q j)) = ?\<pi> q @ [j]"
    by blast
qed

text \<open>No page number sees the new frame, whose entries are all empty: every look-up is as before.\<close>

lemma hang_lookup_new:
  assumes "hang k t k1 p i F \<pi> k2" and "\<forall>j \<in> set is. unat j < 512"
  shows "lookup_path (mem k2) (ft_ppn t) is = None"
  using assms by (cases "is") (auto simp: hang_new_entry)

lemma hang_lookup:
  assumes h: "hang k t k1 p i F \<pi> k2"
    and "q \<in> F" "length (\<pi> q) + length is = 3" "\<forall>j \<in> set is. unat j < 512"
  shows "lookup_path (mem k2) q is = lookup_path (mem k) q is"
  using assms(2-)
proof (induction "is" arbitrary: q)
  case Nil
  then show ?case by simp
next
  case (Cons j "is")
  then have j: "unat j < 512" by simp
  show ?case
  proof (cases "(p, i) = (q, j)")
    case True
    with Cons.prems h have "is \<noteq> []" by (auto simp: hang_def)
    then have "lookup_path (mem k2) q (j # is) = lookup_path (mem k2) (ft_ppn t) is"
      using True hang_entry [OF h] hang_facts(4) [OF h] by (auto simp: Let_def pte_new_ppn)
    also have "\<dots> = None" using hang_lookup_new [OF h] Cons.prems by simp
    also have "\<dots> = lookup_path (mem k) q (j # is)" using True h by (simp add: hang_def)
    finally show ?thesis .
  next
    case False
    then have e: "pte_at (mem k2) q j = pte_at (mem k) q j"
      using Cons.prems(1) j by (intro hang_other_entry [OF h])
    show ?thesis
    proof (cases "is = [] \<or> \<not> pte_is_valid (pte_at (mem k) q j)")
      case True
      then show ?thesis by (auto simp: e Let_def)
    next
      case False
      then have "length (\<pi> q) < 2" using Cons.prems(2) by (cases "is") auto
      then have "pte_ppn (pte_at (mem k) q j) \<in> F" "\<pi> (pte_ppn (pte_at (mem k) q j)) = \<pi> q @ [j]"
        using False Cons.prems(1) j h by (auto simp: hang_def placed_def)
      then have "lookup_path (mem k2) (pte_ppn (pte_at (mem k) q j)) is =
          lookup_path (mem k) (pte_ppn (pte_at (mem k) q j)) is"
        using Cons.prems by (intro Cons.IH) auto
      then show ?thesis using False by (simp add: e Let_def)
    qed
  qed
qed

section \<open>The walk that creates missing tables\<close>

definition tbl :: "(PhysPageNum \<Rightarrow> usize list) \<Rightarrow> mm \<Rightarrow> PageTable \<Rightarrow> bool" where
  "tbl \<pi> k pt \<longleftrightarrow> mm_inv k \<and> table_frames pt \<subseteq> live k \<and> distinct (frames pt) \<and>
     root_ppn pt \<in> table_frames pt \<and> \<pi> (root_ppn pt) = [] \<and> placed \<pi> (mem k) (table_frames pt)"

lemma pt_inv_tbl: "pt_inv k pt \<longleftrightarrow> (\<exists>\<pi>. tbl \<pi> k pt)"
  by (auto simp: pt_inv_def tbl_def)

text \<open>A table may gain frames that were free; what it maps, and memory outside it, stay.\<close>

definition grows :: "mm \<Rightarrow> PageTable \<Rightarrow> mm \<Rightarrow> PageTable \<Rightarrow> bool" where
  "grows k pt k' pt' \<longleftrightarrow> root_ppn pt' = root_ppn pt \<and> table_frames pt \<subseteq> table_frames pt' \<and>
     live k' = live k \<union> table_frames pt' \<and> (table_frames pt' - table_frames pt) \<inter> live k = {} \<and>
     (\<forall>v. pt_lookup (mem k') pt' v = pt_lookup (mem k) pt v) \<and>
     (\<forall>x. frame_of x \<notin> table_frames pt' \<longrightarrow> mem k' x = mem k x)"

lemma grows_refl: "table_frames pt \<subseteq> live k \<Longrightarrow> grows k pt k pt"
  by (auto simp: grows_def)

lemma grows_trans:
  assumes "grows k pt k' pt'" and "grows k' pt' k'' pt''"
  shows "grows k pt k'' pt''"
proof -
  define F F' F'' where "F = table_frames pt" and "F' = table_frames pt'" and "F'' = table_frames pt''"
  note defs = F_def [symmetric] F'_def [symmetric] F''_def [symmetric]
  have "mem k'' x = mem k x" if "frame_of x \<notin> F''" for x
    using assms that unfolding grows_def defs by (metis subsetD)
  moreover have "F \<subseteq> F''" "live k'' = live k \<union> F''" "(F'' - F) \<inter> live k = {}"
    using assms unfolding grows_def defs by blast+
  ultimately show ?thesis using assms unfolding grows_def defs by simp
qed

lemma hang_grows:
  assumes h: "hang k t k1 p i (table_frames pt) \<pi> k2" and T: "tbl \<pi> k pt"
  defines "pt' \<equiv> pt\<lparr>frames := frames pt @ [t]\<rparr>"
  shows "tbl (\<pi>(ft_ppn t := \<pi> p @ [i])) k2 pt'" and "grows k pt k2 pt'"
proof -
  let ?F = "table_frames pt"
  have F': "table_frames pt' = insert (ft_ppn t) ?F" by (simp add: pt'_def)
  have root: "root_ppn pt \<in> ?F" "\<pi> (root_ppn pt) = []" using T by (auto simp: tbl_def)
  have "t \<notin> set (frames pt)" using hang_facts(3) [OF h] by auto
  then show "tbl (\<pi>(ft_ppn t := \<pi> p @ [i])) k2 pt'"
    using T root hang_facts [OF h] hang_placed [OF h] unfolding tbl_def F'
    by (auto simp: pt'_def)
  have "pt_lookup (mem k2) pt' v = pt_lookup (mem k) pt v" for v
    using hang_lookup [OF h root(1)] root(2) index_less_512 [of _ v] by (simp add: pt_lookup_def pt'_def)
  moreover have "mem k2 x = mem k x" if "frame_of x \<notin> insert (ft_ppn t) ?F" for x
    using hang_memory [OF h, of x] that h by (auto simp: hang_def)
  ultimately show "grows k pt k2 pt'"
    using T hang_facts [OF h] unfolding grows_def F' by (auto simp: tbl_def pt'_def)
qed

lemma create_loop_step:
  assumes T: "tbl \<pi> k pt" and p: "p \<in> table_frames pt" "length (\<pi> p) < 2" and i: "unat i < 512" "n \<noteq> 2"
    and run: "find_pte_create_loop ((n, i) # rest) p pt k = Ok r"
  obtains \<pi>' k' pt' c where "tbl \<pi>' k' pt'" and "grows k pt k' pt'" and "c \<in> table_frames pt'"
    and "\<pi>' c = \<pi> p @ [i]" and "find_pte_create_loop rest c pt' k' = Ok r"
    and "\<forall>q \<in> table_frames pt. \<forall>j. unat j < 512 \<longrightarrow> pte_is_valid (pte_at (mem k) q j) \<longrightarrow>
           pte_at (mem k') q j = pte_at (mem k) q j"
    and "pte_is_valid (pte_at (mem k') p i)" and "pte_ppn (pte_at (mem k') p i) = c"
proof (cases "pte_is_valid (pte_at (mem k) p i)")
  case True
  then have "pte_ppn (pte_at (mem k) p i) \<in> table_frames pt" "\<pi> (pte_ppn (pte_at (mem k) p i)) = \<pi> p @ [i]"
    using T p i(1) by (auto simp: tbl_def placed_def)
  moreover have "grows k pt k pt" using T by (auto simp: tbl_def intro: grows_refl)
  ultimately show ?thesis
    using that [of \<pi> k pt "pte_ppn (pte_at (mem k) p i)"] T True run i(2) by (simp add: Let_def)
next
  case False
  with run i(2) obtain t k1 where a: "frame_alloc k = (Some t, k1)" and
    run': "find_pte_create_loop rest (pte_ppn (pte_at (mem (pte_write (pte_slot p i) (pte_new (ft_ppn t) PTE_V) k1)) p i))
        (pt\<lparr>frames := frames pt @ [t]\<rparr>) (pte_write (pte_slot p i) (pte_new (ft_ppn t) PTE_V) k1) = Ok r"
    by (auto simp: Let_def frame_alloc_unwrap_Ok)
  define k2 where "k2 = pte_write (pte_slot p i) (pte_new (ft_ppn t) PTE_V) k1"
  have h: "hang k t k1 p i (table_frames pt) \<pi> k2"
    using T p i(1) False a by (simp add: hang_def tbl_def k2_def)
  let ?pt = "pt\<lparr>frames := frames pt @ [t]\<rparr>" and ?\<pi> = "\<pi>(ft_ppn t := \<pi> p @ [i])"
  have c: "pte_ppn (pte_at (mem k2) p i) = ft_ppn t"
    using hang_entry [OF h] hang_facts(4) [OF h] by (simp add: pte_new_ppn)
  have "\<forall>q \<in> table_frames pt. \<forall>j. unat j < 512 \<longrightarrow> pte_is_valid (pte_at (mem k) q j) \<longrightarrow>
      pte_at (mem k2) q j = pte_at (mem k) q j"
    using hang_other_entry [OF h] False by (metis prod.inject)
  then show ?thesis
    using that [OF hang_grows [OF h T], of "ft_ppn t"] run' c hang_entry [OF h] by (simp add: k2_def)
qed

text \<open>Following valid entries along a path of indexes leads to a frame.\<close>

fun leads :: "phys_mem \<Rightarrow> PhysPageNum \<Rightarrow> usize list \<Rightarrow> PhysPageNum \<Rightarrow> bool" where
  "leads m p [] c \<longleftrightarrow> p = c"
| "leads m p (i # is) c \<longleftrightarrow> pte_is_valid (pte_at m p i) \<and> leads m (pte_ppn (pte_at m p i)) is c"

lemma leads_lookup: "leads m p is c \<Longrightarrow> is' \<noteq> [] \<Longrightarrow> lookup_path m p (is @ is') = lookup_path m c is'"
  by (induction "is" arbitrary: p) (auto simp: Let_def)

text \<open>The whole walk: it returns the slot of the leaf entry, in the frame the upper indexes lead to.\<close>

lemma find_pte_create_Ok:
  assumes T: "tbl \<pi> k pt" and run: "find_pte_create pt v k = Ok (r, pt', k')"
  obtains \<pi>' c where "tbl \<pi>' k' pt'" and "grows k pt k' pt'" and "c \<in> table_frames pt'"
    and "\<pi>' c = butlast (indexes v)" and "r = Some (pte_slot c (last (indexes v)))"
    and "leads (mem k') (root_ppn pt') (butlast (indexes v)) c"
proof -
  obtain a b l where idx: "indexes v = [a, b, l]" by (simp add: indexes_eq)
  have lt: "unat a < 512" "unat b < 512" "unat l < 512" using index_less_512 [of _ v] by (auto simp: idx)
  have root: "root_ppn pt \<in> table_frames pt" "\<pi> (root_ppn pt) = []" using T by (auto simp: tbl_def)
  have "find_pte_create_loop ((0, a) # [(1, b), (2, l)]) (root_ppn pt) pt k = Ok (r, pt', k')"
    using run by (simp add: find_pte_create_def idx numeral_2_eq_2)
  from create_loop_step [OF T root(1) _ lt(1) _ this] root(2) obtain \<pi>1 k1 pt1 c1 where
    s1: "tbl \<pi>1 k1 pt1" "grows k pt k1 pt1" "c1 \<in> table_frames pt1" "\<pi>1 c1 = [a]"
      "find_pte_create_loop [(1, b), (2, l)] c1 pt1 k1 = Ok (r, pt', k')"
      "pte_is_valid (pte_at (mem k1) (root_ppn pt) a)" "pte_ppn (pte_at (mem k1) (root_ppn pt) a) = c1"
    by (metis append_Nil length_0_conv less_2_cases_iff zero_neq_numeral)
  from create_loop_step [OF s1(1,3) _ lt(2) _ s1(5)] s1(4) obtain \<pi>2 k2 pt2 c2 where
    s2: "tbl \<pi>2 k2 pt2" "grows k1 pt1 k2 pt2" "c2 \<in> table_frames pt2" "\<pi>2 c2 = [a, b]"
      "find_pte_create_loop [(2, l)] c2 pt2 k2 = Ok (r, pt', k')"
      "\<forall>q \<in> table_frames pt1. \<forall>j. unat j < 512 \<longrightarrow> pte_is_valid (pte_at (mem k1) q j) \<longrightarrow>
           pte_at (mem k2) q j = pte_at (mem k1) q j"
      "pte_is_valid (pte_at (mem k2) c1 b)" "pte_ppn (pte_at (mem k2) c1 b) = c2"
    by (auto simp: numeral_2_eq_2)
  have fin: "pt' = pt2" "k' = k2" "r = Some (pte_slot c2 l)" using s2(5) by (auto simp: Let_def)
  have rt: "root_ppn pt2 = root_ppn pt" "root_ppn pt \<in> table_frames pt1"
    using s1(2) s2(2) root(1) by (auto simp: grows_def)
  then have "pte_at (mem k2) (root_ppn pt) a = pte_at (mem k1) (root_ppn pt) a"
    using s2(6) s1(6) lt(1) by blast
  then have "leads (mem k2) (root_ppn pt2) [a, b] c2"
    using s1(6,7) s2(7,8) rt by simp
  then show ?thesis
    using that [of \<pi>2 c2] s2(1,3,4) grows_trans [OF s1(2) s2(2)] fin by (simp add: idx)
qed

section \<open>Writing a leaf entry\<close>

lemma placed_leaf_write:
  assumes "placed \<pi> (mem k) F" and "c \<in> F" "length (\<pi> c) = 2" and "unat l < 512"
  shows "placed \<pi> (mem (pte_write (pte_slot c l) e k)) F"
proof -
  have "pte_at (mem (pte_write (pte_slot c l) e k)) q j = pte_at (mem k) q j"
    if "q \<in> F" "length (\<pi> q) < 2" "unat j < 512" for q j
    using assms that by (intro pte_at_write_other) (auto simp: placed_def)
  with assms(1) show ?thesis by (auto simp: placed_def)
qed

lemma lookup_leaf_write_other:
  assumes "placed \<pi> (mem k) F" and c: "c \<in> F" "length (\<pi> c) = 2" "unat l < 512"
    and "q \<in> F" "length (\<pi> q) + length is = 3" "\<forall>j \<in> set is. unat j < 512" "\<pi> q @ is \<noteq> \<pi> c @ [l]"
  shows "lookup_path (mem (pte_write (pte_slot c l) e k)) q is = lookup_path (mem k) q is"
  using assms(5-)
proof (induction "is" arbitrary: q)
  case Nil
  then show ?case by simp
next
  case (Cons j "is")
  have "(c, l) \<noteq> (q, j)" using Cons.prems(2,4) c(2) by auto
  then have e: "pte_at (mem (pte_write (pte_slot c l) e k)) q j = pte_at (mem k) q j"
    using assms(1) c Cons.prems(1,3) by (intro pte_at_write_other) (auto simp: placed_def)
  show ?case
  proof (cases "is = [] \<or> \<not> pte_is_valid (pte_at (mem k) q j)")
    case True
    then show ?thesis by (auto simp: e Let_def)
  next
    case False
    then have "length (\<pi> q) < 2" using Cons.prems(2) by (cases "is") auto
    then have "pte_ppn (pte_at (mem k) q j) \<in> F" "\<pi> (pte_ppn (pte_at (mem k) q j)) = \<pi> q @ [j]"
      using False Cons.prems(1,3) assms(1) by (auto simp: placed_def)
    then have "lookup_path (mem (pte_write (pte_slot c l) e k)) (pte_ppn (pte_at (mem k) q j)) is =
        lookup_path (mem k) (pte_ppn (pte_at (mem k) q j)) is"
      using Cons.prems by (intro Cons.IH) auto
    then show ?thesis using False by (simp add: e Let_def)
  qed
qed

lemma leads_leaf_write:
  assumes "placed \<pi> (mem k) F" and c: "c \<in> F" "length (\<pi> c) = 2" "unat l < 512"
    and "q \<in> F" "length (\<pi> q) + length is = 2" "\<forall>j \<in> set is. unat j < 512" "leads (mem k) q is d"
  shows "leads (mem (pte_write (pte_slot c l) e k)) q is d"
  using assms(5-)
proof (induction "is" arbitrary: q)
  case Nil
  then show ?case by simp
next
  case (Cons j "is")
  then have "q \<noteq> c" using c(2) by auto
  then have e: "pte_at (mem (pte_write (pte_slot c l) e k)) q j = pte_at (mem k) q j"
    using assms(1) c Cons.prems(1,3) by (intro pte_at_write_other) (auto simp: placed_def)
  have "pte_ppn (pte_at (mem k) q j) \<in> F" "\<pi> (pte_ppn (pte_at (mem k) q j)) = \<pi> q @ [j]"
    using Cons.prems assms(1) by (auto simp: placed_def)
  with Cons show ?case by (simp add: e)
qed

text \<open>Writing the leaf entry of a page number updates the map at that page number only.\<close>

lemma leaf_write:
  assumes T: "tbl \<pi> k pt" and c: "c \<in> table_frames pt" "\<pi> c = butlast (indexes v)"
    and "leads (mem k) (root_ppn pt) (butlast (indexes v)) c"
    and k'_def: "k' = pte_write (pte_slot c (last (indexes v))) e k"
  shows "tbl \<pi> k' pt"
    and "pt_lookup (mem k') pt u =
           (if indexes u = indexes v then (if pte_is_valid e then Some e else None)
            else pt_lookup (mem k) pt u)"
    and "frame_of x \<notin> table_frames pt \<Longrightarrow> mem k' x = mem k x"
proof -
  obtain a b l where idx: "indexes v = [a, b, l]" by (simp add: indexes_eq)
  have lt: "unat a < 512" "unat b < 512" "unat l < 512" using index_less_512 [of _ v] by (auto simp: idx)
  have pl: "placed \<pi> (mem k) (table_frames pt)" and root: "root_ppn pt \<in> table_frames pt" "\<pi> (root_ppn pt) = []"
    using T by (auto simp: tbl_def)
  have d: "length (\<pi> c) = 2" using c(2) by (simp add: idx)
  show "tbl \<pi> k' pt"
    using T placed_leaf_write [OF pl c(1) d lt(3)] by (simp add: tbl_def k'_def idx)
  show "frame_of x \<notin> table_frames pt \<Longrightarrow> mem k' x = mem k x"
    using c(1) pl lt(3) by (auto simp: k'_def idx placed_def intro!: pte_write_other_frame)
  have "leads (mem k') (root_ppn pt) [a, b] c"
    using leads_leaf_write [OF pl c(1) d lt(3) root(1), of "[a, b]" c e] assms(4) root(2) lt
    by (simp add: k'_def idx del: leads.simps)
  from leads_lookup [OF this, of "[l]"]
  have "pt_lookup (mem k') pt v = (if pte_is_valid e then Some e else None)"
    by (simp add: pt_lookup_def idx k'_def Let_def)
  moreover have "pt_lookup (mem k') pt u = pt_lookup (mem k) pt u" if "indexes u \<noteq> indexes v"
    using lookup_leaf_write_other [OF pl c(1) d lt(3) root(1), of "indexes u"] that root(2) c(2)
      index_less_512 [of _ u] by (simp add: pt_lookup_def k'_def idx)
  ultimately show "pt_lookup (mem k') pt u =
           (if indexes u = indexes v then (if pte_is_valid e then Some e else None)
            else pt_lookup (mem k) pt u)" by (simp add: pt_lookup_def)
qed

section \<open>Enough frames\<close>

definition free_frames :: "mm \<Rightarrow> nat" where
  "free_frames k = length (fa_recycled (FRAME_ALLOCATOR k)) +
     (unat (fa_end (FRAME_ALLOCATOR k)) - unat (fa_current (FRAME_ALLOCATOR k)))"

lemma frame_alloc_enough:
  assumes "mm_inv k" and "0 < free_frames k"
  shows "\<exists>t k'. frame_alloc k = (Some t, k') \<and> free_frames k' = free_frames k - 1"
proof (cases "fa_recycled (FRAME_ALLOCATOR k) = []")
  case True
  with assms have lt: "fa_current (FRAME_ALLOCATOR k) < fa_end (FRAME_ALLOCATOR k)"
    by (simp add: free_frames_def word_less_nat_alt)
  then show ?thesis
    using True by (auto simp: frame_alloc_def fa_alloc_def tracker_new_def free_frames_def unat_plus_one)
next
  case False
  then show ?thesis
    by (cases "fa_recycled (FRAME_ALLOCATOR k)" rule: rev_cases)
      (auto simp: frame_alloc_def fa_alloc_def tracker_new_def free_frames_def)
qed

lemma create_loop_total:
  assumes "mm_inv k" and "idxs \<noteq> []" "n + length idxs = 3" and "length idxs - 1 \<le> free_frames k"
  shows "\<exists>slot pt' k'. find_pte_create_loop (enumerate n idxs) p pt k = Ok (Some slot, pt', k') \<and>
    free_frames k \<le> free_frames k' + (length idxs - 1)"
  using assms
proof (induction idxs arbitrary: n p pt k)
  case Nil
  then show ?case by simp
next
  case (Cons i idxs)
  show ?case
  proof (cases "n = 2")
    case True
    then show ?thesis by (simp add: Let_def)
  next
    case False
    then have ne: "idxs \<noteq> []" using Cons.prems(3) by auto
    with Cons.prems have "0 < free_frames k" by (cases idxs) auto
    then obtain t k1 where a: "frame_alloc k = (Some t, k1)" "free_frames k1 = free_frames k - 1"
      using frame_alloc_enough Cons.prems(1) by blast
    define k2 where "k2 = pte_write (pte_slot p i) (pte_new (ft_ppn t) PTE_V) k1"
    have k2: "mm_inv k2" "free_frames k2 = free_frames k - 1"
      using frame_alloc_Some [OF a(1) Cons.prems(1)] a(2) by (auto simp: k2_def free_frames_def)
    have a': "frame_alloc_unwrap k = Ok (t, k1)" using a(1) by (simp add: frame_alloc_unwrap_Ok)
    have step: "\<exists>slot pt' k'. find_pte_create_loop (enumerate (Suc n) idxs) p' pt'' k0 = Ok (Some slot, pt', k') \<and>
        free_frames k \<le> free_frames k' + length idxs"
      if k0: "mm_inv k0" "free_frames k - 1 \<le> free_frames k0" for p' pt'' k0
    proof -
      have "length idxs - 1 \<le> free_frames k0" "Suc n + length idxs = 3" using Cons.prems k0(2) by auto
      then obtain slot pt' k' where "find_pte_create_loop (enumerate (Suc n) idxs) p' pt'' k0 = Ok (Some slot, pt', k')"
        "free_frames k0 \<le> free_frames k' + (length idxs - 1)"
        using Cons.IH [OF k0(1) ne] by blast
      moreover have "1 \<le> length idxs" using ne by (cases idxs) auto
      ultimately show ?thesis using k0(2) by fastforce
    qed
    have "k2 = pte_write (pte_slot p i) (pte_new (ft_ppn t) PTE_V) k1" by (rule k2_def)
    then show ?thesis using False a' step [of k2] step [of k] k2 Cons.prems(1) by (simp add: Let_def)
  qed
qed

lemma find_pte_create_total:
  assumes "mm_inv k" and "2 \<le> free_frames k"
  shows "\<exists>slot pt' k'. find_pte_create pt v k = Ok (Some slot, pt', k') \<and> free_frames k \<le> free_frames k' + 2"
  unfolding find_pte_create_def using create_loop_total [of k "indexes v" 0 "root_ppn pt" pt] assms
  by (simp add: indexes_eq)

section \<open>The operations on the abstract map\<close>

text \<open>The leaf entry is invalid exactly where the map is undefined.\<close>

lemma leads_leaf_valid:
  assumes "leads m (root_ppn pt) (butlast (indexes v)) c"
  shows "pt_lookup m pt v = (if pte_is_valid (pte_at m c (last (indexes v)))
                             then Some (pte_at m c (last (indexes v))) else None)"
  using leads_lookup [OF assms, of "[last (indexes v)]"]
  by (simp add: pt_lookup_def Let_def indexes_eq)

lemma pt_new_Ok:
  assumes "pt_new k = Ok (pt, k')" and "mm_inv k"
  shows "pt_inv k' pt \<and> pt_lookup (mem k') pt v = None \<and> table_frames pt = {root_ppn pt} \<and>
    root_ppn pt \<notin> live k \<and> live k' = insert (root_ppn pt) (live k) \<and>
    (\<forall>x. frame_of x \<noteq> root_ppn pt \<longrightarrow> mem k' x = mem k x)"
proof -
  obtain t where a: "frame_alloc k = (Some t, k')" and pt: "pt = \<lparr>root_ppn = ft_ppn t, frames = [t]\<rparr>"
    using assms(1) by (auto simp: pt_new_def frame_alloc_unwrap_Ok)
  note f = frame_alloc_Some [OF a assms(2)]
  have z: "pte_at (mem k') (ft_ppn t) i = PageTableEntry 0" if "unat i < 512" for i
    using f that by (intro pte_at_zero_frame) auto
  then have "placed (\<lambda>_. []) (mem k') {ft_ppn t}" using f by (simp add: placed_def)
  moreover have "pt_lookup (mem k') pt v = None"
    using z index_less_512 [of _ v] by (simp add: pt_lookup_def pt indexes_eq Let_def)
  ultimately show ?thesis using f by (auto simp: pt_inv_def pt)
qed

text \<open>What an operation on a table may do to the rest of the machine: the table stays consistent and
  keeps its root, new frames come from the free ones, and only the table's own frames are written.\<close>

definition pt_evolves :: "mm \<Rightarrow> PageTable \<Rightarrow> mm \<Rightarrow> PageTable \<Rightarrow> bool" where
  "pt_evolves k pt k' pt' \<longleftrightarrow> pt_inv k' pt' \<and> root_ppn pt' = root_ppn pt \<and> table_frames pt \<subseteq> table_frames pt' \<and>
     (\<forall>x. frame_of x \<notin> table_frames pt' \<longrightarrow> mem k' x = mem k x) \<and>
     live k' = live k \<union> table_frames pt' \<and> (table_frames pt' - table_frames pt) \<inter> live k = {}"

lemma pt_map_Ok:
  assumes "pt_inv k pt" and "pt_map pt v p flags k = Ok (r, pt', k')"
  shows "pt_evolves k pt k' pt' \<and>
    (case pt_lookup (mem k) pt v of
       None \<Rightarrow> r = 0 \<and> (\<forall>u. pt_lookup (mem k') pt' u =
         (if take_bit 27 (vpn_val u) = take_bit 27 (vpn_val v) then Some (pte_new p (flags OR PTE_V))
          else pt_lookup (mem k) pt u))
     | Some _ \<Rightarrow> r = - 1 \<and> (\<forall>u. pt_lookup (mem k') pt' u = pt_lookup (mem k) pt u))"
proof -
  obtain \<pi> where T: "tbl \<pi> k pt" using assms(1) by (auto simp: pt_inv_tbl)
  obtain slot pt1 k1 where f: "find_pte_create pt v k = Ok (Some slot, pt1, k1)"
    and res: "(if \<not> pte_is_valid (pte_read (mem k1) slot)
       then Ok (0, pt1, pte_write slot (pte_new p (flags OR PTE_V)) k1) else Ok (- 1, pt1, k1)) = Ok (r, pt', k')"
    using assms(2) by (auto simp: pt_map_def)
  from find_pte_create_Ok [OF T f] obtain \<pi>' c where T1: "tbl \<pi>' k1 pt1" and g: "grows k pt k1 pt1"
    and c: "c \<in> table_frames pt1" "\<pi>' c = butlast (indexes v)" and slot: "slot = pte_slot c (last (indexes v))"
    and lead: "leads (mem k1) (root_ppn pt1) (butlast (indexes v)) c" by (metis option.inject)
  have same: "pt_lookup (mem k1) pt1 u = pt_lookup (mem k) pt u" for u using g by (simp add: grows_def)
  note lv = leads_leaf_valid [OF lead, unfolded same, folded slot]
  show ?thesis
  proof (cases "pte_is_valid (pte_read (mem k1) slot)")
    case True
    with res have "r = - 1" "pt' = pt1" "k' = k1" by auto
    then show ?thesis using True T1 g lv same by (auto simp: pt_evolves_def pt_inv_tbl grows_def)
  next
    case False
    with res have e: "r = 0" "pt' = pt1" "k' = pte_write (pte_slot c (last (indexes v))) (pte_new p (flags OR PTE_V)) k1"
      by (auto simp: slot)
    note w = leaf_write [OF T1 c lead e(3)]
    have "pt_inv k' pt'" using w(1) e(2) by (auto simp: pt_inv_tbl)
    moreover have "mem k' x = mem k x" if "frame_of x \<notin> table_frames pt1" for x
      using w(3) [OF that] g that by (simp add: grows_def)
    moreover have "live k' = live k1" using e(3) by simp
    ultimately show ?thesis
      using False lv w(2) g e(1,2) same by (auto simp: pt_evolves_def grows_def indexes_inject)
  qed
qed

text \<open>A consistent memory manager to try the operations on.\<close>

definition demo_mm :: mm where
  "demo_mm = \<lparr>mem = (\<lambda>_. 0), FRAME_ALLOCATOR = \<lparr>fa_current = 0x80400, fa_end = 0x88000, fa_recycled = []\<rparr>\<rparr>"

definition demo_pt :: PageTable where
  "demo_pt = \<lparr>root_ppn = PhysPageNum 0x80400, frames = [FrameTracker (PhysPageNum 0x80400)]\<rparr>"

definition demo_k :: mm where
  "demo_k = \<lparr>mem = set_bytes_array (\<lambda>_. 0) (PhysPageNum 0x80400) (replicate 4096 0),
     FRAME_ALLOCATOR = \<lparr>fa_current = 0x80401, fa_end = 0x88000, fa_recycled = []\<rparr>\<rparr>"

lemma demo_mm_inv: "mm_inv demo_mm"
  by (simp add: demo_mm_def mm_inv_def fa_inv_def)

lemma demo_pt_new: "pt_new demo_mm = Ok (demo_pt, demo_k)"
  by (simp add: pt_new_def frame_alloc_unwrap_def frame_alloc_def fa_alloc_def tracker_new_def
      demo_mm_def demo_pt_def demo_k_def)

lemmas demo_inv = pt_new_Ok [OF demo_pt_new demo_mm_inv]

lemma pt_inv_mm: "pt_inv k pt \<Longrightarrow> mm_inv k"
  by (simp add: pt_inv_def)

lemma demo_free: "free_frames demo_k = 0x7BFF"
  by (simp add: free_frames_def demo_k_def)

lemma pt_map_total:
  assumes "mm_inv k" and "2 \<le> free_frames k"
  shows "\<exists>r pt' k'. pt_map pt v p flags k = Ok (r, pt', k') \<and> free_frames k \<le> free_frames k' + 2"
proof -
  obtain slot pt1 k1 where "find_pte_create pt v k = Ok (Some slot, pt1, k1)" "free_frames k \<le> free_frames k1 + 2"
    using find_pte_create_total [OF assms] by blast
  then show ?thesis
    by (cases "pte_is_valid (pte_read (mem k1) slot)") (simp_all add: pt_map_def free_frames_def pte_write_def)
qed

text \<open>C2: \<open>map\<close> refines an insertion that never overwrites. On a consistent table, with two free
  frames left for the two levels it may have to add, it returns; it answers 0 and adds exactly the
  entry asked for, with the valid bit, where the page number was unmapped; it answers -1 and
  changes no mapping where it was mapped. Page numbers are told apart by their low 27 bits. The
  table stays consistent, and memory outside its own frames is untouched.\<close>

theorem pt_map_refines_insert:
  assumes "pt_inv k pt" and "2 \<le> free_frames k"
  shows "\<exists>r pt' k'. pt_map pt v p flags k = Ok (r, pt', k') \<and> pt_evolves k pt k' pt' \<and>
    (case pt_lookup (mem k) pt v of
       None \<Rightarrow> r = 0 \<and> (\<forall>u. pt_lookup (mem k') pt' u =
         (if take_bit 27 (vpn_val u) = take_bit 27 (vpn_val v) then Some (pte_new p (flags OR PTE_V))
          else pt_lookup (mem k) pt u))
     | Some _ \<Rightarrow> r = - 1 \<and> (\<forall>u. pt_lookup (mem k') pt' u = pt_lookup (mem k) pt u))"
proof -
  obtain r pt' k' where m: "pt_map pt v p flags k = Ok (r, pt', k')"
    using pt_map_total [OF pt_inv_mm [OF assms(1)] assms(2)] by blast
  then show ?thesis using pt_map_Ok [OF assms(1) m] by blast
qed

theorem pt_map_refines_insert_witness:
  "pt_inv demo_k demo_pt \<and> 2 \<le> free_frames demo_k \<and>
   (\<exists>pt' k'. pt_map demo_pt (VirtPageNum 5) (PhysPageNum 42) PTE_R demo_k = Ok (0, pt', k') \<and>
      pt_lookup (mem k') pt' (VirtPageNum 5) = Some (pte_new (PhysPageNum 42) (PTE_R OR PTE_V)) \<and>
      pt_lookup (mem k') pt' (VirtPageNum 6) = None)"
proof -
  have i: "pt_inv demo_k demo_pt" "2 \<le> free_frames demo_k" using demo_inv by (auto simp: demo_free)
  from pt_map_refines_insert [OF i, of "VirtPageNum 5" "PhysPageNum 42" PTE_R] i
    demo_inv [of "VirtPageNum 5"] demo_inv [of "VirtPageNum 6"]
  show ?thesis by (auto simp: take_bit_eq_mod)
qed

text \<open>Where a page number is mapped the walk creates nothing.\<close>

lemma find_pte_create_mapped:
  assumes T: "tbl \<pi> k pt" and "pt_lookup (mem k) pt v = Some e"
  obtains c where "find_pte_create pt v k = Ok (Some (pte_slot c (last (indexes v))), pt, k)"
    and "c \<in> table_frames pt" and "\<pi> c = butlast (indexes v)"
    and "leads (mem k) (root_ppn pt) (butlast (indexes v)) c" and "e = pte_at (mem k) c (last (indexes v))"
    and "pte_is_valid e"
proof -
  obtain a b l where idx: "indexes v = [a, b, l]" by (simp add: indexes_eq)
  have lt: "unat a < 512" "unat b < 512" using index_less_512 [of _ v] by (auto simp: idx)
  define c1 where "c1 = pte_ppn (pte_at (mem k) (root_ppn pt) a)"
  define c where "c = pte_ppn (pte_at (mem k) c1 b)"
  from assms(2) have v: "pte_is_valid (pte_at (mem k) (root_ppn pt) a)" "pte_is_valid (pte_at (mem k) c1 b)"
    "pte_is_valid (pte_at (mem k) c l)" "e = pte_at (mem k) c l"
    by (auto simp: pt_lookup_def idx Let_def c1_def c_def split: if_splits)
  have r: "root_ppn pt \<in> table_frames pt" "\<pi> (root_ppn pt) = []" "placed \<pi> (mem k) (table_frames pt)"
    using T by (auto simp: tbl_def)
  then have c1: "c1 \<in> table_frames pt" "\<pi> c1 = [a]"
    unfolding c1_def using v(1) lt by (auto simp: placed_def)
  then have "c \<in> table_frames pt" "\<pi> c = [a, b]"
    unfolding c_def using v(2) lt r(3) by (auto simp: placed_def)
  moreover have "find_pte_create pt v k = Ok (Some (pte_slot c l), pt, k)"
    using v by (simp add: find_pte_create_def idx Let_def c1_def c_def)
  moreover have "leads (mem k) (root_ppn pt) [a, b] c"
    using v by (simp add: c1_def c_def)
  ultimately show ?thesis using that [of c] v by (simp add: idx)
qed

lemma pt_unmap_Ok_mapped:
  assumes "pt_inv k pt" and "pt_unmap pt v k = Ok (pt', k')"
  shows "pt_lookup (mem k) pt v \<noteq> None"
proof -
  obtain \<pi> where T: "tbl \<pi> k pt" using assms(1) by (auto simp: pt_inv_tbl)
  obtain slot k1 where f: "find_pte_create pt v k = Ok (Some slot, pt', k1)"
    and valid: "pte_is_valid (pte_read (mem k1) slot)" using assms(2) by (auto simp: pt_unmap_def)
  from find_pte_create_Ok [OF T f] obtain c where g: "grows k pt k1 pt'"
    and slot: "slot = pte_slot c (last (indexes v))"
    and lead: "leads (mem k1) (root_ppn pt') (butlast (indexes v)) c" by (metis option.inject)
  then show ?thesis
    using leads_leaf_valid [OF lead] valid by (simp add: grows_def slot split: if_splits)
qed

lemma pt_unmap_mapped:
  assumes "pt_inv k pt" and "pt_lookup (mem k) pt v = Some e"
  shows "\<exists>k'. pt_unmap pt v k = Ok (pt, k') \<and> pt_evolves k pt k' pt \<and>
    FRAME_ALLOCATOR k' = FRAME_ALLOCATOR k \<and>
    (\<forall>u. pt_lookup (mem k') pt u =
       (if take_bit 27 (vpn_val u) = take_bit 27 (vpn_val v) then None else pt_lookup (mem k) pt u))"
proof -
  obtain \<pi> where T: "tbl \<pi> k pt" using assms(1) by (auto simp: pt_inv_tbl)
  from find_pte_create_mapped [OF T assms(2)] obtain c where
    f: "find_pte_create pt v k = Ok (Some (pte_slot c (last (indexes v))), pt, k)"
    and c: "c \<in> table_frames pt" "\<pi> c = butlast (indexes v)"
    and lead: "leads (mem k) (root_ppn pt) (butlast (indexes v)) c"
    and e: "e = pte_at (mem k) c (last (indexes v))" "pte_is_valid e" by metis
  define k' where "k' = pte_write (pte_slot c (last (indexes v))) pte_empty k"
  have u: "pt_unmap pt v k = Ok (pt, k')" using f e by (simp add: pt_unmap_def k'_def)
  note w = leaf_write [OF T c lead k'_def]
  have a: "FRAME_ALLOCATOR k' = FRAME_ALLOCATOR k" by (simp add: k'_def pte_write_def)
  have "pt_inv k' pt" using w(1) by (auto simp: pt_inv_tbl)
  moreover have "table_frames pt \<subseteq> live k" using assms(1) by (simp add: pt_inv_def)
  ultimately show ?thesis
    using u a w(2,3) by (auto simp: pt_evolves_def indexes_inject pte_empty_def)
qed

text \<open>C3: \<open>unmap\<close> refines a deletion. On a consistent table it panics where the page number is not
  mapped; where it is mapped it returns, having removed that one mapping and nothing else. It
  allocates nothing, keeps the table consistent and touches no memory outside the table's frames.\<close>

theorem pt_unmap_refines_delete:
  assumes "pt_inv k pt"
  shows "case pt_lookup (mem k) pt v of
      None \<Rightarrow> \<exists>e. pt_unmap pt v k = Panic e
    | Some _ \<Rightarrow> \<exists>k'. pt_unmap pt v k = Ok (pt, k') \<and> pt_evolves k pt k' pt \<and>
        FRAME_ALLOCATOR k' = FRAME_ALLOCATOR k \<and>
        (\<forall>u. pt_lookup (mem k') pt u =
           (if take_bit 27 (vpn_val u) = take_bit 27 (vpn_val v) then None else pt_lookup (mem k) pt u))"
proof (cases "pt_lookup (mem k) pt v")
  case None
  have "\<exists>e. pt_unmap pt v k = Panic e"
    using pt_unmap_Ok_mapped [OF assms, of v] None by (cases "pt_unmap pt v k") auto
  with None show ?thesis by simp
next
  case (Some e)
  show ?thesis using pt_unmap_mapped [OF assms Some] Some by simp
qed

theorem pt_unmap_refines_delete_witness:
  "\<exists>pt k. pt_map demo_pt (VirtPageNum 5) (PhysPageNum 42) PTE_R demo_k = Ok (0, pt, k) \<and>
     pt_inv k pt \<and> pt_lookup (mem k) pt (VirtPageNum 5) \<noteq> None \<and>
     (\<exists>k'. pt_unmap pt (VirtPageNum 5) k = Ok (pt, k') \<and> pt_lookup (mem k') pt (VirtPageNum 5) = None)"
proof -
  have i: "pt_inv demo_k demo_pt" "2 \<le> free_frames demo_k" using demo_inv by (auto simp: demo_free)
  then obtain r pt k where m: "pt_map demo_pt (VirtPageNum 5) (PhysPageNum 42) PTE_R demo_k = Ok (r, pt, k)"
    using pt_map_total pt_inv_mm by blast
  have p: "pt_inv k pt" "r = 0" "pt_lookup (mem k) pt (VirtPageNum 5) \<noteq> None"
    using pt_map_Ok [OF i(1) m] demo_inv [of "VirtPageNum 5"] by (auto simp: pt_evolves_def)
  then show ?thesis using pt_unmap_refines_delete [OF p(1), of "VirtPageNum 5"] m by auto
qed

end
