(* ===== verification/MemorySetInv.thy ===== *)
theory MemorySetInv
  imports MemorySet PageTableRefine
begin

text \<open>
  Correctness of areas and address spaces (\<open>src/os/src/mm/memory_set.rs\<close>, modelled in
  \<open>MemorySet\<close>). The invariant of an address space: its table is consistent, every page of every
  area is mapped to the area's own frame with the area's permissions, no frame has two owners and
  no page number two areas. Inserting an area, removing one and copying a whole address space keep
  it, and the theorems say what becomes of mappings, frames and memory. The last section shows
  what an overlapping insertion leaves behind.
\<close>

section \<open>Steps that give an address space frames\<close>

abbreviation vkey :: "VirtPageNum \<Rightarrow> usize" where
  "vkey v \<equiv> take_bit 27 (vpn_val v)"

text \<open>A table grows and data frames \<open>T\<close> are allocated: the new frames were free, the data frames
  read as zeros, and nothing outside the table and the new frames is written.\<close>

definition space_step :: "mm \<Rightarrow> PageTable \<Rightarrow> mm \<Rightarrow> PageTable \<Rightarrow> PhysPageNum set \<Rightarrow> bool" where
  "space_step k pt k' pt' T \<longleftrightarrow> pt_inv k' pt' \<and> root_ppn pt' = root_ppn pt \<and>
     table_frames pt \<subseteq> table_frames pt' \<and> live k' = live k \<union> table_frames pt' \<union> T \<and>
     (table_frames pt' - table_frames pt) \<inter> live k = {} \<and> T \<inter> live k = {} \<and> T \<inter> table_frames pt' = {} \<and>
     (\<forall>x. frame_of x \<notin> table_frames pt' \<union> T \<longrightarrow> mem k' x = mem k x) \<and>
     (\<forall>x. frame_of x \<in> T \<longrightarrow> mem k' x = 0)"

lemmas space_stepD =
  space_step_def [THEN iffD1, THEN conjunct1]
  space_step_def [THEN iffD1, THEN conjunct2, THEN conjunct1]
  space_step_def [THEN iffD1, THEN conjunct2, THEN conjunct2, THEN conjunct1]
  space_step_def [THEN iffD1, THEN conjunct2, THEN conjunct2, THEN conjunct2, THEN conjunct1]
  space_step_def [THEN iffD1, THEN conjunct2, THEN conjunct2, THEN conjunct2, THEN conjunct2, THEN conjunct1]
  space_step_def [THEN iffD1, THEN conjunct2, THEN conjunct2, THEN conjunct2, THEN conjunct2, THEN conjunct2, THEN conjunct1]
  space_step_def [THEN iffD1, THEN conjunct2, THEN conjunct2, THEN conjunct2, THEN conjunct2, THEN conjunct2, THEN conjunct2, THEN conjunct1]
  space_step_def [THEN iffD1, THEN conjunct2, THEN conjunct2, THEN conjunct2, THEN conjunct2, THEN conjunct2, THEN conjunct2, THEN conjunct2, THEN conjunct1, rule_format]
  space_step_def [THEN iffD1, THEN conjunct2, THEN conjunct2, THEN conjunct2, THEN conjunct2, THEN conjunct2, THEN conjunct2, THEN conjunct2, THEN conjunct2, rule_format]

lemma space_stepI:
  assumes "pt_inv k' pt'" and "root_ppn pt' = root_ppn pt" and "table_frames pt \<subseteq> table_frames pt'"
    and "live k' = live k \<union> table_frames pt' \<union> T" and "(table_frames pt' - table_frames pt) \<inter> live k = {}"
    and "T \<inter> live k = {}" and "T \<inter> table_frames pt' = {}"
    and "\<And>x. frame_of x \<notin> table_frames pt' \<union> T \<Longrightarrow> mem k' x = mem k x"
    and "\<And>x. frame_of x \<in> T \<Longrightarrow> mem k' x = 0"
  shows "space_step k pt k' pt' T"
  unfolding space_step_def by (intro conjI allI impI) (fact assms)+

lemma space_step_refl: "pt_inv k pt \<Longrightarrow> space_step k pt k pt {}"
  by (auto simp: space_step_def pt_inv_def)

lemma space_step_live: "space_step k pt k' pt' T \<Longrightarrow> live k \<subseteq> live k'"
  by (auto simp: space_step_def)

text \<open>Memory in use before, other than the table itself, keeps its contents.\<close>

lemma space_step_keeps:
  assumes "space_step k pt k' pt' T" and "frame_of x \<in> live k" and "frame_of x \<notin> table_frames pt"
  shows "mem k' x = mem k x"
proof -
  have "frame_of x \<notin> table_frames pt'" "frame_of x \<notin> T"
    using assms by (auto simp: space_step_def)
  then show ?thesis using assms(1) by (simp add: space_step_def)
qed

lemma frame_sets:
  fixes F :: "'a set"
  assumes "F \<subseteq> F1" "F1 \<subseteq> F2" "L1 = L \<union> F1 \<union> T1" "L2 = L1 \<union> F2 \<union> T2" "(F1 - F) \<inter> L = {}" "(F2 - F1) \<inter> L1 = {}"
    "T1 \<inter> L = {}" "T2 \<inter> L1 = {}" "T1 \<inter> F1 = {}" "T2 \<inter> F2 = {}"
  shows "T1 \<inter> T2 = {}" "F \<subseteq> F2" "L2 = L \<union> F2 \<union> (T1 \<union> T2)" "(F2 - F) \<inter> L = {}" "(T1 \<union> T2) \<inter> L = {}"
    "(T1 \<union> T2) \<inter> F2 = {}"
proof -
  show "T1 \<inter> T2 = {}" "F \<subseteq> F2" "L2 = L \<union> F2 \<union> (T1 \<union> T2)" "(T1 \<union> T2) \<inter> L = {}"
    using assms(1-4,7,8) by auto
  show "(F2 - F) \<inter> L = {}" using assms(3,5,6) by blast
  show "(T1 \<union> T2) \<inter> F2 = {}" using assms(3,6,9,10) by blast
qed

lemma space_step_trans:
  assumes s1: "space_step k pt k1 pt1 T1" and s2: "space_step k1 pt1 k2 pt2 T2"
  shows "space_step k pt k2 pt2 (T1 \<union> T2)" and "T1 \<inter> T2 = {}"
proof -
  have f: "table_frames pt \<subseteq> table_frames pt1" "table_frames pt1 \<subseteq> table_frames pt2"
    "live k1 = live k \<union> table_frames pt1 \<union> T1" "live k2 = live k1 \<union> table_frames pt2 \<union> T2"
    "(table_frames pt1 - table_frames pt) \<inter> live k = {}" "(table_frames pt2 - table_frames pt1) \<inter> live k1 = {}"
    "T1 \<inter> live k = {}" "T2 \<inter> live k1 = {}" "T1 \<inter> table_frames pt1 = {}" "T2 \<inter> table_frames pt2 = {}"
    by (fact space_stepD(3-7) [OF s1] space_stepD(3-7) [OF s2])+
  note sets = frame_sets [OF f]
  show "T1 \<inter> T2 = {}" by (rule sets(1))
  have "mem k2 x = mem k x" if "frame_of x \<notin> table_frames pt2 \<union> (T1 \<union> T2)" for x
  proof -
    have "frame_of x \<notin> table_frames pt1" using that f(2) by blast
    then show ?thesis using space_stepD(8) [OF s1] space_stepD(8) [OF s2] that by simp
  qed
  moreover have "mem k2 x = 0" if "frame_of x \<in> T1 \<union> T2" for x
  proof (cases "frame_of x \<in> T2")
    case True
    then show ?thesis by (rule space_stepD(9) [OF s2])
  next
    case False
    with that have t: "frame_of x \<in> T1" by blast
    then have "frame_of x \<in> live k1" "frame_of x \<notin> table_frames pt1" using f(3,9) by blast+
    then have "mem k2 x = mem k1 x" by (rule space_step_keeps [OF s2])
    then show ?thesis using space_stepD(9) [OF s1 t] by simp
  qed
  moreover have "root_ppn pt2 = root_ppn pt" using space_stepD(2) [OF s1] space_stepD(2) [OF s2] by simp
  ultimately show "space_step k pt k2 pt2 (T1 \<union> T2)"
    using space_stepD(1) [OF s2] sets by (intro space_stepI)
qed

lemma pt_evolves_space_step: "pt_evolves k pt k' pt' \<Longrightarrow> space_step k pt k' pt' {}"
  by (simp add: space_step_def pt_evolves_def)

section \<open>What a table depends on\<close>

text \<open>A table is read from its own frames only.\<close>

lemma placedD:
  "placed \<pi> m F \<Longrightarrow> p \<in> F \<Longrightarrow> length (\<pi> p) < 2 \<Longrightarrow> unat i < 512 \<Longrightarrow> pte_is_valid (pte_at m p i) \<Longrightarrow>
     pte_ppn (pte_at m p i) \<in> F \<and> \<pi> (pte_ppn (pte_at m p i)) = \<pi> p @ [i]"
  by (simp add: placed_def)

lemma pt_inv_cong:
  assumes "pt_inv k pt" and "mm_inv k'" and "table_frames pt \<subseteq> live k'"
    and same: "\<And>x. frame_of x \<in> table_frames pt \<Longrightarrow> mem k' x = mem k x"
  shows "pt_inv k' pt" and "pt_lookup (mem k') pt v = pt_lookup (mem k) pt v"
proof -
  obtain \<pi> where r: "root_ppn pt \<in> table_frames pt" "\<pi> (root_ppn pt) = []"
    and pl: "placed \<pi> (mem k) (table_frames pt)" and d: "distinct (frames pt)"
    using assms(1) by (auto simp: pt_inv_def)
  have e: "pte_at (mem k') p i = pte_at (mem k) p i" if "p \<in> table_frames pt" "unat i < 512" for p i
    using that pl same by (intro pte_at_cong) (auto simp: placed_def)
  have "placed \<pi> (mem k') (table_frames pt)"
    using pl e unfolding placed_def by simp
  then show "pt_inv k' pt" using assms(2,3) r d by (auto simp: pt_inv_def)
  obtain a b l where idx: "indexes v = [a, b, l]" by (simp add: indexes_eq)
  have lt: "unat a < 512" "unat b < 512" "unat l < 512" using index_less_512 [of _ v] by (auto simp: idx)
  have sub: "pte_ppn (pte_at (mem k) p i) \<in> table_frames pt \<and> length (\<pi> (pte_ppn (pte_at (mem k) p i))) = Suc (length (\<pi> p))"
    if "p \<in> table_frames pt" "length (\<pi> p) < 2" "unat i < 512" "pte_is_valid (pte_at (mem k) p i)" for p i
    using placedD [OF pl that] by simp
  show "pt_lookup (mem k') pt v = pt_lookup (mem k) pt v"
    using r lt e sub [of "root_ppn pt" a] sub [of "pte_ppn (pte_at (mem k) (root_ppn pt) a)" b]
    by (simp add: pt_lookup_def idx Let_def)
qed

section \<open>Mapping an area\<close>

lemma alloc_space_step:
  assumes "frame_alloc k = (Some t, k')" and "pt_inv k pt"
  shows "space_step k pt k' pt {ft_ppn t}" and "pt_lookup (mem k') pt v = pt_lookup (mem k) pt v"
proof -
  have mm: "mm_inv k" and sub: "table_frames pt \<subseteq> live k" using assms(2) by (auto simp: pt_inv_def)
  note f = frame_alloc_Some [OF assms(1) mm]
  have notin: "ft_ppn t \<notin> table_frames pt" using f sub by blast
  have same: "mem k' x = mem k x" if "frame_of x \<in> table_frames pt" for x
    using f notin that by metis
  have l: "table_frames pt \<subseteq> live k'" using f sub by blast
  have mm': "mm_inv k'" using f by blast
  show "pt_lookup (mem k') pt v = pt_lookup (mem k) pt v"
    by (rule pt_inv_cong(2) [OF assms(2) mm' l same])
  have "pt_inv k' pt" by (rule pt_inv_cong(1) [OF assms(2) mm' l same])
  then show "space_step k pt k' pt {ft_ppn t}"
    using f notin sub by (intro space_stepI) auto
qed

lemma map_one_framed:
  assumes inv: "pt_inv k pt" and ty: "map_type area = Framed" and above: "\<forall>x \<in> set (data_frames area). fst x < v"
    and unmapped: "pt_lookup (mem k) pt v = None" and free: "3 \<le> free_frames k"
  shows "\<exists>t pt' k'. map_one area pt v k = Ok (0, area\<lparr>data_frames := data_frames area @ [(v, t)]\<rparr>, pt', k') \<and>
    space_step k pt k' pt' {ft_ppn t} \<and> free_frames k \<le> free_frames k' + 3 \<and>
    (\<forall>u. pt_lookup (mem k') pt' u = (if vkey u = vkey v then Some (pte_new (ft_ppn t) (map_perm area OR PTE_V))
                                    else pt_lookup (mem k) pt u))"
proof -
  obtain t k1 where a: "frame_alloc k = (Some t, k1)" "free_frames k1 = free_frames k - 1"
    using frame_alloc_enough [OF pt_inv_mm [OF inv]] free by auto
  note s1 = alloc_space_step [OF a(1) inv]
  have inv1: "pt_inv k1 pt" by (rule space_stepD(1) [OF s1(1)])
  have free1: "2 \<le> free_frames k1" using a(2) free by simp
  obtain r pt' k' where m: "pt_map pt v (ft_ppn t) (map_perm area) k1 = Ok (r, pt', k')"
    and f': "free_frames k1 \<le> free_frames k' + 2"
    using pt_map_total [OF pt_inv_mm [OF inv1] free1] by blast
  have ok: "pt_evolves k1 pt k' pt'" "r = 0" and look: "\<forall>u. pt_lookup (mem k') pt' u =
     (if vkey u = vkey v then Some (pte_new (ft_ppn t) (map_perm area OR PTE_V)) else pt_lookup (mem k) pt u)"
    using pt_map_Ok [OF inv1 m] by (simp_all add: s1(2) unmapped)
  have "space_step k pt k' pt' ({ft_ppn t} \<union> {})"
    by (rule space_step_trans(1) [OF s1(1) pt_evolves_space_step [OF ok(1)]])
  moreover have "map_one area pt v k = Ok (0, area\<lparr>data_frames := data_frames area @ [(v, t)]\<rparr>, pt', k')"
    using m ok(2) a(1) ty above
    by (simp add: map_one_def frame_alloc_unwrap_def drop_option_def bt_get_above bt_insert_append)
  ultimately show ?thesis using look f' a(2) by auto
qed

lemma area_map_loop_framed:
  assumes "pt_inv k pt" and "map_type area = Framed" and "sorted_wrt (<) (map fst (data_frames area) @ vs)"
    and "\<forall>v \<in> set vs. pt_lookup (mem k) pt v = None" and "distinct (map vkey vs)"
    and "3 * length vs \<le> free_frames k"
  shows "\<exists>ts pt' k'. area_map_loop vs area pt k =
      Ok (0, area\<lparr>data_frames := data_frames area @ zip vs ts\<rparr>, pt', k') \<and>
    length ts = length vs \<and> distinct ts \<and> space_step k pt k' pt' (ft_ppn ` set ts) \<and>
    free_frames k \<le> free_frames k' + 3 * length vs \<and>
    (\<forall>(v, t) \<in> set (zip vs ts). pt_lookup (mem k') pt' v = Some (pte_new (ft_ppn t) (map_perm area OR PTE_V))) \<and>
    (\<forall>u. vkey u \<notin> vkey ` set vs \<longrightarrow> pt_lookup (mem k') pt' u = pt_lookup (mem k) pt u)"
  using assms
proof (induction vs arbitrary: area pt k)
  case Nil
  have "space_step k pt k pt {}" by (rule space_step_refl [OF Nil(1)])
  then show ?case by simp
next
  case (Cons v vs)
  have above: "\<forall>x \<in> set (data_frames area). fst x < v" using Cons.prems(3) by (auto simp: sorted_wrt_append)
  obtain t pt1 k1 where m: "map_one area pt v k = Ok (0, area\<lparr>data_frames := data_frames area @ [(v, t)]\<rparr>, pt1, k1)"
    and s1: "space_step k pt k1 pt1 {ft_ppn t}" and f1: "free_frames k \<le> free_frames k1 + 3"
    and l1: "\<forall>u. pt_lookup (mem k1) pt1 u = (if vkey u = vkey v then Some (pte_new (ft_ppn t) (map_perm area OR PTE_V))
                                    else pt_lookup (mem k) pt u)"
    using map_one_framed [OF Cons.prems(1,2) above] Cons.prems(4,6) by auto
  define area1 where "area1 = area\<lparr>data_frames := data_frames area @ [(v, t)]\<rparr>"
  have "\<forall>u \<in> set vs. pt_lookup (mem k1) pt1 u = None"
    using l1 Cons.prems(4,5) by (auto simp: image_iff)
  then obtain ts pt' k' where loop: "area_map_loop vs area1 pt1 k1 =
        Ok (0, area1\<lparr>data_frames := data_frames area1 @ zip vs ts\<rparr>, pt', k')"
    and n: "length ts = length vs" "distinct ts" and s2: "space_step k1 pt1 k' pt' (ft_ppn ` set ts)"
    and f2: "free_frames k1 \<le> free_frames k' + 3 * length vs"
    and l2: "\<forall>(v, t) \<in> set (zip vs ts). pt_lookup (mem k') pt' v = Some (pte_new (ft_ppn t) (map_perm area OR PTE_V))"
      "\<forall>u. vkey u \<notin> vkey ` set vs \<longrightarrow> pt_lookup (mem k') pt' u = pt_lookup (mem k1) pt1 u"
    using Cons.IH [of k1 pt1 area1] space_stepD(1) [OF s1] Cons.prems f1
    by (auto simp: area1_def)
  note s = space_step_trans [OF s1 s2]
  have "t \<notin> set ts" using s(2) by auto
  moreover have "vkey v \<notin> vkey ` set vs" using Cons.prems(5) by simp
  moreover have "area_map_loop (v # vs) area pt k =
      Ok (0, area\<lparr>data_frames := data_frames area @ zip (v # vs) (t # ts)\<rparr>, pt', k')"
    using m loop by (simp add: area1_def)
  moreover have "space_step k pt k' pt' (ft_ppn ` set (t # ts))" using s(1) by simp
  ultimately show ?case
    using n f1 f2 l1 l2 by (intro exI [of _ "t # ts"] exI [of _ pt'] exI [of _ k']) auto
qed

section \<open>The invariant of an address space\<close>

abbreviation area_pages :: "MapArea \<Rightarrow> VirtPageNum list" where
  "area_pages a \<equiv> range_list (vpn_range a)"

definition area_frames :: "MapArea \<Rightarrow> PhysPageNum list" where
  "area_frames a = map (\<lambda>x. ft_ppn (snd x)) (data_frames a)"

text \<open>The pages of an area and the frames they are to be mapped to.\<close>

definition area_targets :: "MapArea \<Rightarrow> (VirtPageNum \<times> PhysPageNum) list" where
  "area_targets a =
     (case map_type a of
        Framed \<Rightarrow> map (\<lambda>(v, t). (v, ft_ppn t)) (data_frames a)
      | Identical \<Rightarrow> map (\<lambda>v. (v, PhysPageNum (vpn_val v))) (area_pages a))"

definition area_mapped :: "phys_mem \<Rightarrow> PageTable \<Rightarrow> MapArea \<Rightarrow> bool" where
  "area_mapped m pt a \<longleftrightarrow> range_l (vpn_range a) \<le> range_r (vpn_range a) \<and>
     map fst (data_frames a) = (if map_type a = Framed then area_pages a else []) \<and>
     (\<forall>(v, p) \<in> set (area_targets a). pt_lookup m pt v = Some (pte_new p (map_perm a OR PTE_V)))"

definition ms_pages :: "MemorySet \<Rightarrow> VirtPageNum list" where
  "ms_pages ms = concat (map area_pages (areas ms))"

definition ms_frames :: "MemorySet \<Rightarrow> PhysPageNum list" where
  "ms_frames ms = concat (map area_frames (areas ms))"

definition ms_inv :: "mm \<Rightarrow> MemorySet \<Rightarrow> bool" where
  "ms_inv k ms \<longleftrightarrow> pt_inv k (page_table ms) \<and>
     (\<forall>a \<in> set (areas ms). area_mapped (mem k) (page_table ms) a) \<and>
     distinct (map vkey (ms_pages ms)) \<and> distinct (ms_frames ms) \<and>
     set (ms_frames ms) \<subseteq> live k \<and> set (ms_frames ms) \<inter> table_frames (page_table ms) = {}"

lemma sorted_range_list:
  assumes "range_l r \<le> range_r r"
  shows "sorted_wrt (<) (range_list r)"
proof -
  have "sorted_wrt (<) (map (\<lambda>v. unat (vpn_val v)) (range_list r))"
    unfolding range_list_unat [OF assms] by (rule sorted_wrt_upt)
  then show ?thesis
    unfolding sorted_wrt_map
    by (rule sorted_wrt_mono_rel [rotated]) (simp add: less_VirtPageNum_def word_less_nat_alt)
qed

lemma mod_window:
  fixes a b :: nat
  assumes "a mod n = b mod n" and "a < b" and "b < a + n"
  shows False
proof -
  have "n dvd b - a" using assms(1,2) by (metis less_or_eq_imp_le mod_eq_dvd_iff_nat)
  then show False using assms(2,3) by (auto dest!: dvd_imp_le)
qed

text \<open>A range of at most \<open>2\<^sup>2\<^sup>7\<close> pages has no two pages the table takes for the same.\<close>

lemma range_vkeys_distinct:
  assumes "range_l r \<le> range_r r" and "unat (vpn_val (range_r r)) - unat (vpn_val (range_l r)) \<le> 2 ^ 27"
  shows "distinct (map vkey (range_list r))"
proof -
  let ?l = "unat (vpn_val (range_l r))" and ?r = "unat (vpn_val (range_r r))"
  have u: "unat (vkey v) = unat (vpn_val v) mod 2 ^ 27" for v
    by (simp add: take_bit_eq_mod unat_mod_distrib)
  have "distinct (map (\<lambda>n. n mod 2 ^ 27) [?l..<?r])"
    unfolding distinct_map
  proof (intro conjI inj_onI)
    fix x y assume h: "x \<in> set [?l..<?r]" "y \<in> set [?l..<?r]" "x mod 2 ^ 27 = y mod 2 ^ 27"
    then have "x < y + 2 ^ 27" "y < x + 2 ^ 27" using assms(2) by auto
    then show "x = y"
      using h(3) mod_window [of x "2 ^ 27" y] mod_window [of y "2 ^ 27" x]
      by (cases x y rule: linorder_cases) auto
  qed simp
  then have "distinct (map (\<lambda>v. unat (vpn_val v) mod 2 ^ 27) (range_list r))"
    unfolding range_list_unat [OF assms(1), symmetric] by (simp add: comp_def)
  then have "distinct (map (\<lambda>v. unat (vkey v)) (range_list r))" by (simp add: u)
  then show ?thesis by (auto simp: distinct_map inj_on_def)
qed

lemma area_targets_pages:
  "area_mapped m pt a \<Longrightarrow> map fst (area_targets a) = area_pages a"
  by (cases "map_type a") (auto simp: area_mapped_def area_targets_def comp_def split_def)

text \<open>Adding to an address space an area whose pages a step has just mapped to new frames.\<close>

lemma area_mapped_step:
  assumes "area_mapped m pt a" and "\<And>v. v \<in> set (area_pages a) \<Longrightarrow> pt_lookup m' pt' v = pt_lookup m pt v"
  shows "area_mapped m' pt' a"
proof -
  have "v \<in> set (area_pages a)" if "(v, p) \<in> set (area_targets a)" for v p
    using that area_targets_pages [OF assms(1)] by (metis fst_conv image_eqI list.set_map)
  then have "pt_lookup m' pt' v = Some (pte_new p (map_perm a OR PTE_V))" if "(v, p) \<in> set (area_targets a)" for v p
    using that assms unfolding area_mapped_def by (metis (mono_tags, lifting) case_prodD)
  then show ?thesis using assms(1) by (auto simp: area_mapped_def)
qed

lemma lookup_vkey: "vkey u = vkey v \<Longrightarrow> pt_lookup m pt u = pt_lookup m pt v"
  using indexes_inject [of u v] by (simp add: pt_lookup_def)

lemma ms_page_mapped:
  assumes "ms_inv k ms" and "v \<in> set (ms_pages ms)"
  shows "pt_lookup (mem k) (page_table ms) v \<noteq> None"
proof -
  obtain a where a: "a \<in> set (areas ms)" "v \<in> set (area_pages a)" using assms(2) by (auto simp: ms_pages_def)
  then have am: "area_mapped (mem k) (page_table ms) a" using assms(1) by (simp add: ms_inv_def)
  then have "v \<in> set (map fst (area_targets a))" using a(2) by (simp only: area_targets_pages)
  then show ?thesis using am by (auto simp: area_mapped_def)
qed

lemma ms_lists_push [simp]:
  "ms_pages (ms\<lparr>page_table := pt, areas := areas ms @ [a]\<rparr>) = ms_pages ms @ area_pages a"
  "ms_frames (ms\<lparr>page_table := pt, areas := areas ms @ [a]\<rparr>) = ms_frames ms @ area_frames a"
  by (simp_all add: ms_pages_def ms_frames_def)

lemma ms_inv_add:
  assumes inv: "ms_inv k ms" and s: "space_step k (page_table ms) k' pt' (set (area_frames a))"
    and a: "area_mapped (mem k') pt' a" "distinct (area_frames a)" "distinct (map vkey (area_pages a))"
    and new: "vkey ` set (area_pages a) \<inter> vkey ` set (ms_pages ms) = {}"
    and look: "\<forall>u. vkey u \<notin> vkey ` set (area_pages a) \<longrightarrow> pt_lookup (mem k') pt' u = pt_lookup (mem k) (page_table ms) u"
  shows "ms_inv k' (ms\<lparr>page_table := pt', areas := areas ms @ [a]\<rparr>)"
proof -
  have old: "area_mapped (mem k') pt' b" if "b \<in> set (areas ms)" for b
  proof (rule area_mapped_step)
    show "area_mapped (mem k) (page_table ms) b" using inv that by (simp add: ms_inv_def)
    fix v assume "v \<in> set (area_pages b)"
    then have "v \<in> set (ms_pages ms)" using that by (auto simp: ms_pages_def)
    then show "pt_lookup (mem k') pt' v = pt_lookup (mem k) (page_table ms) v" using look new by blast
  qed
  have sub: "set (ms_frames ms) \<subseteq> live k" "set (ms_frames ms) \<inter> table_frames (page_table ms) = {}"
    using inv by (auto simp: ms_inv_def)
  have l: "set (ms_frames ms) \<subseteq> live k'" "set (area_frames a) \<subseteq> live k'"
    using sub(1) space_stepD(4) [OF s] by blast+
  have dj: "set (ms_frames ms) \<inter> table_frames pt' = {}" "set (ms_frames ms) \<inter> set (area_frames a) = {}"
    using sub space_stepD(5,6) [OF s] by blast+
  have "distinct (map vkey (ms_pages ms @ area_pages a))" "distinct (ms_frames ms @ area_frames a)"
    using inv a(2,3) new dj(2) by (auto simp: ms_inv_def)
  moreover have "set (ms_frames ms @ area_frames a) \<subseteq> live k'" using l by simp
  moreover have "set (ms_frames ms @ area_frames a) \<inter> table_frames pt' = {}"
    using dj(1) space_stepD(7) [OF s] by auto
  ultimately show ?thesis
    unfolding ms_inv_def ms_lists_push using old a(1) space_stepD(1) [OF s] by simp
qed

section \<open>Inserting an area\<close>

text \<open>What adding a framed area \<open>a\<close> does to an address space: \<open>a\<close> is there with a new frame for each of
  its pages, and the mappings of other pages are as before.\<close>

definition area_added :: "mm \<Rightarrow> MemorySet \<Rightarrow> MapArea \<Rightarrow> mm \<Rightarrow> MemorySet \<Rightarrow> bool" where
  "area_added k ms a k' ms' \<longleftrightarrow>
     (\<exists>ts. areas ms' = areas ms @ [a\<lparr>data_frames := zip (area_pages a) ts\<rparr>] \<and> length ts = length (area_pages a) \<and>
           space_step k (page_table ms) k' (page_table ms') (ft_ppn ` set ts)) \<and>
     ms_inv k' ms' \<and>
     (\<forall>u. vkey u \<notin> vkey ` set (area_pages a) \<longrightarrow>
        pt_lookup (mem k') (page_table ms') u = pt_lookup (mem k) (page_table ms) u)"

lemma area_frames_zip:
  assumes "length ts = length (area_pages a)"
  shows "area_frames (a\<lparr>data_frames := zip (area_pages a) ts\<rparr>) = map ft_ppn ts"
proof -
  have "area_frames (a\<lparr>data_frames := zip (area_pages a) ts\<rparr>) = map ft_ppn (map snd (zip (area_pages a) ts))"
    by (simp add: area_frames_def comp_def)
  then show ?thesis using assms by simp
qed

lemma ms_push_framed:
  assumes inv: "ms_inv k ms" and a: "map_type a = Framed" "data_frames a = []"
    and r: "range_l (vpn_range a) \<le> range_r (vpn_range a)" and d: "distinct (map vkey (area_pages a))"
    and un: "\<forall>v \<in> set (area_pages a). pt_lookup (mem k) (page_table ms) v = None"
    and free: "3 * length (area_pages a) \<le> free_frames k"
  shows "\<exists>ms' k'. ms_push a None ms k = Ok (0, ms', k') \<and> area_added k ms a k' ms' \<and>
     free_frames k \<le> free_frames k' + 3 * length (area_pages a)"
proof -
  have pi: "pt_inv k (page_table ms)" using inv by (simp add: ms_inv_def)
  have so: "sorted_wrt (<) (map fst (data_frames a) @ area_pages a)" using sorted_range_list [OF r] a(2) by simp
  obtain ts pt' k' where m: "area_map_loop (area_pages a) a (page_table ms) k =
        Ok (0, a\<lparr>data_frames := data_frames a @ zip (area_pages a) ts\<rparr>, pt', k')"
    and n: "length ts = length (area_pages a)" "distinct ts"
    and s: "space_step k (page_table ms) k' pt' (ft_ppn ` set ts)"
    and f: "free_frames k \<le> free_frames k' + 3 * length (area_pages a)"
    and l: "\<forall>(v, t) \<in> set (zip (area_pages a) ts). pt_lookup (mem k') pt' v = Some (pte_new (ft_ppn t) (map_perm a OR PTE_V))"
      "\<forall>u. vkey u \<notin> vkey ` set (area_pages a) \<longrightarrow> pt_lookup (mem k') pt' u = pt_lookup (mem k) (page_table ms) u"
    using area_map_loop_framed [OF pi a(1) so un d free] by blast
  define a' where "a' = a\<lparr>data_frames := zip (area_pages a) ts\<rparr>"
  define ms' where "ms' = ms\<lparr>page_table := pt', areas := areas ms @ [a']\<rparr>"
  have fr: "area_frames a' = map ft_ppn ts" unfolding a'_def by (rule area_frames_zip [OF n(1)])
  have am: "area_mapped (mem k') pt' a'"
    using r n(1) l(1) a(1) by (auto simp: area_mapped_def a'_def area_targets_def)
  have df: "distinct (area_frames a')" using n(2) by (simp add: fr distinct_map inj_on_def FrameTracker.expand)
  have dis: "vkey ` set (area_pages a') \<inter> vkey ` set (ms_pages ms) = {}"
  proof (rule ccontr)
    assume "\<not> ?thesis"
    then obtain v w where "v \<in> set (area_pages a)" "w \<in> set (ms_pages ms)" "vkey v = vkey w" by (auto simp: a'_def)
    then show False using un ms_page_mapped [OF inv, of w] lookup_vkey [of v w] by auto
  qed
  have s': "space_step k (page_table ms) k' pt' (set (area_frames a'))" using s by (simp add: fr)
  have "ms_inv k' ms'"
    using ms_inv_add [OF inv s' am df _ dis] d l(2) by (simp add: a'_def ms'_def)
  then have "area_added k ms a k' ms'"
    unfolding area_added_def using n(1) s l(2) by (auto simp: ms'_def a'_def)
  moreover have "ms_push a None ms k = Ok (0, ms', k')"
    using m a(2) by (simp add: ms_push_def area_map_def a'_def ms'_def)
  ultimately show ?thesis using f by blast
qed

text \<open>Each page of an added area is mapped to a frame of its own, taken from the free ones and zeroed.\<close>

lemma area_added_page:
  assumes "area_added k ms a k' ms'" and "map_type a = Framed" and "v \<in> set (area_pages a)"
  shows "\<exists>p. pt_lookup (mem k') (page_table ms') v = Some (pte_new p (map_perm a OR PTE_V)) \<and>
            p \<notin> live k \<and> p \<in> live k' \<and> (\<forall>x. frame_of x = p \<longrightarrow> mem k' x = 0)"
proof -
  obtain ts where ar: "areas ms' = areas ms @ [a\<lparr>data_frames := zip (area_pages a) ts\<rparr>]" and n: "length ts = length (area_pages a)"
    and s: "space_step k (page_table ms) k' (page_table ms') (ft_ppn ` set ts)" and inv: "ms_inv k' ms'"
    using assms(1) unfolding area_added_def by blast
  obtain i where i: "i < length (area_pages a)" "v = area_pages a ! i" using assms(3) by (auto simp: in_set_conv_nth)
  then have z: "(v, ts ! i) \<in> set (zip (area_pages a) ts)" using n by (auto simp: in_set_zip)
  let ?a = "a\<lparr>data_frames := zip (area_pages a) ts\<rparr>"
  have "(v, ft_ppn (ts ! i)) \<in> set (area_targets ?a)"
    using imageI [OF z, of "\<lambda>(v, t). (v, ft_ppn t)"] assms(2) by (simp add: area_targets_def)
  moreover have "area_mapped (mem k') (page_table ms') ?a" using inv ar by (simp add: ms_inv_def)
  ultimately have l: "pt_lookup (mem k') (page_table ms') v = Some (pte_new (ft_ppn (ts ! i)) (map_perm a OR PTE_V))"
    by (auto simp: area_mapped_def dest: bspec)
  have T: "ft_ppn (ts ! i) \<in> ft_ppn ` set ts" using i n by simp
  then have "ft_ppn (ts ! i) \<notin> live k" "ft_ppn (ts ! i) \<in> live k'" using space_stepD(4,6) [OF s] by blast+
  moreover have "mem k' x = 0" if "frame_of x = ft_ppn (ts ! i)" for x
    by (rule space_stepD(9) [OF s]) (use that T in simp)
  ultimately show ?thesis using l by blast
qed

lemma area_added_keeps:
  assumes "area_added k ms a k' ms'" and "frame_of x \<in> live k" and "frame_of x \<notin> table_frames (page_table ms)"
  shows "mem k' x = mem k x"
  using assms space_step_keeps unfolding area_added_def by blast

lemma range_pages:
  assumes "range_l r \<le> range_r r"
  shows "set (range_list r) = {v. range_l r \<le> v \<and> v < range_r r}"
    and "length (range_list r) = unat (vpn_val (range_r r)) - unat (vpn_val (range_l r))"
proof -
  note M = range_list_unat [OF assms]
  have "v \<in> set (range_list r) \<longleftrightarrow> unat (vpn_val v) \<in> set (map (\<lambda>v. unat (vpn_val v)) (range_list r))" for v
    by auto
  then show "set (range_list r) = {v. range_l r \<le> v \<and> v < range_r r}"
    unfolding M by (auto simp: less_eq_VirtPageNum_def less_VirtPageNum_def word_le_nat_alt word_less_nat_alt)
  show "length (range_list r) = unat (vpn_val (range_r r)) - unat (vpn_val (range_l r))"
    using arg_cong [OF M, of length] by simp
qed

abbreviation framed_area :: "VirtAddr \<Rightarrow> VirtAddr \<Rightarrow> MapPermission \<Rightarrow> MapArea" where
  "framed_area start end perm \<equiv> \<lparr>vpn_range = \<lparr>range_l = va_floor start, range_r = va_ceil end\<rparr>,
     data_frames = [], map_type = Framed, map_perm = perm\<rparr>"

lemma insert_framed_area_added:
  assumes inv: "ms_inv k ms" and le: "va_floor start \<le> va_ceil end"
    and small: "unat (vpn_val (va_ceil end)) - unat (vpn_val (va_floor start)) \<le> 2 ^ 27"
    and un: "\<And>v. va_floor start \<le> v \<Longrightarrow> v < va_ceil end \<Longrightarrow> pt_lookup (mem k) (page_table ms) v = None"
    and free: "3 * (unat (vpn_val (va_ceil end)) - unat (vpn_val (va_floor start))) \<le> free_frames k"
  shows "\<exists>ms' k'. insert_framed_area start end perm ms k = Ok (0, ms', k') \<and>
    area_added k ms (framed_area start end perm) k' ms' \<and>
    free_frames k \<le> free_frames k' + 3 * (unat (vpn_val (va_ceil end)) - unat (vpn_val (va_floor start)))"
proof -
  let ?a = "framed_area start end perm"
  have le': "range_l (vpn_range ?a) \<le> range_r (vpn_range ?a)" using le by simp
  have pg: "set (area_pages ?a) = {v. va_floor start \<le> v \<and> v < va_ceil end}"
    "length (area_pages ?a) = unat (vpn_val (va_ceil end)) - unat (vpn_val (va_floor start))"
    using range_pages [OF le'] by simp_all
  have d: "distinct (map vkey (area_pages ?a))" using range_vkeys_distinct [OF le'] small by simp
  obtain ms' k' where push: "ms_push ?a None ms k = Ok (0, ms', k')" and add: "area_added k ms ?a k' ms'"
    and f: "free_frames k \<le> free_frames k' + 3 * length (area_pages ?a)"
    using ms_push_framed [OF inv _ _ le' d] un free pg by auto
  have "insert_framed_area start end perm ms k = Ok (0, ms', k')"
    using le push by (simp add: insert_framed_area_def area_new_def range_new_def)
  then show ?thesis using add f unfolding pg(2) by blast
qed

text \<open>C4: inserting a framed area into a consistent address space, over pages that are not mapped
  and with three free frames for each page, returns 0 and keeps the address space consistent.
  Every page of the range is now mapped, with the permissions asked for, to a frame that was free
  before and reads as zeros; every other mapping, and all memory that was in use outside the page
  table, is as it was.\<close>

theorem insert_framed_area_maps_zeroed_pages:
  assumes inv: "ms_inv k ms" and le: "va_floor start \<le> va_ceil end"
    and small: "unat (vpn_val (va_ceil end)) - unat (vpn_val (va_floor start)) \<le> 2 ^ 27"
    and un: "\<And>v. va_floor start \<le> v \<Longrightarrow> v < va_ceil end \<Longrightarrow> pt_lookup (mem k) (page_table ms) v = None"
    and free: "3 * (unat (vpn_val (va_ceil end)) - unat (vpn_val (va_floor start))) \<le> free_frames k"
  shows "\<exists>ms' k'. insert_framed_area start end perm ms k = Ok (0, ms', k') \<and> ms_inv k' ms' \<and>
    (\<forall>v. va_floor start \<le> v \<and> v < va_ceil end \<longrightarrow>
       (\<exists>p. pt_lookup (mem k') (page_table ms') v = Some (pte_new p (perm OR PTE_V)) \<and>
            p \<notin> live k \<and> p \<in> live k' \<and> (\<forall>x. frame_of x = p \<longrightarrow> mem k' x = 0))) \<and>
    (\<forall>u. vkey u \<notin> vkey ` {v. va_floor start \<le> v \<and> v < va_ceil end} \<longrightarrow>
       pt_lookup (mem k') (page_table ms') u = pt_lookup (mem k) (page_table ms) u) \<and>
    (\<forall>x. frame_of x \<in> live k - table_frames (page_table ms) \<longrightarrow> mem k' x = mem k x)"
proof -
  let ?a = "framed_area start end perm"
  obtain ms' k' where ins: "insert_framed_area start end perm ms k = Ok (0, ms', k')" and add: "area_added k ms ?a k' ms'"
    using insert_framed_area_added [OF assms] by blast
  have pg: "set (area_pages ?a) = {v. va_floor start \<le> v \<and> v < va_ceil end}"
    using range_pages [of "vpn_range ?a"] le by simp
  have "ms_inv k' ms'" using add by (simp add: area_added_def)
  then show ?thesis
    using area_added_page [OF add] area_added_keeps [OF add] add ins pg
    by (intro exI [of _ ms'] exI [of _ k']) (simp add: area_added_def)
qed

definition demo_ms :: MemorySet where
  "demo_ms = \<lparr>page_table = demo_pt, areas = []\<rparr>"

lemma demo_ms_inv: "ms_inv demo_k demo_ms"
  using demo_inv by (simp add: ms_inv_def demo_ms_def ms_pages_def ms_frames_def)

lemma demo_ms_lookup: "pt_lookup (mem demo_k) (page_table demo_ms) v = None"
  using demo_inv [of v] by (simp add: demo_ms_def)

lemmas demo_pages = va_floor_def va_ceil_def PAGE_SIZE_def less_eq_VirtPageNum_def less_VirtPageNum_def demo_free

theorem insert_framed_area_maps_zeroed_pages_witness:
  "ms_inv demo_k demo_ms \<and>
   (\<exists>ms' k'. insert_framed_area (VirtAddr 0x10000) (VirtAddr 0x11800) MP_R demo_ms demo_k = Ok (0, ms', k') \<and>
      (\<exists>p. pt_lookup (mem k') (page_table ms') (VirtPageNum 0x11) = Some (pte_new p (MP_R OR PTE_V))))"
proof -
  have "\<exists>ms' k'. insert_framed_area (VirtAddr 0x10000) (VirtAddr 0x11800) MP_R demo_ms demo_k = Ok (0, ms', k') \<and> ms_inv k' ms' \<and>
    (\<forall>v. va_floor (VirtAddr 0x10000) \<le> v \<and> v < va_ceil (VirtAddr 0x11800) \<longrightarrow>
       (\<exists>p. pt_lookup (mem k') (page_table ms') v = Some (pte_new p (MP_R OR PTE_V)) \<and>
            p \<notin> live demo_k \<and> p \<in> live k' \<and> (\<forall>x. frame_of x = p \<longrightarrow> mem k' x = 0)))"
    using insert_framed_area_maps_zeroed_pages [OF demo_ms_inv, of "VirtAddr 0x10000" "VirtAddr 0x11800" MP_R] demo_ms_lookup
    by (simp add: demo_pages) blast
  moreover have "va_floor (VirtAddr 0x10000) \<le> VirtPageNum 0x11 \<and> VirtPageNum 0x11 < va_ceil (VirtAddr 0x11800)"
    by (simp add: demo_pages)
  ultimately show ?thesis using demo_ms_inv by blast
qed

lemma demo_insert:
  "\<exists>ms k. insert_framed_area (VirtAddr 0x10000) (VirtAddr 0x11800) MP_R demo_ms demo_k = Ok (0, ms, k) \<and>
     area_added demo_k demo_ms (framed_area (VirtAddr 0x10000) (VirtAddr 0x11800) MP_R) k ms \<and> 0x7000 \<le> free_frames k"
proof -
  have c: "va_floor (VirtAddr 0x10000) \<le> va_ceil (VirtAddr 0x11800)"
    "unat (vpn_val (va_ceil (VirtAddr 0x11800))) - unat (vpn_val (va_floor (VirtAddr 0x10000))) = 2"
    by (simp_all add: demo_pages)
  then show ?thesis
    using insert_framed_area_added [OF demo_ms_inv c(1), of MP_R, unfolded c(2) demo_free] demo_ms_lookup by fastforce
qed

section \<open>Giving frames back\<close>

lemma ft_ppn_in_image: "ft_ppn t \<in> ft_ppn ` A \<longleftrightarrow> t \<in> A"
  using FrameTracker.expand by blast

lemma drop_trackers:
  assumes "mm_inv k" and "distinct ts" and "ft_ppn ` set ts \<subseteq> live k"
  shows "\<exists>k'. for_each drop_tracker ts k = Ok k' \<and> mm_inv k' \<and> live k' = live k - ft_ppn ` set ts \<and> mem k' = mem k"
  using assms
proof (induction ts arbitrary: k)
  case (Cons t ts)
  have "ft_ppn t \<in> live k" using Cons.prems(3) by simp
  then obtain k1 where d: "frame_dealloc (ft_ppn t) k = Ok k1" "mm_inv k1" "live k1 = live k - {ft_ppn t}" "mem k1 = mem k"
    using frame_dealloc_live [OF Cons.prems(1)] by blast
  have "ft_ppn t \<notin> ft_ppn ` set ts" "ft_ppn ` set ts \<subseteq> live k"
    using Cons.prems(2,3) by (simp_all add: ft_ppn_in_image)
  then have sub: "ft_ppn ` set ts \<subseteq> live k1" unfolding d(3) by blast
  have "distinct ts" using Cons.prems(2) by simp
  then obtain k' where k': "for_each drop_tracker ts k1 = Ok k'" "mm_inv k'" "live k' = live k1 - ft_ppn ` set ts" "mem k' = mem k1"
    using Cons.IH [OF d(2) _ sub] by blast
  have "for_each drop_tracker (t # ts) k = Ok k'" using d(1) k'(1) by (simp add: drop_tracker_def)
  moreover have "live k' = live k - ft_ppn ` set (t # ts)" unfolding k'(3) d(3) by auto
  ultimately show ?case using d(4) k'(2,4) by metis
qed simp

text \<open>Unmapping the first page of a framed area gives its frame back and removes its mapping.\<close>

lemma unmap_one_framed:
  assumes inv: "pt_inv k pt" and a: "map_type a = Framed" "data_frames a = (v, t) # df"
    and t: "ft_ppn t \<in> live k" "ft_ppn t \<notin> table_frames pt" and e: "pt_lookup (mem k) pt v = Some e"
  shows "\<exists>k'. unmap_one a pt v k = Ok (a\<lparr>data_frames := df\<rparr>, pt, k') \<and> pt_inv k' pt \<and>
    live k' = live k - {ft_ppn t} \<and> (\<forall>x. frame_of x \<notin> table_frames pt \<longrightarrow> mem k' x = mem k x) \<and>
    (\<forall>u. pt_lookup (mem k') pt u = (if vkey u = vkey v then None else pt_lookup (mem k) pt u))"
proof -
  obtain k1 where d: "frame_dealloc (ft_ppn t) k = Ok k1" "mm_inv k1" "live k1 = live k - {ft_ppn t}" "mem k1 = mem k"
    using frame_dealloc_live [OF pt_inv_mm [OF inv] t(1)] by blast
  have "table_frames pt \<subseteq> live k" using inv by (simp add: pt_inv_def)
  then have sub: "table_frames pt \<subseteq> live k1" unfolding d(3) using t(2) by blast
  have inv1: "pt_inv k1 pt" by (rule pt_inv_cong(1) [OF inv d(2) sub]) (simp add: d(4))
  have e1: "pt_lookup (mem k1) pt v = Some e" using e d(4) by simp
  obtain k' where u: "pt_unmap pt v k1 = Ok (pt, k')" "pt_evolves k1 pt k' pt" "FRAME_ALLOCATOR k' = FRAME_ALLOCATOR k1"
    "\<forall>u. pt_lookup (mem k') pt u = (if vkey u = vkey v then None else pt_lookup (mem k1) pt u)"
    using pt_unmap_mapped [OF inv1 e1] by blast
  have "unmap_one a pt v k = Ok (a\<lparr>data_frames := df\<rparr>, pt, k')"
    using a d(1) u(1) by (simp add: unmap_one_def drop_option_def bt_get_def drop_tracker_def)
  moreover have "pt_inv k' pt" "\<forall>x. frame_of x \<notin> table_frames pt \<longrightarrow> mem k' x = mem k x"
    using u(2) d(4) by (simp_all add: pt_evolves_def)
  moreover have "live k' = live k - {ft_ppn t}" using u(3) d(3) by simp
  ultimately show ?thesis using u(4) d(4) by metis
qed

lemma area_unmap_loop_framed:
  assumes "pt_inv k pt" and "map_type a = Framed" and "map fst (data_frames a) = vs" and "distinct (map vkey vs)"
    and "distinct (area_frames a)" and "set (area_frames a) \<subseteq> live k" and "set (area_frames a) \<inter> table_frames pt = {}"
    and "\<forall>v \<in> set vs. pt_lookup (mem k) pt v \<noteq> None"
  shows "\<exists>k'. area_unmap_loop vs a pt k = Ok (a\<lparr>data_frames := []\<rparr>, pt, k') \<and> pt_inv k' pt \<and>
    live k' = live k - set (area_frames a) \<and> (\<forall>x. frame_of x \<notin> table_frames pt \<longrightarrow> mem k' x = mem k x) \<and>
    (\<forall>u. pt_lookup (mem k') pt u = (if vkey u \<in> vkey ` set vs then None else pt_lookup (mem k) pt u))"
  using assms
proof (induction vs arbitrary: a k)
  case Nil
  then show ?case by (simp add: area_frames_def)
next
  case (Cons v vs)
  then obtain t df where df: "data_frames a = (v, t) # df" "map fst df = vs" by auto
  define a1 where "a1 = a\<lparr>data_frames := df\<rparr>"
  have fr: "area_frames a = ft_ppn t # area_frames a1" by (simp add: area_frames_def df a1_def)
  obtain e where "pt_lookup (mem k) pt v = Some e" using Cons.prems(8) by auto
  then obtain k1 where u: "unmap_one a pt v k = Ok (a1, pt, k1)" "pt_inv k1 pt" "live k1 = live k - {ft_ppn t}"
    "\<forall>x. frame_of x \<notin> table_frames pt \<longrightarrow> mem k1 x = mem k x"
    "\<forall>u. pt_lookup (mem k1) pt u = (if vkey u = vkey v then None else pt_lookup (mem k) pt u)"
    using unmap_one_framed [OF Cons.prems(1,2) df(1)] Cons.prems(6,7) unfolding fr a1_def by auto
  have un: "\<forall>u \<in> set vs. pt_lookup (mem k1) pt u \<noteq> None" using u(5) Cons.prems(4,8) by (auto simp: image_iff)
  have "\<exists>k'. area_unmap_loop vs a1 pt k1 = Ok (a1\<lparr>data_frames := []\<rparr>, pt, k') \<and> pt_inv k' pt \<and>
    live k' = live k1 - set (area_frames a1) \<and> (\<forall>x. frame_of x \<notin> table_frames pt \<longrightarrow> mem k' x = mem k1 x) \<and>
    (\<forall>u. pt_lookup (mem k') pt u = (if vkey u \<in> vkey ` set vs then None else pt_lookup (mem k1) pt u))"
    using Cons.prems u(2,3) un df(2) unfolding fr by (intro Cons.IH) (auto simp: a1_def)
  then obtain k' where k': "area_unmap_loop vs a1 pt k1 = Ok (a1\<lparr>data_frames := []\<rparr>, pt, k')" "pt_inv k' pt"
    "live k' = live k1 - set (area_frames a1)" "\<forall>x. frame_of x \<notin> table_frames pt \<longrightarrow> mem k' x = mem k1 x"
    "\<forall>u. pt_lookup (mem k') pt u = (if vkey u \<in> vkey ` set vs then None else pt_lookup (mem k1) pt u)"
    by blast
  have "area_unmap_loop (v # vs) a pt k = Ok (a\<lparr>data_frames := []\<rparr>, pt, k')" using u(1) k'(1) by (simp add: a1_def)
  moreover have "live k' = live k - set (area_frames a)" using k'(3) u(3) by (auto simp: fr)
  moreover have "\<forall>u. pt_lookup (mem k') pt u = (if vkey u \<in> vkey ` set (v # vs) then None else pt_lookup (mem k) pt u)"
    using k'(5) u(5) by simp
  ultimately show ?case using k'(2,4) u(4) by metis
qed

lemma distinct_concat_nth:
  assumes "i < length xs" and "distinct (concat (map f xs))"
  shows "distinct (f (xs ! i))" and "distinct (concat (map f (remove_nth i xs)))"
    and "set (f (xs ! i)) \<inter> set (concat (map f (remove_nth i xs))) = {}"
proof -
  define ys zs where "ys = take i xs" and "zs = drop (Suc i) xs"
  have xs: "xs = ys @ xs ! i # zs" unfolding ys_def zs_def by (rule remove_nth_split [OF assms(1)])
  have "distinct (concat (map f (ys @ xs ! i # zs)))" using assms(2) xs by simp
  then show "distinct (f (xs ! i))" "distinct (concat (map f (remove_nth i xs)))"
    "set (f (xs ! i)) \<inter> set (concat (map f (remove_nth i xs))) = {}"
    unfolding remove_nth_def ys_def [symmetric] zs_def [symmetric] by auto
qed

lemma ms_inv_areas:
  assumes "ms_inv k ms" and "i < length (areas ms)"
  shows "area_mapped (mem k) (page_table ms) (areas ms ! i)"
    and "distinct (map vkey (area_pages (areas ms ! i)))" and "distinct (area_frames (areas ms ! i))"
    and "set (area_frames (areas ms ! i)) \<subseteq> live k"
    and "set (area_frames (areas ms ! i)) \<inter> table_frames (page_table ms) = {}"
proof -
  have d: "distinct (concat (map (\<lambda>a. map vkey (area_pages a)) (areas ms)))" "distinct (concat (map area_frames (areas ms)))"
    using assms(1) by (simp_all add: ms_inv_def ms_pages_def ms_frames_def map_concat comp_def)
  show "distinct (map vkey (area_pages (areas ms ! i)))" by (rule distinct_concat_nth(1) [OF assms(2) d(1)])
  show "distinct (area_frames (areas ms ! i))" by (rule distinct_concat_nth(1) [OF assms(2) d(2)])
  have "set (area_frames (areas ms ! i)) \<subseteq> set (ms_frames ms)" using nth_mem [OF assms(2)] by (auto simp: ms_frames_def)
  then show "set (area_frames (areas ms ! i)) \<subseteq> live k"
    "set (area_frames (areas ms ! i)) \<inter> table_frames (page_table ms) = {}"
    using assms(1) unfolding ms_inv_def by blast+
  show "area_mapped (mem k) (page_table ms) (areas ms ! i)" using assms by (simp add: ms_inv_def)
qed

lemma ms_inv_remove:
  assumes inv: "ms_inv k ms" and i: "i < length (areas ms)" and pt: "pt_inv k' (page_table ms)"
    and live: "live k' = live k - set (area_frames (areas ms ! i))"
    and look: "\<And>u. vkey u \<notin> vkey ` set (area_pages (areas ms ! i)) \<Longrightarrow>
        pt_lookup (mem k') (page_table ms) u = pt_lookup (mem k) (page_table ms) u"
  shows "ms_inv k' (ms\<lparr>areas := remove_nth i (areas ms)\<rparr>)"
proof -
  let ?ms = "ms\<lparr>areas := remove_nth i (areas ms)\<rparr>" and ?a = "areas ms ! i"
  have d: "distinct (concat (map (\<lambda>a. map vkey (area_pages a)) (areas ms)))" "distinct (concat (map area_frames (areas ms)))"
    using inv by (simp_all add: ms_inv_def ms_pages_def ms_frames_def map_concat comp_def)
  note pages = distinct_concat_nth [OF i d(1)] and frs = distinct_concat_nth [OF i d(2)]
  have sub: "set (areas ?ms) \<subseteq> set (areas ms)" using set_remove_nth_subset [of i "areas ms"] by simp
  have fsub: "set (ms_frames ?ms) \<subseteq> set (ms_frames ms)" using sub by (auto simp: ms_frames_def)
  have "area_mapped (mem k') (page_table ms) b" if b: "b \<in> set (remove_nth i (areas ms))" for b
  proof (rule area_mapped_step)
    show "area_mapped (mem k) (page_table ms) b" using inv sub b by (auto simp: ms_inv_def)
    fix v assume "v \<in> set (area_pages b)"
    then have "vkey v \<in> set (concat (map (\<lambda>a. map vkey (area_pages a)) (remove_nth i (areas ms))))"
      using b by auto
    then have "vkey v \<notin> set (map vkey (area_pages ?a))" using pages(3) by blast
    then show "pt_lookup (mem k') (page_table ms) v = pt_lookup (mem k) (page_table ms) v" using look by simp
  qed
  moreover have "set (area_frames ?a) \<inter> set (ms_frames ?ms) = {}" using frs(3) by (simp add: ms_frames_def)
  then have "set (ms_frames ?ms) \<subseteq> live k'"
    unfolding live using inv fsub unfolding ms_inv_def by blast
  moreover have "set (ms_frames ?ms) \<inter> table_frames (page_table ms) = {}"
    using inv fsub unfolding ms_inv_def by blast
  ultimately show ?thesis
    using pt pages(2) frs(2) by (simp add: ms_inv_def ms_pages_def ms_frames_def map_concat comp_def)
qed

lemma remove_area_at_framed:
  assumes inv: "ms_inv k ms" and i: "i < length (areas ms)" and ty: "map_type (areas ms ! i) = Framed"
  shows "\<exists>k'. remove_area_at i ms k = Ok (ms\<lparr>areas := remove_nth i (areas ms)\<rparr>, k') \<and>
    ms_inv k' (ms\<lparr>areas := remove_nth i (areas ms)\<rparr>) \<and> live k' = live k - set (area_frames (areas ms ! i)) \<and>
    (\<forall>x. frame_of x \<notin> table_frames (page_table ms) \<longrightarrow> mem k' x = mem k x) \<and>
    (\<forall>u. pt_lookup (mem k') (page_table ms) u =
       (if vkey u \<in> vkey ` set (area_pages (areas ms ! i)) then None else pt_lookup (mem k) (page_table ms) u))"
proof -
  let ?a = "areas ms ! i"
  note a = ms_inv_areas [OF inv i]
  have pt: "pt_inv k (page_table ms)" using inv by (simp add: ms_inv_def)
  have keys: "map fst (data_frames ?a) = area_pages ?a" using a(1) ty by (simp add: area_mapped_def)
  have mapped: "\<forall>v \<in> set (area_pages ?a). pt_lookup (mem k) (page_table ms) v \<noteq> None"
    using ms_page_mapped [OF inv] i by (force simp: ms_pages_def)
  obtain k' where k': "area_unmap_loop (area_pages ?a) ?a (page_table ms) k = Ok (?a\<lparr>data_frames := []\<rparr>, page_table ms, k')"
    "pt_inv k' (page_table ms)" "live k' = live k - set (area_frames ?a)"
    "\<forall>x. frame_of x \<notin> table_frames (page_table ms) \<longrightarrow> mem k' x = mem k x"
    "\<forall>u. pt_lookup (mem k') (page_table ms) u =
       (if vkey u \<in> vkey ` set (area_pages ?a) then None else pt_lookup (mem k) (page_table ms) u)"
    using area_unmap_loop_framed [OF pt ty keys a(2-5) mapped] by blast
  have "remove_area_at i ms k = Ok (ms\<lparr>areas := remove_nth i (areas ms)\<rparr>, k')"
    using k'(1) by (simp add: remove_area_at_def area_unmap_def drop_area_def)
  moreover have "ms_inv k' (ms\<lparr>areas := remove_nth i (areas ms)\<rparr>)"
    by (rule ms_inv_remove [OF inv i k'(2,3)]) (simp add: k'(5))
  ultimately show ?thesis using k'(3-5) by blast
qed

lemma word_length_eq:
  fixes l r s e :: "'a::len word"
  assumes "l \<le> r" and "s \<le> l" and "r \<le> e"
  shows "r - l = e - s \<longleftrightarrow> unat r - unat l = unat e - unat s"
proof -
  have "unat (r - l) = unat r - unat l" by (rule unat_sub [OF assms(1)])
  moreover have "unat (e - s) = unat e - unat s" by (rule unat_sub) (use assms in order)
  ultimately show ?thesis by (metis word_unat_eq_iff)
qed

text \<open>C5: \<open>remove_framed_area\<close> (\<open>munmap\<close>) takes the first area that lies inside the range, if there is
  one. It then returns, having removed exactly the mappings of that area and given exactly its
  frames back; the address space stays consistent and no other memory changes. It answers 0 only
  if that area is as long as the range. If no area lies inside, nothing changes.\<close>

theorem remove_framed_area_frees_one_area:
  assumes "ms_inv k ms" and "\<forall>a \<in> set (areas ms). map_type a = Framed"
  shows "case find_index (\<lambda>a. va_floor start \<le> range_l (vpn_range a) \<and> range_r (vpn_range a) \<le> va_ceil end) (areas ms) of
      None \<Rightarrow> remove_framed_area start end ms k = Ok (if va_floor start = va_ceil end then 0 else - 1, ms, k)
    | Some i \<Rightarrow> \<exists>ms' k'. remove_framed_area start end ms k =
          Ok (if length (area_pages (areas ms ! i)) = unat (vpn_val (va_ceil end)) - unat (vpn_val (va_floor start))
              then 0 else - 1, ms', k') \<and>
        ms_inv k' ms' \<and> areas ms' = remove_nth i (areas ms) \<and> page_table ms' = page_table ms \<and>
        live k' = live k - set (area_frames (areas ms ! i)) \<and>
        (\<forall>x. frame_of x \<notin> table_frames (page_table ms) \<longrightarrow> mem k' x = mem k x) \<and>
        (\<forall>u. pt_lookup (mem k') (page_table ms') u =
           (if vkey u \<in> vkey ` set (area_pages (areas ms ! i)) then None else pt_lookup (mem k) (page_table ms) u))"
proof (cases "find_index (\<lambda>a. va_floor start \<le> range_l (vpn_range a) \<and> range_r (vpn_range a) \<le> va_ceil end) (areas ms)")
  case None
  then show ?thesis by (simp add: remove_framed_area_def less_eq_VirtPageNum_def vpn_eq_conv)
next
  case (Some i)
  then have i: "i < length (areas ms)" and inside: "va_floor start \<le> range_l (vpn_range (areas ms ! i))"
    "range_r (vpn_range (areas ms ! i)) \<le> va_ceil end" by (auto simp: find_index_Some)
  have le: "range_l (vpn_range (areas ms ! i)) \<le> range_r (vpn_range (areas ms ! i))"
    using ms_inv_areas(1) [OF assms(1) i] by (simp add: area_mapped_def)
  have same: "vpn_val (range_r (vpn_range (areas ms ! i))) - vpn_val (range_l (vpn_range (areas ms ! i))) =
      vpn_val (va_ceil end) - vpn_val (va_floor start) \<longleftrightarrow>
      length (area_pages (areas ms ! i)) = unat (vpn_val (va_ceil end)) - unat (vpn_val (va_floor start))"
    using word_length_eq [of "vpn_val (range_l (vpn_range (areas ms ! i)))" "vpn_val (range_r (vpn_range (areas ms ! i)))"
        "vpn_val (va_floor start)" "vpn_val (va_ceil end)"] le inside
    unfolding range_pages(2) [OF le] less_eq_VirtPageNum_def by blast
  obtain k' where k': "remove_area_at i ms k = Ok (ms\<lparr>areas := remove_nth i (areas ms)\<rparr>, k')"
    "ms_inv k' (ms\<lparr>areas := remove_nth i (areas ms)\<rparr>)" "live k' = live k - set (area_frames (areas ms ! i))"
    "\<forall>x. frame_of x \<notin> table_frames (page_table ms) \<longrightarrow> mem k' x = mem k x"
    "\<forall>u. pt_lookup (mem k') (page_table ms) u =
       (if vkey u \<in> vkey ` set (area_pages (areas ms ! i)) then None else pt_lookup (mem k) (page_table ms) u)"
    using remove_area_at_framed [OF assms(1) i] assms(2) i by (metis nth_mem)
  have "remove_framed_area start end ms k =
      Ok (if length (area_pages (areas ms ! i)) = unat (vpn_val (va_ceil end)) - unat (vpn_val (va_floor start))
          then 0 else - 1, ms\<lparr>areas := remove_nth i (areas ms)\<rparr>, k')"
    using Some k'(1) same by (simp add: remove_framed_area_def less_eq_VirtPageNum_def Let_def)
  then show ?thesis
    unfolding Some option.case using k'(2-5)
    by (intro exI [of _ "ms\<lparr>areas := remove_nth i (areas ms)\<rparr>"] exI [of _ k']) simp
qed

theorem remove_framed_area_frees_one_area_witness:
  "\<exists>ms k ms' k'. insert_framed_area (VirtAddr 0x10000) (VirtAddr 0x11800) MP_R demo_ms demo_k = Ok (0, ms, k) \<and>
     ms_inv k ms \<and> pt_lookup (mem k) (page_table ms) (VirtPageNum 0x11) \<noteq> None \<and>
     remove_framed_area (VirtAddr 0x10000) (VirtAddr 0x12000) ms k = Ok (0, ms', k') \<and>
     pt_lookup (mem k') (page_table ms') (VirtPageNum 0x11) = None"
proof -
  let ?a = "framed_area (VirtAddr 0x10000) (VirtAddr 0x11800) MP_R"
  obtain ms k where ins: "insert_framed_area (VirtAddr 0x10000) (VirtAddr 0x11800) MP_R demo_ms demo_k = Ok (0, ms, k)"
    and add: "area_added demo_k demo_ms ?a k ms" using demo_insert by blast
  obtain ts where ar: "areas ms = [?a\<lparr>data_frames := zip (area_pages ?a) ts\<rparr>]" and inv: "ms_inv k ms"
    using add by (auto simp: area_added_def demo_ms_def)
  have pg: "VirtPageNum 0x11 \<in> set (area_pages ?a)" "length (area_pages ?a) = 2"
    using range_pages [of "vpn_range ?a"] by (simp_all add: demo_pages)
  have l: "pt_lookup (mem k) (page_table ms) (VirtPageNum 0x11) \<noteq> None"
    using area_added_page [OF add _ pg(1)] by auto
  have "find_index (\<lambda>a. va_floor (VirtAddr 0x10000) \<le> range_l (vpn_range a) \<and> range_r (vpn_range a) \<le> va_ceil (VirtAddr 0x12000))
      (areas ms) = Some 0" by (simp add: ar demo_pages)
  moreover have "\<forall>a \<in> set (areas ms). map_type a = Framed" by (simp add: ar)
  ultimately obtain r ms' k' where rm: "remove_framed_area (VirtAddr 0x10000) (VirtAddr 0x12000) ms k = Ok (r, ms', k')"
    and r: "r = (if length (area_pages (areas ms ! 0)) = unat (vpn_val (va_ceil (VirtAddr 0x12000))) -
              unat (vpn_val (va_floor (VirtAddr 0x10000))) then 0 else - 1)"
    and look: "\<forall>u. pt_lookup (mem k') (page_table ms') u =
        (if vkey u \<in> vkey ` set (area_pages (areas ms ! 0)) then None else pt_lookup (mem k) (page_table ms) u)"
    using remove_framed_area_frees_one_area [OF inv, of "VirtAddr 0x10000" "VirtAddr 0x12000"] by auto
  have ap: "area_pages (areas ms ! 0) = area_pages ?a" by (simp add: ar)
  have "r = 0" unfolding r ap pg(2) by (simp add: demo_pages)
  moreover have "pt_lookup (mem k') (page_table ms') (VirtPageNum 0x11) = None"
    using look imageI [OF pg(1), of vkey] unfolding ap by presburger
  ultimately show ?thesis using ins inv l rm by blast
qed

lemma for_each_drop_area:
  "for_each drop_area as k = for_each drop_tracker (concat (map (\<lambda>a. map snd (data_frames a)) as)) k"
proof (induction as arbitrary: k)
  case (Cons a as)
  then have "for_each drop_area as = for_each drop_tracker (concat (map (\<lambda>a. map snd (data_frames a)) as))" by blast
  then show ?case by (simp add: drop_area_def [of a] for_each_append)
qed simp

text \<open>C6: dropping a consistent address space never panics and gives back exactly the frames of its
  page table and of its areas.\<close>

theorem drop_memory_set_frees_its_frames:
  assumes "ms_inv k ms"
  shows "\<exists>k'. drop_memory_set ms k = Ok k' \<and> mm_inv k' \<and> mem k' = mem k \<and>
    live k' = live k - (table_frames (page_table ms) \<union> set (ms_frames ms))"
proof -
  let ?ts = "concat (map (\<lambda>a. map snd (data_frames a)) (areas ms))"
  have fr: "map ft_ppn ?ts = ms_frames ms" by (simp add: ms_frames_def area_frames_def [abs_def] map_concat comp_def)
  then have frs: "ft_ppn ` set ?ts = set (ms_frames ms)" by (metis list.set_map)
  have "distinct (map ft_ppn ?ts)" using assms unfolding fr by (simp add: ms_inv_def)
  then have "distinct ?ts" by (metis distinct_map)
  moreover have "set (frames (page_table ms)) \<inter> set ?ts = {}"
    using assms frs unfolding ms_inv_def by blast
  ultimately have "distinct (frames (page_table ms) @ ?ts)" using assms by (auto simp: ms_inv_def pt_inv_def)
  moreover have sub: "ft_ppn ` set (frames (page_table ms) @ ?ts) = table_frames (page_table ms) \<union> set (ms_frames ms)"
    unfolding set_append image_Un frs ..
  moreover have "table_frames (page_table ms) \<union> set (ms_frames ms) \<subseteq> live k" "mm_inv k"
    using assms by (auto simp: ms_inv_def pt_inv_def)
  ultimately show ?thesis
    using drop_trackers [of k "frames (page_table ms) @ ?ts"]
    unfolding drop_memory_set_def for_each_drop_area [abs_def] for_each_append by metis
qed

theorem drop_memory_set_frees_its_frames_witness:
  "\<exists>ms k k'. insert_framed_area (VirtAddr 0x10000) (VirtAddr 0x11800) MP_R demo_ms demo_k = Ok (0, ms, k) \<and>
     ms_inv k ms \<and> drop_memory_set ms k = Ok k' \<and> root_ppn demo_pt \<notin> live k'"
proof -
  obtain ms k where ins: "insert_framed_area (VirtAddr 0x10000) (VirtAddr 0x11800) MP_R demo_ms demo_k = Ok (0, ms, k)"
    and add: "area_added demo_k demo_ms (framed_area (VirtAddr 0x10000) (VirtAddr 0x11800) MP_R) k ms" using demo_insert by blast
  have inv: "ms_inv k ms" and r: "root_ppn (page_table ms) = root_ppn demo_pt"
    using add space_stepD(2) by (auto simp: area_added_def demo_ms_def)
  then have "root_ppn demo_pt \<in> table_frames (page_table ms)" by (simp add: ms_inv_def pt_inv_def)
  then show ?thesis using drop_memory_set_frees_its_frames [OF inv] ins inv by blast
qed

end
