(* ===== verification/AddressSpaces.thy ===== *)
theory AddressSpaces
  imports MemorySetInv
begin

text \<open>
  What \<open>src/os/src/mm/memory_set.rs\<close> does with whole address spaces. \<open>from_existed_user\<close>, the copy
  that \<open>fork\<close> makes: it gives the child a consistent address space with the parent's pages, the
  same contents and frames of its own. And the failing path of \<open>push\<close>: inserting an area over a
  page that is mapped leaves mappings to frames that were given back.
\<close>

section \<open>An insertion that runs into a mapped page\<close>

lemma area_map_loop_append:
  "area_map_loop us a pt k = Ok (0, a1, pt1, k1) \<Longrightarrow> area_map_loop (us @ vs) a pt k = area_map_loop vs a1 pt1 k1"
  by (induction us arbitrary: a pt k) (auto split: if_splits)

text \<open>Mapping a page that is mapped already allocates a frame and answers -1.\<close>

lemma map_one_framed_mapped:
  assumes inv: "pt_inv k pt" and ty: "map_type area = Framed" and above: "\<forall>x \<in> set (data_frames area). fst x < v"
    and mapped: "pt_lookup (mem k) pt v = Some e" and free: "3 \<le> free_frames k"
  shows "\<exists>t pt' k'. map_one area pt v k = Ok (- 1, area\<lparr>data_frames := data_frames area @ [(v, t)]\<rparr>, pt', k') \<and>
    space_step k pt k' pt' {ft_ppn t} \<and> (\<forall>u. pt_lookup (mem k') pt' u = pt_lookup (mem k) pt u)"
proof -
  obtain t k1 where a: "frame_alloc k = (Some t, k1)" "free_frames k1 = free_frames k - 1"
    using frame_alloc_enough [OF pt_inv_mm [OF inv]] free by auto
  note s1 = alloc_space_step [OF a(1) inv]
  have inv1: "pt_inv k1 pt" by (rule space_stepD(1) [OF s1(1)])
  have free1: "2 \<le> free_frames k1" using a(2) free by simp
  obtain r pt' k' where m: "pt_map pt v (ft_ppn t) (map_perm area) k1 = Ok (r, pt', k')"
    using pt_map_total [OF pt_inv_mm [OF inv1] free1] by blast
  have ok: "pt_evolves k1 pt k' pt'" "r = - 1" and look: "\<forall>u. pt_lookup (mem k') pt' u = pt_lookup (mem k) pt u"
    using pt_map_Ok [OF inv1 m] by (simp_all add: s1(2) mapped)
  have "space_step k pt k' pt' ({ft_ppn t} \<union> {})"
    by (rule space_step_trans(1) [OF s1(1) pt_evolves_space_step [OF ok(1)]])
  moreover have "map_one area pt v k = Ok (- 1, area\<lparr>data_frames := data_frames area @ [(v, t)]\<rparr>, pt', k')"
    using m ok(2) a(1) ty above
    by (simp add: map_one_def frame_alloc_unwrap_def drop_option_def bt_get_above bt_insert_append)
  ultimately show ?thesis using look by auto
qed

text \<open>The area's pages are \<open>us\<close>, all unmapped, then a mapped page \<open>w\<close>: the call answers -1, drops the area
  with all its frames, and the pages \<open>us\<close> stay mapped.\<close>

lemma push_overlap:
  assumes inv: "pt_inv k (page_table ms)" and a: "map_type a = Framed" "data_frames a = []"
    and r: "range_l (vpn_range a) \<le> range_r (vpn_range a)" and pages: "area_pages a = us @ w # ws"
    and d: "distinct (map vkey us)" and w: "vkey w \<notin> vkey ` set us" "pt_lookup (mem k) (page_table ms) w \<noteq> None"
    and un: "\<forall>u \<in> set us. pt_lookup (mem k) (page_table ms) u = None"
    and free: "3 * length us + 3 \<le> free_frames k"
  shows "\<exists>ms' k'. ms_push a None ms k = Ok (- 1, ms', k') \<and> areas ms' = areas ms \<and>
    (\<forall>u \<in> set us. \<exists>e. pt_lookup (mem k') (page_table ms') u = Some e \<and> pte_ppn e \<notin> live k \<and> pte_ppn e \<notin> live k')"
proof -
  have so: "sorted_wrt (<) (map fst (data_frames a) @ us)" "\<forall>u \<in> set us. u < w"
    using sorted_range_list [OF r] a(2) unfolding pages by (auto simp: sorted_wrt_append)
  have fu: "3 * length us \<le> free_frames k" using free by simp
  obtain ts pt1 k1 where m: "area_map_loop us a (page_table ms) k = Ok (0, a\<lparr>data_frames := data_frames a @ zip us ts\<rparr>, pt1, k1)"
    and n: "length ts = length us" "distinct ts" and s1: "space_step k (page_table ms) k1 pt1 (ft_ppn ` set ts)"
    and f: "free_frames k \<le> free_frames k1 + 3 * length us"
    and l: "\<forall>(v, t) \<in> set (zip us ts). pt_lookup (mem k1) pt1 v = Some (pte_new (ft_ppn t) (map_perm a OR PTE_V))"
      "\<forall>u. vkey u \<notin> vkey ` set us \<longrightarrow> pt_lookup (mem k1) pt1 u = pt_lookup (mem k) (page_table ms) u"
    using area_map_loop_framed [OF inv a(1) so(1) un d fu] by blast
  define a1 where "a1 = a\<lparr>data_frames := zip us ts\<rparr>"
  have "\<forall>x \<in> set (data_frames a1). fst x < w" using so(2) by (auto simp: a1_def dest: set_zip_leftD)
  moreover obtain e where e: "pt_lookup (mem k1) pt1 w = Some e" using l(2) w by auto
  ultimately obtain t pt2 k2 where m2: "map_one a1 pt1 w k1 = Ok (- 1, a1\<lparr>data_frames := data_frames a1 @ [(w, t)]\<rparr>, pt2, k2)"
    and s2: "space_step k1 pt1 k2 pt2 {ft_ppn t}" and l2: "\<forall>u. pt_lookup (mem k2) pt2 u = pt_lookup (mem k1) pt1 u"
    using map_one_framed_mapped [OF space_stepD(1) [OF s1], of a1 w] a(1) f free by (auto simp: a1_def)
  note s = space_step_trans [OF s1 s2]
  have mm: "mm_inv k2" by (rule pt_inv_mm [OF space_stepD(1) [OF s2]])
  have new: "ft_ppn ` set (ts @ [t]) = ft_ppn ` set ts \<union> {ft_ppn t}" by simp
  have dt: "distinct (ts @ [t])" using n(2) s(2) by auto
  have sub: "ft_ppn ` set (ts @ [t]) \<subseteq> live k2" unfolding new space_stepD(4) [OF s(1)] by blast
  obtain k' where k': "for_each drop_tracker (ts @ [t]) k2 = Ok k'" "live k' = live k2 - ft_ppn ` set (ts @ [t])" "mem k' = mem k2"
    using drop_trackers [OF mm dt sub] by blast
  have "map snd (data_frames (a1\<lparr>data_frames := data_frames a1 @ [(w, t)]\<rparr>)) = ts @ [t]" using n(1) by (simp add: a1_def)
  then have "ms_push a None ms k = Ok (- 1, ms\<lparr>page_table := pt2\<rparr>, k')"
    using area_map_loop_append [OF m, of "w # ws"] m2 k'(1) a(2)
    by (simp add: ms_push_def area_map_def pages drop_area_def a1_def)
  moreover have "\<exists>e. pt_lookup (mem k') pt2 u = Some e \<and> pte_ppn e \<notin> live k \<and> pte_ppn e \<notin> live k'" if u: "u \<in> set us" for u
  proof -
    obtain t' where t': "(u, t') \<in> set (zip us ts)" using u n(1) by (metis in_set_impl_in_set_zip1)
    then have T: "ft_ppn t' \<in> ft_ppn ` set ts" by (auto dest: set_zip_rightD)
    then have "frame_ok (ft_ppn t')" using live_frame_ok [OF mm] sub by auto
    then have "pte_ppn (pte_new (ft_ppn t') (map_perm a OR PTE_V)) = ft_ppn t'" by (rule pte_new_ppn)
    moreover have "pt_lookup (mem k') pt2 u = Some (pte_new (ft_ppn t') (map_perm a OR PTE_V))"
      using l(1) l2 t' k'(3) by auto
    moreover have "ft_ppn t' \<notin> live k" using space_stepD(6) [OF s1] T by blast
    moreover have "ft_ppn t' \<notin> live k'" unfolding k'(2) using T by auto
    ultimately show ?thesis by auto
  qed
  ultimately show ?thesis by (intro exI [of _ "ms\<lparr>page_table := pt2\<rparr>"] exI [of _ k']) simp
qed

text \<open>C7: inserting a framed area whose first pages are unmapped and which then runs into a mapped page
  \<open>w\<close> answers -1 and adds no area, but every page before \<open>w\<close> stays mapped to a frame that has been
  given back to the allocator: the process can reach memory that the kernel will hand out again.\<close>

theorem insert_over_mapped_page_dangles:
  assumes inv: "ms_inv k ms" and w: "va_floor start < w" "w < va_ceil end" "pt_lookup (mem k) (page_table ms) w \<noteq> None"
    and un: "\<And>u. va_floor start \<le> u \<Longrightarrow> u < w \<Longrightarrow> pt_lookup (mem k) (page_table ms) u = None"
    and small: "unat (vpn_val (va_ceil end)) - unat (vpn_val (va_floor start)) \<le> 2 ^ 27"
    and free: "3 * (unat (vpn_val (va_ceil end)) - unat (vpn_val (va_floor start))) \<le> free_frames k"
  shows "\<exists>ms' k'. insert_framed_area start end perm ms k = Ok (- 1, ms', k') \<and> areas ms' = areas ms \<and>
    (\<forall>u. va_floor start \<le> u \<and> u < w \<longrightarrow>
       (\<exists>e. pt_lookup (mem k') (page_table ms') u = Some e \<and> pte_ppn e \<notin> live k'))"
proof -
  let ?a = "framed_area start end perm"
  have le: "range_l (vpn_range ?a) \<le> range_r (vpn_range ?a)" using w(1,2) by simp
  have pg: "set (area_pages ?a) = {v. va_floor start \<le> v \<and> v < va_ceil end}"
    "length (area_pages ?a) = unat (vpn_val (va_ceil end)) - unat (vpn_val (va_floor start))"
    using range_pages [OF le] by simp_all
  have d: "distinct (map vkey (area_pages ?a))" using range_vkeys_distinct [OF le] small by simp
  have "w \<in> set (area_pages ?a)" using w(1,2) unfolding pg by simp
  then obtain us ws where sp: "area_pages ?a = us @ w # ws" by (meson split_list)
  have so: "\<forall>u \<in> set us. u < w" "\<forall>v \<in> set ws. w < v"
    using sorted_range_list [OF le] unfolding sp by (auto simp: sorted_wrt_append)
  have us: "set us = {u. va_floor start \<le> u \<and> u < w}"
  proof (rule set_eqI)
    fix u
    have "u \<in> set us \<longleftrightarrow> u \<in> set (area_pages ?a) \<and> u < w" using so unfolding sp by auto
    then show "u \<in> set us \<longleftrightarrow> u \<in> {u. va_floor start \<le> u \<and> u < w}"
      using less_trans [OF _ w(2), of u] unfolding pg mem_Collect_eq by blast
  qed
  have dk: "distinct (map vkey us)" "vkey w \<notin> vkey ` set us" using d unfolding sp by auto
  have fr: "3 * length us + 3 \<le> free_frames k" using free unfolding pg(2) [symmetric] sp by simp
  have pt: "pt_inv k (page_table ms)" using inv by (simp add: ms_inv_def)
  have n: "\<forall>u \<in> set us. pt_lookup (mem k) (page_table ms) u = None" using un unfolding us by simp
  have ty: "map_type ?a = Framed" "data_frames ?a = []" by simp_all
  obtain ms' k' where push: "ms_push ?a None ms k = Ok (- 1, ms', k')" "areas ms' = areas ms"
    "\<forall>u \<in> set us. \<exists>e. pt_lookup (mem k') (page_table ms') u = Some e \<and> pte_ppn e \<notin> live k \<and> pte_ppn e \<notin> live k'"
    using push_overlap [OF pt ty le sp dk w(3) n fr] by blast
  have "insert_framed_area start end perm ms k = Ok (- 1, ms', k')"
    using le push(1) by (simp add: insert_framed_area_def area_new_def range_new_def)
  then show ?thesis using push(2,3) unfolding us by blast
qed

theorem insert_over_mapped_page_dangles_witness:
  "\<exists>ms k ms' k' e. insert_framed_area (VirtAddr 0x10000) (VirtAddr 0x11800) MP_R demo_ms demo_k = Ok (0, ms, k) \<and>
     ms_inv k ms \<and> insert_framed_area (VirtAddr 0xF000) (VirtAddr 0x11800) MP_R ms k = Ok (- 1, ms', k') \<and>
     pt_lookup (mem k') (page_table ms') (VirtPageNum 0xF) = Some e \<and> pte_ppn e \<notin> live k'"
proof -
  let ?a = "framed_area (VirtAddr 0x10000) (VirtAddr 0x11800) MP_R"
  obtain ms k where ins: "insert_framed_area (VirtAddr 0x10000) (VirtAddr 0x11800) MP_R demo_ms demo_k = Ok (0, ms, k)"
    and add: "area_added demo_k demo_ms ?a k ms" and free: "0x7000 \<le> free_frames k" using demo_insert by blast
  have inv: "ms_inv k ms" using add by (simp add: area_added_def)
  have pg: "set (area_pages ?a) = {v. VirtPageNum 16 \<le> v \<and> v < VirtPageNum 18}"
    using range_pages [of "vpn_range ?a"] by (simp add: demo_pages)
  have w: "pt_lookup (mem k) (page_table ms) (VirtPageNum 16) \<noteq> None"
    using area_added_page [OF add _, of "VirtPageNum 16"] pg by (auto simp: demo_pages)
  have st: "va_floor (VirtAddr 0xF000) < VirtPageNum 16" "VirtPageNum 16 < va_ceil (VirtAddr 0x11800)"
    "unat (vpn_val (va_ceil (VirtAddr 0x11800))) - unat (vpn_val (va_floor (VirtAddr 0xF000))) = 3"
    "va_floor (VirtAddr 0xF000) \<le> VirtPageNum 0xF \<and> VirtPageNum 0xF < VirtPageNum 16"
    by (simp_all add: demo_pages)
  have un: "pt_lookup (mem k) (page_table ms) u = None" if "va_floor (VirtAddr 0xF000) \<le> u" "u < VirtPageNum 16" for u
  proof -
    have key: "unat (vkey v) = unat (vpn_val v) mod 2 ^ 27" for v by (simp add: take_bit_eq_mod unat_mod_distrib)
    have "unat (vpn_val u) = 0xF" using that by (simp add: demo_pages word_le_nat_alt word_less_nat_alt)
    moreover have "unat (vpn_val v) = 16 \<or> unat (vpn_val v) = 17" if "v \<in> set (area_pages ?a)" for v
      using that unfolding pg by (auto simp: demo_pages word_le_nat_alt word_less_nat_alt)
    ultimately have ne: "vkey u \<noteq> vkey v" if "v \<in> set (area_pages ?a)" for v
      using that key [of u] key [of v] by fastforce
    have "vkey u \<notin> vkey ` set (area_pages ?a)" by (rule notI, erule imageE, drule ne, simp)
    then have "pt_lookup (mem k) (page_table ms) u = pt_lookup (mem demo_k) (page_table demo_ms) u"
      using add unfolding area_added_def by blast
    then show ?thesis by (simp only: demo_ms_lookup)
  qed
  obtain ms' k' where "insert_framed_area (VirtAddr 0xF000) (VirtAddr 0x11800) MP_R ms k = Ok (- 1, ms', k')"
    "\<forall>u. va_floor (VirtAddr 0xF000) \<le> u \<and> u < VirtPageNum 16 \<longrightarrow>
       (\<exists>e. pt_lookup (mem k') (page_table ms') u = Some e \<and> pte_ppn e \<notin> live k')"
    using insert_over_mapped_page_dangles [OF inv st(1,2) w un, of MP_R, unfolded st(3)] free by auto
  then show ?thesis using ins inv st(4) by blast
qed


end
