(* ===== verification/BlockCache.thy ===== *)
theory BlockCache
  imports Bytes
begin

text \<open>
  \<open>src/easy-fs/src/block_cache.rs\<close> and \<open>block_dev.rs\<close>: block devices, cached blocks and the global
  cache of 16 blocks. A device is a pair of functions on a state \<open>'w\<close> of its own (\<open>dyn BlockDevice\<close>);
  \<open>'w store\<close> is that state together with the global \<open>BLOCK_CACHE_MANAGER\<close>. The code uses a cached
  block only in the form \<open>get_block_cache(id, dev).lock().modify(off, f)\<close> (or \<open>read\<close>): for the time
  \<open>f\<close> runs, the entry is locked and its \<open>Arc\<close> is shared, which is the flag \<open>locked\<close> of the model.
  A closure may use other blocks meanwhile; using its own again spins for ever (\<open>Deadlock\<close>).
\<close>

section \<open>Devices and cached blocks\<close>

definition BLOCK_SZ :: nat where "BLOCK_SZ = 512"

record 'w BlockDevice =
  read_block :: "usize \<Rightarrow> 'w \<Rightarrow> (u8 list \<times> 'w) res"
  write_block :: "usize \<Rightarrow> u8 list \<Rightarrow> 'w \<Rightarrow> 'w res"

record 'w BlockCache =
  cache :: "u8 list"
  block_id :: usize
  block_device :: "'w BlockDevice"
  modified :: bool
  locked :: bool

definition BLOCK_CACHE_SIZE :: nat where "BLOCK_CACHE_SIZE = 16"

record 'w store =
  disk :: 'w
  queue :: "(usize \<times> 'w BlockCache) list"

definition bc_new :: "usize \<Rightarrow> 'w BlockDevice \<Rightarrow> 'w \<Rightarrow> ('w BlockCache \<times> 'w) res" where
  "bc_new bid dev w =
     bindr (read_block dev bid w) (\<lambda>(bytes, w).
       Ok (\<lparr>cache = bytes, block_id = bid, block_device = dev, modified = False, locked = False\<rparr>, w))"

definition bc_sync :: "'w BlockCache \<Rightarrow> 'w \<Rightarrow> ('w BlockCache \<times> 'w) res" where
  "bc_sync e w =
     (if modified e
      then bindr (write_block (block_device e) (block_id e) (cache e) w) (\<lambda>w. Ok (e\<lparr>modified := False\<rparr>, w))
      else Ok (e, w))"

text \<open>\<open>Drop for BlockCache\<close>.\<close>

definition bc_drop :: "'w BlockCache \<Rightarrow> 'w \<Rightarrow> 'w res" where
  "bc_drop e w = bindr (bc_sync e w) (\<lambda>(_, w). Ok w)"

section \<open>The cache manager\<close>

definition manager_new :: "'w \<Rightarrow> 'w store" where
  "manager_new w = \<lparr>disk = w, queue = []\<rparr>"

text \<open>The front-most entry nobody else holds is drained, and with it written back if it is dirty.\<close>

definition substitute :: "'w store \<Rightarrow> 'w store res" where
  "substitute s =
     (if length (queue s) = BLOCK_CACHE_SIZE then
        (case find_index (\<lambda>pair. \<not> locked (snd pair)) (queue s) of
           Some idx \<Rightarrow>
             bindr (bc_drop (snd (queue s ! idx)) (disk s)) (\<lambda>w.
               Ok (s\<lparr>disk := w, queue := remove_nth idx (queue s)\<rparr>))
         | None \<Rightarrow> Panic (Explicit ''Run out of BlockCache!''))
      else Ok s)"

definition get_block_cache :: "'w BlockDevice \<Rightarrow> usize \<Rightarrow> 'w store \<Rightarrow> 'w store res" where
  "get_block_cache dev bid s =
     (case map_of (queue s) bid of
        Some _ \<Rightarrow> Ok s
      | None \<Rightarrow>
          bindr (substitute s) (\<lambda>s.
          bindr (bc_new bid dev (disk s)) (\<lambda>(e, w).
            Ok (s\<lparr>disk := w, queue := queue s @ [(bid, e)]\<rparr>))))"

fun sync_entries :: "(usize \<times> 'w BlockCache) list \<Rightarrow> 'w \<Rightarrow> ((usize \<times> 'w BlockCache) list \<times> 'w) res" where
  "sync_entries [] w = Ok ([], w)"
| "sync_entries ((i, e) # q) w =
     (if locked e then Panic Deadlock
      else bindr (bc_sync e w) (\<lambda>(e, w).
           bindr (sync_entries q w) (\<lambda>(q, w). Ok ((i, e) # q, w))))"

definition block_cache_sync_all :: "'w store \<Rightarrow> 'w store res" where
  "block_cache_sync_all s =
     bindr (sync_entries (queue s) (disk s)) (\<lambda>(q, w). Ok (s\<lparr>disk := w, queue := q\<rparr>))"

section \<open>Using a cached block\<close>

text \<open>How a value of type \<open>T\<close> lies in memory: its size, how it is read from that many bytes, and
  which bytes assigning to its fields changes.\<close>

record 'a layout =
  size_of :: nat
  load :: "u8 list \<Rightarrow> 'a"
  store_in :: "'a \<Rightarrow> u8 list \<Rightarrow> u8 list"

text \<open>\<open>[u8; BLOCK_SZ]\<close> and arrays of words.\<close>

definition data_block :: "u8 list layout" where
  "data_block = \<lparr>size_of = BLOCK_SZ, load = (\<lambda>bs. bs), store_in = (\<lambda>x _. x)\<rparr>"

definition word_array :: "nat \<Rightarrow> nat \<Rightarrow> 'a::len word list layout" where
  "word_array w n = \<lparr>size_of = w * n, load = load_words w n, store_in = (\<lambda>x _. store_words w x)\<rparr>"

definition update_entry :: "usize \<Rightarrow> ('w BlockCache \<Rightarrow> 'w BlockCache) \<Rightarrow> 'w store \<Rightarrow> 'w store" where
  "update_entry bid f s = s\<lparr>queue := map (\<lambda>(i, e). (i, if i = bid then f e else e)) (queue s)\<rparr>"

definition lock_block :: "usize \<Rightarrow> 'w store \<Rightarrow> ('w BlockCache \<times> 'w store) res" where
  "lock_block bid s =
     bindr (unwrap (map_of (queue s) bid)) (\<lambda>e.
       if locked e then Panic Deadlock
       else Ok (e, update_entry bid (\<lambda>e. e\<lparr>locked := True\<rparr>) s))"

definition unlock_block :: "usize \<Rightarrow> 'w store \<Rightarrow> 'w store" where
  "unlock_block bid s = update_entry bid (\<lambda>e. e\<lparr>locked := False\<rparr>) s"

text \<open>\<open>assert!(offset + type_size <= BLOCK_SZ)\<close> and the indexing in \<open>addr_of_offset\<close>.\<close>

definition check_offset :: "usize \<Rightarrow> nat \<Rightarrow> unit res" where
  "check_offset offset n =
     bindr (assertr (offset + of_nat n \<le> of_nat BLOCK_SZ)) (\<lambda>_.
       if unat offset < BLOCK_SZ then Ok () else Panic IndexOutOfBounds)"

definition get_ref :: "'a layout \<Rightarrow> usize \<Rightarrow> u8 list \<Rightarrow> 'a" where
  "get_ref T offset bytes = load T (take (size_of T) (drop (unat offset) bytes))"

definition put_ref :: "'a layout \<Rightarrow> usize \<Rightarrow> 'a \<Rightarrow> u8 list \<Rightarrow> u8 list" where
  "put_ref T offset x bytes =
     take (unat offset) bytes @ store_in T x (take (size_of T) (drop (unat offset) bytes))
       @ drop (unat offset + size_of T) bytes"

definition read_cached ::
  "'w BlockDevice \<Rightarrow> usize \<Rightarrow> 'a layout \<Rightarrow> usize \<Rightarrow> ('a \<Rightarrow> 'w store \<Rightarrow> ('v \<times> 'w store) res) \<Rightarrow>
   'w store \<Rightarrow> ('v \<times> 'w store) res" where
  "read_cached dev bid T offset f s =
     bindr (get_block_cache dev bid s) (\<lambda>s.
     bindr (lock_block bid s) (\<lambda>(e, s).
     bindr (check_offset offset (size_of T)) (\<lambda>_.
     bindr (f (get_ref T offset (cache e)) s) (\<lambda>(v, s).
       Ok (v, unlock_block bid s)))))"

definition modify_cached ::
  "'w BlockDevice \<Rightarrow> usize \<Rightarrow> 'a layout \<Rightarrow> usize \<Rightarrow> ('a \<Rightarrow> 'w store \<Rightarrow> ('v \<times> 'a \<times> 'w store) res) \<Rightarrow>
   'w store \<Rightarrow> ('v \<times> 'w store) res" where
  "modify_cached dev bid T offset f s =
     bindr (get_block_cache dev bid s) (\<lambda>s.
     bindr (lock_block bid s) (\<lambda>(e, s).
     bindr (check_offset offset (size_of T)) (\<lambda>_.
     bindr (f (get_ref T offset (cache e)) s) (\<lambda>(v, x, s).
       Ok (v, unlock_block bid
               (update_entry bid (\<lambda>e. e\<lparr>cache := put_ref T offset x (cache e), modified := True\<rparr>) s))))))"

text \<open>A call that returns has run its closure on the value it found.\<close>

lemma modify_cached_closure:
  assumes "modify_cached dev bid T offset f s = Ok (v, s')"
  shows "\<exists>bytes s1 x s2. f (get_ref T offset bytes) s1 = Ok (v, x, s2)"
  using assms by (fastforce simp: modify_cached_def)

end
