(* ===== verification/Bitmap.thy ===== *)
theory Bitmap
  imports BlockCache
begin

text \<open>
  \<open>src/easy-fs/src/bitmap.rs\<close>: the bitmaps that say which inodes and which data blocks are in use. A
  bitmap is a run of blocks of 64 words each; bit \<open>i\<close> of the bitmap is bit \<open>i mod 64\<close> of a word.
\<close>

definition BLOCK_BITS :: nat where "BLOCK_BITS = BLOCK_SZ * 8"

record Bitmap =
  start_block_id :: usize
  blocks :: usize

text \<open>\<open>type BitmapBlock = [u64; 64]\<close>\<close>

definition bitmap_block :: "u64 list layout" where
  "bitmap_block = word_array 8 64"

definition decomposition :: "usize \<Rightarrow> usize \<times> usize \<times> usize" where
  "decomposition bit0 =
     (let block_pos = bit0 div of_nat BLOCK_BITS; bit1 = bit0 mod of_nat BLOCK_BITS in
      (block_pos, bit1 div 64, bit1 mod 64))"

definition bitmap_new :: "usize \<Rightarrow> usize \<Rightarrow> Bitmap" where
  "bitmap_new start_block_id0 blocks0 = \<lparr>start_block_id = start_block_id0, blocks = blocks0\<rparr>"

text \<open>\<open>u64::trailing_ones\<close>\<close>

definition trailing_ones :: "u64 \<Rightarrow> nat" where
  "trailing_ones w = length (takeWhile (bit w) [0..<64])"

text \<open>The closure of \<open>alloc\<close>: the first word that is not full, its first clear bit.\<close>

definition alloc_in_block :: "usize \<Rightarrow> u64 list \<Rightarrow> usize option \<times> u64 list" where
  "alloc_in_block bid bitmap_blk =
     (case find_index (\<lambda>bits64. bits64 \<noteq> - 1) bitmap_blk of
        Some bits64_pos \<Rightarrow>
          (let inner_pos = trailing_ones (bitmap_blk ! bits64_pos) in
           (Some (bid * of_nat BLOCK_BITS + of_nat bits64_pos * 64 + of_nat inner_pos),
            bitmap_blk[bits64_pos := bitmap_blk ! bits64_pos OR push_bit inner_pos 1]))
      | None \<Rightarrow> (None, bitmap_blk))"

fun bitmap_alloc_loop ::
  "nat list \<Rightarrow> Bitmap \<Rightarrow> 'w BlockDevice \<Rightarrow> 'w store \<Rightarrow> (usize option \<times> 'w store) res" where
  "bitmap_alloc_loop [] bm dev s = Ok (None, s)"
| "bitmap_alloc_loop (b # bs) bm dev s =
     bindr (modify_cached dev (of_nat b + start_block_id bm) bitmap_block 0
              (\<lambda>bb s. case alloc_in_block (of_nat b) bb of (pos, bb) \<Rightarrow> Ok (pos, bb, s)) s)
       (\<lambda>(pos, s). if pos \<noteq> None then Ok (pos, s) else bitmap_alloc_loop bs bm dev s)"

definition bitmap_alloc :: "Bitmap \<Rightarrow> 'w BlockDevice \<Rightarrow> 'w store \<Rightarrow> (usize option \<times> 'w store) res" where
  "bitmap_alloc bm dev s = bitmap_alloc_loop [0..<unat (blocks bm)] bm dev s"

text \<open>The closure of \<open>dealloc\<close>. Both positions are below 64 (they come from \<open>decomposition\<close>).\<close>

definition dealloc_in_block :: "usize \<Rightarrow> usize \<Rightarrow> u64 list \<Rightarrow> u64 list res" where
  "dealloc_in_block bits64_pos inner_pos bitmap_blk =
     bindr (indexr bitmap_blk (unat bits64_pos)) (\<lambda>w.
     bindr (assertr (w AND push_bit (unat inner_pos) 1 > 0)) (\<lambda>_.
       Ok (bitmap_blk[unat bits64_pos := w - push_bit (unat inner_pos) 1])))"

definition bitmap_dealloc :: "Bitmap \<Rightarrow> 'w BlockDevice \<Rightarrow> usize \<Rightarrow> 'w store \<Rightarrow> 'w store res" where
  "bitmap_dealloc bm dev bit0 s =
     (case decomposition bit0 of (block_pos, bits64_pos, inner_pos) \<Rightarrow>
      bindr (modify_cached dev (block_pos + start_block_id bm) bitmap_block 0
               (\<lambda>bb s. bindr (dealloc_in_block bits64_pos inner_pos bb) (\<lambda>bb. Ok ((), bb, s))) s)
        (\<lambda>(_, s). Ok s))"

definition bitmap_maximum :: "Bitmap \<Rightarrow> usize" where
  "bitmap_maximum bm = blocks bm * of_nat BLOCK_BITS"

end
