(* ===== verification/Layout.thy ===== *)
theory Layout
  imports BlockCache
begin

text \<open>
  \<open>src/easy-fs/src/layout.rs\<close>: what lies in the blocks of a disk. The super block, disk inodes with
  their direct, indirect and doubly indirect blocks, and directory entries, each with its layout in
  bytes; the operations that grow, clear, read and write the data of an inode.

  Block counts are computed on 32-bit words as in the source. Inside the loops they are natural
  numbers: they start from such a count, only grow up to another one, and are subtracted from only
  where the source has just made sure that they are large enough.
\<close>

definition EFS_MAGIC :: u32 where "EFS_MAGIC = 0x3b800001"
definition INODE_DIRECT_COUNT :: nat where "INODE_DIRECT_COUNT = 28"
definition NAME_LENGTH_LIMIT :: nat where "NAME_LENGTH_LIMIT = 27"
definition INODE_INDIRECT1_COUNT :: nat where "INODE_INDIRECT1_COUNT = BLOCK_SZ div 4"
definition INODE_INDIRECT2_COUNT :: nat where
  "INODE_INDIRECT2_COUNT = INODE_INDIRECT1_COUNT * INODE_INDIRECT1_COUNT"
definition DIRECT_BOUND :: nat where "DIRECT_BOUND = INODE_DIRECT_COUNT"
definition INDIRECT1_BOUND :: nat where "INDIRECT1_BOUND = DIRECT_BOUND + INODE_INDIRECT1_COUNT"

lemmas layout_consts = BLOCK_SZ_def INODE_DIRECT_COUNT_def NAME_LENGTH_LIMIT_def INODE_INDIRECT1_COUNT_def
  INODE_INDIRECT2_COUNT_def DIRECT_BOUND_def INDIRECT1_BOUND_def

section \<open>The super block\<close>

record SuperBlock =
  magic :: u32
  sb_total_blocks :: u32
  inode_bitmap_blocks :: u32
  inode_area_blocks :: u32
  data_bitmap_blocks :: u32
  data_area_blocks :: u32

definition sb_fields :: "SuperBlock \<Rightarrow> u32 list" where
  "sb_fields sb = [magic sb, sb_total_blocks sb, inode_bitmap_blocks sb, inode_area_blocks sb,
     data_bitmap_blocks sb, data_area_blocks sb]"

definition super_block :: "SuperBlock layout" where
  "super_block =
     \<lparr>size_of = 24,
      load = (\<lambda>bs. let w = load_words 4 6 bs in
        \<lparr>magic = w ! 0, sb_total_blocks = w ! 1, inode_bitmap_blocks = w ! 2, inode_area_blocks = w ! 3,
         data_bitmap_blocks = w ! 4, data_area_blocks = w ! 5\<rparr>),
      store_in = (\<lambda>sb _. store_words 4 (sb_fields sb))\<rparr>"

definition sb_initialize :: "u32 \<Rightarrow> u32 \<Rightarrow> u32 \<Rightarrow> u32 \<Rightarrow> u32 \<Rightarrow> SuperBlock" where
  "sb_initialize tot ibb iab dbb dab =
     \<lparr>magic = EFS_MAGIC, sb_total_blocks = tot, inode_bitmap_blocks = ibb, inode_area_blocks = iab,
      data_bitmap_blocks = dbb, data_area_blocks = dab\<rparr>"

definition sb_is_valid :: "SuperBlock \<Rightarrow> bool" where
  "sb_is_valid sb \<longleftrightarrow> magic sb = EFS_MAGIC"

section \<open>Disk inodes\<close>

datatype DiskInodeType = File | Directory

text \<open>\<open>type IndirectBlock = [u32; BLOCK_SZ / 4]\<close>\<close>

definition indirect_block :: "u32 list layout" where
  "indirect_block = word_array 4 128"

record DiskInode =
  di_size :: u32
  direct :: "u32 list"
  indirect1 :: u32
  indirect2 :: u32
  type0 :: DiskInodeType

text \<open>The discriminants of the enum are 0 and 1, in one byte; the last three bytes of the 128 are
  padding, which no assignment to a field touches. A byte other than 0 and 1 is no value of the enum
  and never written.\<close>

definition type_byte :: "DiskInodeType \<Rightarrow> u8" where
  "type_byte t = (case t of File \<Rightarrow> 0 | Directory \<Rightarrow> 1)"

definition disk_inode :: "DiskInode layout" where
  "disk_inode =
     \<lparr>size_of = 128,
      load = (\<lambda>bs. let w = load_words 4 31 bs in
        \<lparr>di_size = w ! 0, direct = take 28 (drop 1 w), indirect1 = w ! 29, indirect2 = w ! 30,
         type0 = (if bs ! 124 = 0 then File else Directory)\<rparr>),
      store_in = (\<lambda>d bs. store_words 4 (di_size d # direct d @ [indirect1 d, indirect2 d])
                     @ [type_byte (type0 d)] @ drop 125 bs)\<rparr>"

definition di_initialize :: "DiskInodeType \<Rightarrow> DiskInode \<Rightarrow> DiskInode" where
  "di_initialize ty d =
     d\<lparr>di_size := 0, direct := map (\<lambda>_. 0) (direct d), indirect1 := 0, indirect2 := 0, type0 := ty\<rparr>"

definition is_dir :: "DiskInode \<Rightarrow> bool" where "is_dir d \<longleftrightarrow> type0 d = Directory"
definition is_file :: "DiskInode \<Rightarrow> bool" where "is_file d \<longleftrightarrow> type0 d = File"

definition data_blocks_of :: "u32 \<Rightarrow> u32" where
  "data_blocks_of sz = (sz + of_nat BLOCK_SZ - 1) div of_nat BLOCK_SZ"

definition data_blocks :: "DiskInode \<Rightarrow> u32" where
  "data_blocks d = data_blocks_of (di_size d)"

definition total_blocks :: "u32 \<Rightarrow> u32" where
  "total_blocks sz =
     (let n = unat (data_blocks_of sz);
          total = n + (if INODE_DIRECT_COUNT < n then 1 else 0);
          total = total + (if INDIRECT1_BOUND < n
            then 1 + (n - INDIRECT1_BOUND + INODE_INDIRECT1_COUNT - 1) div INODE_INDIRECT1_COUNT else 0)
      in of_nat total)"

definition blocks_num_needed :: "DiskInode \<Rightarrow> u32 \<Rightarrow> u32 res" where
  "blocks_num_needed d new_size =
     bindr (assertr (di_size d \<le> new_size)) (\<lambda>_. Ok (total_blocks new_size - total_blocks (di_size d)))"

text \<open>Reading entry \<open>i\<close> of an indirect block.\<close>

definition read_indirect :: "'w BlockDevice \<Rightarrow> u32 \<Rightarrow> nat \<Rightarrow> 'w store \<Rightarrow> (u32 \<times> 'w store) res" where
  "read_indirect dev bid i s =
     read_cached dev (ucast bid) indirect_block 0 (\<lambda>blk s. bindr (indexr blk i) (\<lambda>x. Ok (x, s))) s"

definition get_block_id :: "DiskInode \<Rightarrow> u32 \<Rightarrow> 'w BlockDevice \<Rightarrow> 'w store \<Rightarrow> (u32 \<times> 'w store) res" where
  "get_block_id d inner_id dev s =
     (let i = unat inner_id in
      if i < INODE_DIRECT_COUNT then bindr (indexr (direct d) i) (\<lambda>x. Ok (x, s))
      else if i < INDIRECT1_BOUND then read_indirect dev (indirect1 d) (i - INODE_DIRECT_COUNT) s
      else
        let last = i - INDIRECT1_BOUND in
        bindr (read_indirect dev (indirect2 d) (last div INODE_INDIRECT1_COUNT) s) (\<lambda>(ind1, s).
          read_indirect dev ind1 (last mod INODE_INDIRECT1_COUNT) s))"

section \<open>Growing\<close>

text \<open>\<open>new_blocks.next().unwrap()\<close>\<close>

fun next_block :: "u32 list \<Rightarrow> (u32 \<times> u32 list) res" where
  "next_block [] = Panic UnwrapNone"
| "next_block (b # bs) = Ok (b, bs)"

text \<open>\<open>while current < bound { arr[current] = new_blocks.next().unwrap(); current += 1 }\<close>\<close>

function fill_array :: "nat \<Rightarrow> nat \<Rightarrow> u32 list \<Rightarrow> u32 list \<Rightarrow> (nat \<times> u32 list \<times> u32 list) res" where
  "fill_array current bound arr new_blocks =
     (if current < bound then
        bindr (next_block new_blocks) (\<lambda>(b, new_blocks).
        bindr (updater arr current b) (\<lambda>arr.
          fill_array (current + 1) bound arr new_blocks))
      else Ok (current, arr, new_blocks))"
  by pat_completeness auto
termination
  by (relation "measure (\<lambda>(current, bound, _). bound - current)") auto

declare fill_array.simps [simp del]

text \<open>The loop over the doubly indirect block, from \<open>(a0, b0)\<close> to \<open>(a1, b1)\<close>; \<open>ind2\<close> is the block as the
  closure sees it. The position \<open>b0\<close> stays below 128.\<close>

function fill_indirect2 ::
  "'w BlockDevice \<Rightarrow> nat \<Rightarrow> nat \<Rightarrow> nat \<Rightarrow> nat \<Rightarrow> u32 list \<Rightarrow> u32 list \<Rightarrow> 'w store \<Rightarrow>
   (u32 list \<times> u32 list \<times> 'w store) res" where
  "fill_indirect2 dev a0 b0 a1 b1 ind2 new_blocks s =
     (if a0 < a1 \<or> (a0 = a1 \<and> b0 < b1) then
        bindr (if b0 = 0 then
                 bindr (next_block new_blocks) (\<lambda>(b, new_blocks).
                 bindr (updater ind2 a0 b) (\<lambda>ind2. Ok (ind2, new_blocks)))
               else Ok (ind2, new_blocks)) (\<lambda>(ind2, new_blocks).
        bindr (indexr ind2 a0) (\<lambda>ind1_id.
        bindr (modify_cached dev (ucast ind1_id) indirect_block 0
                 (\<lambda>ind1 s.
                    bindr (next_block new_blocks) (\<lambda>(b, new_blocks).
                    bindr (updater ind1 b0 b) (\<lambda>ind1. Ok (new_blocks, ind1, s)))) s)
          (\<lambda>(new_blocks, s).
           if b0 + 1 = INODE_INDIRECT1_COUNT
           then fill_indirect2 dev (a0 + 1) 0 a1 b1 ind2 new_blocks s
           else fill_indirect2 dev a0 (b0 + 1) a1 b1 ind2 new_blocks s)))
      else Ok (ind2, new_blocks, s))"
  by pat_completeness auto
termination
proof (relation "measures [\<lambda>(_, a0, b0, a1, b1, _). Suc a1 - a0, \<lambda>(_, a0, b0, a1, b1, _). 128 - b0]", goal_cases)
  case (3 dev a0 b0 a1 b1 ind2 new_blocks s x ind2' new_blocks' ind1_id y new_blocks'' s')
  from 3 have "b0 < 128"
    by (auto dest!: modify_cached_closure simp: get_ref_def indirect_block_def word_array_def)
  then show ?case by simp
qed auto

declare fill_indirect2.simps [simp del]

definition increase_size ::
  "u32 \<Rightarrow> u32 list \<Rightarrow> 'w BlockDevice \<Rightarrow> DiskInode \<Rightarrow> 'w store \<Rightarrow> (DiskInode \<times> 'w store) res" where
  "increase_size new_size new_blocks dev d s =
     (let current = unat (data_blocks d); d = d\<lparr>di_size := new_size\<rparr>; total = unat (data_blocks d) in
      bindr (fill_array current (min total INODE_DIRECT_COUNT) (direct d) new_blocks)
        (\<lambda>(current, dir, new_blocks).
      let d = d\<lparr>direct := dir\<rparr> in
      if \<not> INODE_DIRECT_COUNT < total then Ok (d, s)
      else
        bindr (if current = INODE_DIRECT_COUNT
               then bindr (next_block new_blocks) (\<lambda>(b, new_blocks). Ok (d\<lparr>indirect1 := b\<rparr>, new_blocks))
               else Ok (d, new_blocks)) (\<lambda>(d, new_blocks).
        let current = current - INODE_DIRECT_COUNT; total = total - INODE_DIRECT_COUNT in
        bindr (modify_cached dev (ucast (indirect1 d)) indirect_block 0
                 (\<lambda>ind1 s. bindr (fill_array current (min total INODE_INDIRECT1_COUNT) ind1 new_blocks)
                    (\<lambda>(current, ind1, new_blocks). Ok ((current, new_blocks), ind1, s))) s)
          (\<lambda>((current, new_blocks), s).
        if \<not> INODE_INDIRECT1_COUNT < total then Ok (d, s)
        else
          bindr (if current = INODE_INDIRECT1_COUNT
                 then bindr (next_block new_blocks) (\<lambda>(b, new_blocks). Ok (d\<lparr>indirect2 := b\<rparr>, new_blocks))
                 else Ok (d, new_blocks)) (\<lambda>(d, new_blocks).
          let current = current - INODE_INDIRECT1_COUNT; total = total - INODE_INDIRECT1_COUNT in
          bindr (modify_cached dev (ucast (indirect2 d)) indirect_block 0
                   (\<lambda>ind2 s. bindr (fill_indirect2 dev (current div INODE_INDIRECT1_COUNT) (current mod INODE_INDIRECT1_COUNT)
                                      (total div INODE_INDIRECT1_COUNT) (total mod INODE_INDIRECT1_COUNT) ind2 new_blocks s)
                      (\<lambda>(ind2, new_blocks, s). Ok ((), ind2, s))) s)
            (\<lambda>(_, s). Ok (d, s)))))))"

section \<open>Clearing\<close>

text \<open>The first \<open>n\<close> entries of an array, pushed one by one.\<close>

fun push_entries :: "nat \<Rightarrow> u32 list \<Rightarrow> u32 list res" where
  "push_entries 0 arr = Ok []"
| "push_entries (Suc n) arr =
     bindr (push_entries n arr) (\<lambda>v. bindr (indexr arr n) (\<lambda>x. Ok (v @ [x])))"

text \<open>\<open>v.push(indirect2[i])\<close> and the entries of that block; the closure takes the block by \<open>modify\<close> though
  it changes nothing, so the block becomes dirty.\<close>

definition clear_indirect1 ::
  "'w BlockDevice \<Rightarrow> u32 \<Rightarrow> nat \<Rightarrow> u32 list \<Rightarrow> 'w store \<Rightarrow> (u32 list \<times> 'w store) res" where
  "clear_indirect1 dev bid n v s =
     modify_cached dev (ucast bid) indirect_block 0
       (\<lambda>ind1 s. bindr (push_entries n ind1) (\<lambda>xs. Ok (v @ xs, ind1, s))) s"

fun clear_indirect2 ::
  "'w BlockDevice \<Rightarrow> nat list \<Rightarrow> u32 list \<Rightarrow> u32 list \<Rightarrow> 'w store \<Rightarrow> (u32 list \<times> 'w store) res" where
  "clear_indirect2 dev [] ind2 v s = Ok (v, s)"
| "clear_indirect2 dev (i # is) ind2 v s =
     bindr (indexr ind2 i) (\<lambda>bid.
     bindr (clear_indirect1 dev bid INODE_INDIRECT1_COUNT (v @ [bid]) s) (\<lambda>(v, s).
       clear_indirect2 dev is ind2 v s))"

definition clear_size :: "'w BlockDevice \<Rightarrow> DiskInode \<Rightarrow> 'w store \<Rightarrow> (u32 list \<times> DiskInode \<times> 'w store) res" where
  "clear_size dev d s =
     (let n = unat (data_blocks d); d = d\<lparr>di_size := 0\<rparr>; k = min n INODE_DIRECT_COUNT in
      bindr (push_entries k (direct d)) (\<lambda>v.
      let d = d\<lparr>direct := replicate k 0 @ drop k (direct d)\<rparr> in
      if \<not> INODE_DIRECT_COUNT < n then Ok (v, d, s)
      else
        let v = v @ [indirect1 d]; n = n - INODE_DIRECT_COUNT in
        bindr (clear_indirect1 dev (indirect1 d) (min n INODE_INDIRECT1_COUNT) v s) (\<lambda>(v, s).
        let d = d\<lparr>indirect1 := 0\<rparr> in
        if \<not> INODE_INDIRECT1_COUNT < n then Ok (v, d, s)
        else
          let v = v @ [indirect2 d]; n = n - INODE_INDIRECT1_COUNT in
          bindr (assertr (n \<le> INODE_INDIRECT2_COUNT)) (\<lambda>_.
          let a1 = n div INODE_INDIRECT1_COUNT; b1 = n mod INODE_INDIRECT1_COUNT in
          bindr (modify_cached dev (ucast (indirect2 d)) indirect_block 0
                   (\<lambda>ind2 s.
                      bindr (clear_indirect2 dev [0..<a1] ind2 v s) (\<lambda>(v, s).
                      if 0 < b1 then
                        bindr (indexr ind2 a1) (\<lambda>bid.
                        bindr (clear_indirect1 dev bid b1 (v @ [bid]) s) (\<lambda>(v, s). Ok (v, ind2, s)))
                      else Ok (v, ind2, s))) s)
            (\<lambda>(v, s). Ok (v, d\<lparr>indirect2 := 0\<rparr>, s))))))"

section \<open>Reading and writing\<close>

text \<open>\<open>buf[a..a + n].copy_from_slice(src)\<close> with a source of length \<open>n\<close>.\<close>

definition overwrite :: "'a list \<Rightarrow> nat \<Rightarrow> 'a list \<Rightarrow> 'a list" where
  "overwrite buf a src = take a buf @ src @ drop (a + length src) buf"

lemma length_overwrite [simp]: "a + length xs \<le> length buf \<Longrightarrow> length (overwrite buf a xs) = length buf"
  by (simp add: overwrite_def)

lemma block_advance:
  assumes "x = min ((start div BLOCK_SZ + 1) * BLOCK_SZ) end" and "x \<noteq> end"
  shows "start < x \<and> x < end"
proof -
  have "x = (start div 512 + 1) * 512" "x < end" using assms by (auto simp: BLOCK_SZ_def min_def split: if_splits)
  moreover have "start < (start div 512 + 1) * 512" by (simp add: dividend_less_div_times)
  ultimately show ?thesis by simp
qed

text \<open>The loop of \<open>read_at\<close>. It is entered with \<open>start < end\<close> and \<open>end\<close> at most the size of the inode and
  at most the end of the buffer, so that no slice is out of range and nothing wraps.\<close>

function read_loop ::
  "DiskInode \<Rightarrow> 'w BlockDevice \<Rightarrow> nat \<Rightarrow> nat \<Rightarrow> nat \<Rightarrow> nat \<Rightarrow> u8 list \<Rightarrow> 'w store \<Rightarrow> (nat \<times> u8 list \<times> 'w store) res" where
  "read_loop d dev start end start_block read_size buf s =
     (let end_current_block = min ((start div BLOCK_SZ + 1) * BLOCK_SZ) end;
          block_read_size = end_current_block - start in
      bindr (get_block_id d (of_nat start_block) dev s) (\<lambda>(bid, s).
      bindr (read_cached dev (ucast bid) data_block 0
               (\<lambda>blk s. Ok (overwrite buf read_size (take block_read_size (drop (start mod BLOCK_SZ) blk)), s)) s)
        (\<lambda>(buf, s).
         if end_current_block = end then Ok (read_size + block_read_size, buf, s)
         else read_loop d dev end_current_block end (start_block + 1) (read_size + block_read_size) buf s)))"
  by pat_completeness auto
termination
proof (relation "measure (\<lambda>(_, _, start, end, _). end - start)", goal_cases)
  case (2 d dev start "end" start_block n buf s x)
  then have "start < x \<and> x < end" by (intro block_advance)
  then show ?case by auto
qed simp

declare read_loop.simps [simp del]

definition di_read_at ::
  "DiskInode \<Rightarrow> usize \<Rightarrow> u8 list \<Rightarrow> 'w BlockDevice \<Rightarrow> 'w store \<Rightarrow> (nat \<times> u8 list \<times> 'w store) res" where
  "di_read_at d offset buf dev s =
     (let end = min (offset + of_nat (length buf)) (ucast (di_size d)) in
      if end \<le> offset then Ok (0, buf, s)
      else read_loop d dev (unat offset) (unat end) (unat offset div BLOCK_SZ) 0 buf s)"

function write_loop ::
  "DiskInode \<Rightarrow> 'w BlockDevice \<Rightarrow> nat \<Rightarrow> nat \<Rightarrow> nat \<Rightarrow> nat \<Rightarrow> u8 list \<Rightarrow> 'w store \<Rightarrow> (nat \<times> 'w store) res" where
  "write_loop d dev start end start_block write_size buf s =
     (let end_current_block = min ((start div BLOCK_SZ + 1) * BLOCK_SZ) end;
          block_write_size = end_current_block - start in
      bindr (get_block_id d (of_nat start_block) dev s) (\<lambda>(bid, s).
      bindr (modify_cached dev (ucast bid) data_block 0
               (\<lambda>blk s. Ok ((), overwrite blk (start mod BLOCK_SZ) (take block_write_size (drop write_size buf)), s)) s)
        (\<lambda>(_, s).
         if end_current_block = end then Ok (write_size + block_write_size, s)
         else write_loop d dev end_current_block end (start_block + 1) (write_size + block_write_size) buf s)))"
  by pat_completeness auto
termination
proof (relation "measure (\<lambda>(_, _, start, end, _). end - start)", goal_cases)
  case (2 d dev start "end" start_block n buf s x)
  then have "start < x \<and> x < end" by (intro block_advance)
  then show ?case by auto
qed simp

declare write_loop.simps [simp del]

definition di_write_at ::
  "DiskInode \<Rightarrow> usize \<Rightarrow> u8 list \<Rightarrow> 'w BlockDevice \<Rightarrow> 'w store \<Rightarrow> (nat \<times> 'w store) res" where
  "di_write_at d offset buf dev s =
     (let end = min (offset + of_nat (length buf)) (ucast (di_size d)) in
      bindr (assertr (offset \<le> end)) (\<lambda>_.
        write_loop d dev (unat offset) (unat end) (unat offset div BLOCK_SZ) 0 buf s))"

end
