(* ===== verification/Efs.thy ===== *)
theory Efs
  imports Bitmap Layout
begin

text \<open>
  \<open>src/easy-fs/src/efs.rs\<close>: a file system on a device. Block 0 is the super block; the inode bitmap,
  the inodes, the data bitmap and the data blocks follow. The operations on the \<open>EasyFileSystem\<close>
  value change nothing in it, only blocks, so the model passes it as it is and threads the store.
\<close>

record 'w EasyFileSystem =
  efs_device :: "'w BlockDevice"
  inode_bitmap :: Bitmap
  data_bitmap :: Bitmap
  inode_area_start_block :: u32
  data_area_start_block :: u32

text \<open>\<open>core::mem::size_of::<DiskInode>()\<close>\<close>

definition inode_size :: nat where
  "inode_size = size_of disk_inode"

definition get_disk_inode_pos :: "'w EasyFileSystem \<Rightarrow> u32 \<Rightarrow> u32 \<times> usize" where
  "get_disk_inode_pos efs inode_id =
     (let inodes_per_block = of_nat (BLOCK_SZ div inode_size) in
      (inode_area_start_block efs + inode_id div inodes_per_block,
       ucast (inode_id mod inodes_per_block) * of_nat inode_size))"

definition get_data_block_id :: "'w EasyFileSystem \<Rightarrow> u32 \<Rightarrow> u32" where
  "get_data_block_id efs data_block_id = data_area_start_block efs + data_block_id"

definition alloc_inode :: "'w EasyFileSystem \<Rightarrow> 'w store \<Rightarrow> (u32 \<times> 'w store) res" where
  "alloc_inode efs s =
     bindr (bitmap_alloc (inode_bitmap efs) (efs_device efs) s) (\<lambda>(r, s).
     bindr (unwrap r) (\<lambda>i. Ok (ucast i, s)))"

definition alloc_data :: "'w EasyFileSystem \<Rightarrow> 'w store \<Rightarrow> (u32 \<times> 'w store) res" where
  "alloc_data efs s =
     bindr (bitmap_alloc (data_bitmap efs) (efs_device efs) s) (\<lambda>(r, s).
     bindr (unwrap r) (\<lambda>i. Ok (ucast i + data_area_start_block efs, s)))"

definition clear_block :: "'w BlockDevice \<Rightarrow> usize \<Rightarrow> 'w store \<Rightarrow> 'w store res" where
  "clear_block dev bid s =
     bindr (modify_cached dev bid data_block 0 (\<lambda>blk s. Ok ((), map (\<lambda>_. 0) blk, s)) s) (\<lambda>(_, s). Ok s)"

definition dealloc_data :: "'w EasyFileSystem \<Rightarrow> u32 \<Rightarrow> 'w store \<Rightarrow> 'w store res" where
  "dealloc_data efs bid s =
     bindr (clear_block (efs_device efs) (ucast bid) s) (\<lambda>s.
       bitmap_dealloc (data_bitmap efs) (efs_device efs) (ucast (bid - data_area_start_block efs)) s)"

text \<open>The areas of a disk with \<open>tot\<close> blocks: the value that \<open>create\<close> computes first, and the counts it
  writes into the super block.\<close>

definition efs_layout :: "'w BlockDevice \<Rightarrow> u32 \<Rightarrow> u32 \<Rightarrow> 'w EasyFileSystem \<times> SuperBlock" where
  "efs_layout dev tot ibb =
     (let ibm = bitmap_new 1 (ucast ibb);
          inode_num = bitmap_maximum ibm;
          iab = ucast ((inode_num * of_nat inode_size + of_nat BLOCK_SZ - 1) div of_nat BLOCK_SZ) :: u32;
          inode_total_blocks = ibb + iab;
          data_total_blocks = tot - 1 - inode_total_blocks;
          dbb = (data_total_blocks + 4096) div 4097;
          dab = data_total_blocks - dbb
      in (\<lparr>efs_device = dev, inode_bitmap = ibm,
           data_bitmap = bitmap_new (ucast (1 + ibb + iab)) (ucast dbb),
           inode_area_start_block = 1 + ibb,
           data_area_start_block = 1 + inode_total_blocks + dbb\<rparr>,
          sb_initialize tot ibb iab dbb dab))"

definition efs_create :: "'w BlockDevice \<Rightarrow> u32 \<Rightarrow> u32 \<Rightarrow> 'w store \<Rightarrow> ('w EasyFileSystem \<times> 'w store) res" where
  "efs_create dev tot ibb s =
     (case efs_layout dev tot ibb of (efs, sb) \<Rightarrow>
      bindr (for_each (\<lambda>i. clear_block dev (of_nat i)) [0..<unat tot] s) (\<lambda>s.
      bindr (modify_cached dev 0 super_block 0 (\<lambda>_ s. Ok ((), sb, s)) s) (\<lambda>(_, s).
      bindr (alloc_inode efs s) (\<lambda>(ino, s).
      bindr (assertr (ino = 0)) (\<lambda>_.
      case get_disk_inode_pos efs 0 of (root_block, root_offset) \<Rightarrow>
      bindr (modify_cached dev (ucast root_block) disk_inode root_offset
               (\<lambda>d s. Ok ((), di_initialize Directory d, s)) s) (\<lambda>(_, s).
      bindr (block_cache_sync_all s) (\<lambda>s. Ok (efs, s))))))))"

definition efs_open :: "'w BlockDevice \<Rightarrow> 'w store \<Rightarrow> ('w EasyFileSystem \<times> 'w store) res" where
  "efs_open dev s =
     read_cached dev 0 super_block 0
       (\<lambda>sb s.
          bindr (assertr (sb_is_valid sb)) (\<lambda>_.
          let inode_total_blocks = inode_bitmap_blocks sb + inode_area_blocks sb in
          Ok (\<lparr>efs_device = dev, inode_bitmap = bitmap_new 1 (ucast (inode_bitmap_blocks sb)),
               data_bitmap = bitmap_new (ucast (1 + inode_total_blocks)) (ucast (data_bitmap_blocks sb)),
               inode_area_start_block = 1 + inode_bitmap_blocks sb,
               data_area_start_block = 1 + inode_total_blocks + data_bitmap_blocks sb\<rparr>, s))) s"

end
