(* ===== verification/DirEntry.thy ===== *)
theory DirEntry
  imports Layout
begin

text \<open>
  The directory entries of \<open>src/easy-fs/src/layout.rs\<close>: a name of at most 27 bytes, ended by a zero
  byte, and an inode number, in 32 bytes. Names are the bytes of a Rust string, so they are valid
  UTF-8; \<open>name()\<close> checks that again on what it reads from the disk.
\<close>

definition cont_byte :: "u8 \<Rightarrow> bool" where
  "cont_byte b \<longleftrightarrow> 0x80 \<le> b \<and> b \<le> 0xBF"

text \<open>What \<open>core::str::from_utf8\<close> accepts.\<close>

fun utf8_valid :: "u8 list \<Rightarrow> bool" where
  "utf8_valid [] = True"
| "utf8_valid (a # as) =
     (if a < 0x80 then utf8_valid as
      else case as of
        [] \<Rightarrow> False
      | b # bs \<Rightarrow>
          if 0xC2 \<le> a \<and> a \<le> 0xDF then cont_byte b \<and> utf8_valid bs
          else case bs of
            [] \<Rightarrow> False
          | c # cs \<Rightarrow>
              if 0xE0 \<le> a \<and> a \<le> 0xEF then
                (if a = 0xE0 then 0xA0 \<le> b \<and> b \<le> 0xBF
                 else if a = 0xED then 0x80 \<le> b \<and> b \<le> 0x9F else cont_byte b) \<and>
                cont_byte c \<and> utf8_valid cs
              else case cs of
                [] \<Rightarrow> False
              | d # ds \<Rightarrow>
                  0xF0 \<le> a \<and> a \<le> 0xF4 \<and>
                  (if a = 0xF0 then 0x90 \<le> b \<and> b \<le> 0xBF
                   else if a = 0xF4 then 0x80 \<le> b \<and> b \<le> 0x8F else cont_byte b) \<and>
                  cont_byte c \<and> cont_byte d \<and> utf8_valid ds)"

definition from_utf8 :: "u8 list \<Rightarrow> u8 list res" where
  "from_utf8 bs = (if utf8_valid bs then Ok bs else Panic UnwrapNone)"

record DirEntry =
  de_name :: "u8 list"
  de_inode_number :: u32

definition DIRENT_SZ :: nat where "DIRENT_SZ = 32"

definition de_empty :: DirEntry where
  "de_empty = \<lparr>de_name = replicate (NAME_LENGTH_LIMIT + 1) 0, de_inode_number = 0\<rparr>"

definition de_new :: "u8 list \<Rightarrow> u32 \<Rightarrow> DirEntry res" where
  "de_new nm ino =
     (if length nm \<le> NAME_LENGTH_LIMIT + 1
      then Ok \<lparr>de_name = overwrite (replicate (NAME_LENGTH_LIMIT + 1) 0) 0 nm, de_inode_number = ino\<rparr>
      else Panic IndexOutOfBounds)"

text \<open>\<open>as_bytes\<close>, and what \<open>as_bytes_mut\<close> leaves in the entry when 32 bytes are written through it.\<close>

definition de_as_bytes :: "DirEntry \<Rightarrow> u8 list" where
  "de_as_bytes e = de_name e @ le_bytes 4 (de_inode_number e)"

definition de_from_bytes :: "u8 list \<Rightarrow> DirEntry" where
  "de_from_bytes bs =
     \<lparr>de_name = take (NAME_LENGTH_LIMIT + 1) bs, de_inode_number = le_word (take 4 (drop (NAME_LENGTH_LIMIT + 1) bs))\<rparr>"

definition de_get_name :: "DirEntry \<Rightarrow> u8 list res" where
  "de_get_name e =
     (case find_index (\<lambda>b. b = 0) (de_name e) of
        Some len \<Rightarrow> from_utf8 (take len (de_name e))
      | None \<Rightarrow> Panic IndexOutOfBounds)"

section \<open>Entries and their bytes\<close>

lemma de_new_Ok:
  "length nm \<le> 28 \<Longrightarrow> de_new nm ino = Ok \<lparr>de_name = nm @ replicate (28 - length nm) 0, de_inode_number = ino\<rparr>"
  by (simp add: de_new_def overwrite_def NAME_LENGTH_LIMIT_def)

lemma find_zero_append:
  "0 \<notin> set nm \<Longrightarrow> find_index (\<lambda>b :: u8. b = 0) (nm @ replicate n 0) = (if n = 0 then None else Some (length nm))"
proof (induction nm)
  case Nil
  then show ?case by (cases n) auto
next
  case (Cons a nm)
  then show ?case by auto
qed

text \<open>C13: a directory entry made from a name of at most 27 bytes, none of them zero, survives being
  written to the disk and read back: the entry read has that name and that inode number, and its
  bytes are exactly 32. A name of 28 bytes is accepted when the entry is made, but reading its name
  panics; longer names panic at once.\<close>

theorem dirent_roundtrip:
  assumes "utf8_valid nm" and "0 \<notin> set nm"
  shows "if length nm \<le> 28
    then \<exists>e. de_new nm ino = Ok e \<and> length (de_as_bytes e) = DIRENT_SZ \<and> de_from_bytes (de_as_bytes e) = e \<and>
             de_inode_number e = ino \<and>
             de_get_name e = (if length nm \<le> 27 then Ok nm else Panic IndexOutOfBounds)
    else de_new nm ino = Panic IndexOutOfBounds"
proof (cases "length nm \<le> 28")
  case True
  let ?e = "\<lparr>de_name = nm @ replicate (28 - length nm) 0, de_inode_number = ino\<rparr>"
  have "le_word (le_bytes 4 ino) = ino" by (rule le_word_le_bytes) simp
  then have "de_from_bytes (de_as_bytes ?e) = ?e"
    using True by (simp add: de_from_bytes_def de_as_bytes_def NAME_LENGTH_LIMIT_def)
  moreover have "de_get_name ?e = (if length nm \<le> 27 then Ok nm else Panic IndexOutOfBounds)"
    using find_zero_append [OF assms(2), of "28 - length nm"] True assms(1)
    by (auto simp: de_get_name_def from_utf8_def)
  moreover have "length (de_as_bytes ?e) = DIRENT_SZ" using True by (simp add: de_as_bytes_def DIRENT_SZ_def)
  ultimately show ?thesis using de_new_Ok [OF True] True by auto
next
  case False
  then show ?thesis by (simp add: de_new_def NAME_LENGTH_LIMIT_def)
qed

theorem dirent_roundtrip_witness:
  "utf8_valid [0x66, 0xC3, 0xA9] \<and>
   (\<exists>e. de_new [0x66, 0xC3, 0xA9] 7 = Ok e \<and> de_from_bytes (de_as_bytes e) = e \<and> de_get_name e = Ok [0x66, 0xC3, 0xA9])"
proof -
  have u: "utf8_valid [0x66, 0xC3, 0xA9]" by (simp add: cont_byte_def)
  show ?thesis using dirent_roundtrip [OF u, of 7] u by auto
qed

end
