(* ===== verification/Vfs.thy ===== *)
theory Vfs
  imports Efs DirEntry
begin

text \<open>
  \<open>src/easy-fs/src/vfs.rs\<close>: files and the root directory on top of the disk layout. Every operation
  takes the file system's lock for its duration and none calls another one with the lock held, so
  the lock itself is left out. The block of the inode is locked while a closure works on it.
\<close>

record 'w Inode =
  i_block_id :: usize
  i_block_offset :: usize
  i_fs :: "'w EasyFileSystem"
  i_device :: "'w BlockDevice"

definition inode_new :: "u32 \<Rightarrow> usize \<Rightarrow> 'w EasyFileSystem \<Rightarrow> 'w BlockDevice \<Rightarrow> 'w Inode" where
  "inode_new bid off efs dev = \<lparr>i_block_id = ucast bid, i_block_offset = off, i_fs = efs, i_device = dev\<rparr>"

definition root_inode :: "'w EasyFileSystem \<Rightarrow> 'w Inode" where
  "root_inode efs = (case get_disk_inode_pos efs 0 of (bid, off) \<Rightarrow> inode_new bid off efs (efs_device efs))"

definition get_ino :: "'w Inode \<Rightarrow> u32" where
  "get_ino ino =
     (let inodes_per_block = of_nat (BLOCK_SZ div inode_size) :: u32 in
      ucast ((i_block_id ino - ucast (inode_area_start_block (i_fs ino))) * ucast inodes_per_block
             + i_block_offset ino div of_nat inode_size))"

definition read_disk_inode ::
  "'w Inode \<Rightarrow> (DiskInode \<Rightarrow> 'w store \<Rightarrow> ('v \<times> 'w store) res) \<Rightarrow> 'w store \<Rightarrow> ('v \<times> 'w store) res" where
  "read_disk_inode ino f s = read_cached (i_device ino) (i_block_id ino) disk_inode (i_block_offset ino) f s"

definition modify_disk_inode ::
  "'w Inode \<Rightarrow> (DiskInode \<Rightarrow> 'w store \<Rightarrow> ('v \<times> DiskInode \<times> 'w store) res) \<Rightarrow> 'w store \<Rightarrow> ('v \<times> 'w store) res" where
  "modify_disk_inode ino f s = modify_cached (i_device ino) (i_block_id ino) disk_inode (i_block_offset ino) f s"

definition get_mode :: "'w Inode \<Rightarrow> 'w store \<Rightarrow> (isize \<times> 'w store) res" where
  "get_mode ino s =
     read_disk_inode ino (\<lambda>d s. Ok (if is_dir d then 1 else if is_file d then 2 else 0, s)) s"

definition inode_block_id :: "'w Inode \<Rightarrow> u32" where
  "inode_block_id ino = ucast (i_block_id ino)"

section \<open>Directories\<close>

text \<open>\<open>disk_inode.read_at(DIRENT_SZ * i, dirent.as_bytes_mut(), ..)\<close> with its assertion.\<close>

definition read_dirent ::
  "DiskInode \<Rightarrow> 'w BlockDevice \<Rightarrow> nat \<Rightarrow> DirEntry \<Rightarrow> 'w store \<Rightarrow> (DirEntry \<times> 'w store) res" where
  "read_dirent d dev i e s =
     bindr (di_read_at d (of_nat (DIRENT_SZ * i)) (de_as_bytes e) dev s) (\<lambda>(n, bytes, s).
     bindr (assertr (n = DIRENT_SZ)) (\<lambda>_. Ok (de_from_bytes bytes, s)))"

definition file_count :: "DiskInode \<Rightarrow> nat" where
  "file_count d = unat (di_size d) div DIRENT_SZ"

fun find_loop ::
  "nat list \<Rightarrow> u8 list \<Rightarrow> DiskInode \<Rightarrow> 'w BlockDevice \<Rightarrow> DirEntry \<Rightarrow> 'w store \<Rightarrow> (u32 option \<times> 'w store) res" where
  "find_loop [] nm d dev e s = Ok (None, s)"
| "find_loop (i # is) nm d dev e s =
     bindr (read_dirent d dev i e s) (\<lambda>(e, s).
     bindr (de_get_name e) (\<lambda>n.
       if n = nm then Ok (Some (de_inode_number e), s) else find_loop is nm d dev e s))"

definition find_inode_id ::
  "'w Inode \<Rightarrow> u8 list \<Rightarrow> DiskInode \<Rightarrow> 'w store \<Rightarrow> (u32 option \<times> 'w store) res" where
  "find_inode_id ino nm d s =
     bindr (assertr (is_dir d)) (\<lambda>_. find_loop [0..<file_count d] nm d (i_device ino) de_empty s)"

definition vfs_find :: "'w Inode \<Rightarrow> u8 list \<Rightarrow> 'w store \<Rightarrow> ('w Inode option \<times> 'w store) res" where
  "vfs_find ino nm s =
     read_disk_inode ino
       (\<lambda>d s. bindr (find_inode_id ino nm d s) (\<lambda>(r, s).
          Ok (map_option (\<lambda>inode_id. case get_disk_inode_pos (i_fs ino) inode_id of (bid, off) \<Rightarrow>
                                       inode_new bid off (i_fs ino) (i_device ino)) r, s))) s"

fun nlink_loop ::
  "nat list \<Rightarrow> 'w Inode \<Rightarrow> u32 \<Rightarrow> usize \<Rightarrow> DiskInode \<Rightarrow> u32 \<Rightarrow> 'w store \<Rightarrow> (u32 \<times> 'w store) res" where
  "nlink_loop [] ino tb toff d counter s = Ok (counter, s)"
| "nlink_loop (i # is) ino tb toff d counter s =
     bindr (read_dirent d (i_device ino) i de_empty s) (\<lambda>(e, s).
     bindr (de_get_name e) (\<lambda>nm.
     bindr (find_inode_id ino nm d s) (\<lambda>(r, s).
       nlink_loop is ino tb toff d
         (case r of Some inode_id \<Rightarrow>
            if get_disk_inode_pos (i_fs ino) inode_id = (tb, toff) then counter + 1 else counter
          | None \<Rightarrow> counter) s)))"

definition get_nlink :: "'w Inode \<Rightarrow> u32 \<Rightarrow> usize \<Rightarrow> 'w store \<Rightarrow> (u32 \<times> 'w store) res" where
  "get_nlink ino tb toff s =
     read_disk_inode ino
       (\<lambda>d s. bindr (assertr (is_dir d)) (\<lambda>_. nlink_loop [0..<file_count d] ino tb toff d 0 s)) s"

fun ls_loop :: "nat list \<Rightarrow> DiskInode \<Rightarrow> 'w BlockDevice \<Rightarrow> 'w store \<Rightarrow> (u8 list list \<times> 'w store) res" where
  "ls_loop [] d dev s = Ok ([], s)"
| "ls_loop (i # is) d dev s =
     bindr (read_dirent d dev i de_empty s) (\<lambda>(e, s).
     bindr (de_get_name e) (\<lambda>nm.
     bindr (ls_loop is d dev s) (\<lambda>(v, s). Ok (nm # v, s))))"

definition vfs_ls :: "'w Inode \<Rightarrow> 'w store \<Rightarrow> (u8 list list \<times> 'w store) res" where
  "vfs_ls ino s = read_disk_inode ino (\<lambda>d s. ls_loop [0..<file_count d] d (i_device ino) s) s"

section \<open>Growing, writing and clearing files\<close>

fun alloc_blocks :: "nat \<Rightarrow> 'w EasyFileSystem \<Rightarrow> 'w store \<Rightarrow> (u32 list \<times> 'w store) res" where
  "alloc_blocks 0 efs s = Ok ([], s)"
| "alloc_blocks (Suc n) efs s =
     bindr (alloc_data efs s) (\<lambda>(b, s).
     bindr (alloc_blocks n efs s) (\<lambda>(v, s). Ok (b # v, s)))"

definition vfs_increase_size :: "'w Inode \<Rightarrow> u32 \<Rightarrow> DiskInode \<Rightarrow> 'w store \<Rightarrow> (DiskInode \<times> 'w store) res" where
  "vfs_increase_size ino new_size d s =
     (if new_size < di_size d then Ok (d, s)
      else
        bindr (blocks_num_needed d new_size) (\<lambda>blocks_needed.
        bindr (alloc_blocks (unat blocks_needed) (i_fs ino) s) (\<lambda>(v, s).
          increase_size new_size v (i_device ino) d s)))"

text \<open>Growing a directory by one entry and writing the entry there.\<close>

definition append_dirent :: "'w Inode \<Rightarrow> u8 list \<Rightarrow> u32 \<Rightarrow> DiskInode \<Rightarrow> 'w store \<Rightarrow> (DiskInode \<times> 'w store) res" where
  "append_dirent ino nm inode_id d s =
     (let n = file_count d; new_size = (n + 1) * DIRENT_SZ in
      bindr (vfs_increase_size ino (of_nat new_size) d s) (\<lambda>(d, s).
      bindr (de_new nm inode_id) (\<lambda>e.
      bindr (di_write_at d (of_nat (n * DIRENT_SZ)) (de_as_bytes e) (i_device ino) s) (\<lambda>(_, s).
        Ok (d, s)))))"

definition vfs_link :: "'w Inode \<Rightarrow> u32 \<Rightarrow> u8 list \<Rightarrow> 'w store \<Rightarrow> (isize \<times> 'w store) res" where
  "vfs_link ino inode_id nm s =
     bindr (modify_disk_inode ino
              (\<lambda>d s. bindr (assertr (is_dir d)) (\<lambda>_.
                     bindr (append_dirent ino nm inode_id d s) (\<lambda>(d, s). Ok ((), d, s)))) s)
       (\<lambda>(_, s). Ok (0, s))"

definition vfs_create :: "'w Inode \<Rightarrow> u8 list \<Rightarrow> 'w store \<Rightarrow> ('w Inode option \<times> 'w store) res" where
  "vfs_create ino nm s =
     bindr (modify_disk_inode ino
              (\<lambda>d s. bindr (assertr (is_dir d)) (\<lambda>_.
                     bindr (find_inode_id ino nm d s) (\<lambda>(r, s). Ok (r, d, s)))) s) (\<lambda>(r, s).
     if r \<noteq> None then Ok (None, s)
     else
       bindr (alloc_inode (i_fs ino) s) (\<lambda>(new_inode_id, s).
       case get_disk_inode_pos (i_fs ino) new_inode_id of (new_block, new_offset) \<Rightarrow>
       bindr (modify_cached (i_device ino) (ucast new_block) disk_inode new_offset
                (\<lambda>d s. Ok ((), di_initialize File d, s)) s) (\<lambda>(_, s).
       bindr (modify_disk_inode ino
                (\<lambda>d s. bindr (append_dirent ino nm new_inode_id d s) (\<lambda>(d, s). Ok ((), d, s))) s) (\<lambda>(_, s).
       bindr (block_cache_sync_all s) (\<lambda>s.
         Ok (Some (inode_new new_block new_offset (i_fs ino) (i_device ino)), s))))))"

definition vfs_read_at :: "'w Inode \<Rightarrow> usize \<Rightarrow> u8 list \<Rightarrow> 'w store \<Rightarrow> ((nat \<times> u8 list) \<times> 'w store) res" where
  "vfs_read_at ino offset buf s =
     read_disk_inode ino
       (\<lambda>d s. bindr (di_read_at d offset buf (i_device ino) s) (\<lambda>(n, buf, s). Ok ((n, buf), s))) s"

definition vfs_write_at :: "'w Inode \<Rightarrow> usize \<Rightarrow> u8 list \<Rightarrow> 'w store \<Rightarrow> (nat \<times> 'w store) res" where
  "vfs_write_at ino offset buf s =
     bindr (modify_disk_inode ino
              (\<lambda>d s. bindr (vfs_increase_size ino (ucast (offset + of_nat (length buf))) d s) (\<lambda>(d, s).
                     bindr (di_write_at d offset buf (i_device ino) s) (\<lambda>(n, s). Ok (n, d, s)))) s)
       (\<lambda>(n, s). bindr (block_cache_sync_all s) (\<lambda>s. Ok (n, s)))"

definition vfs_clear :: "'w Inode \<Rightarrow> 'w store \<Rightarrow> 'w store res" where
  "vfs_clear ino s =
     bindr (modify_disk_inode ino
              (\<lambda>d s. bindr (clear_size (i_device ino) d s) (\<lambda>(v, d', s).
                     bindr (assertr (length v = unat (total_blocks (di_size d)))) (\<lambda>_.
                     bindr (for_each (dealloc_data (i_fs ino)) v s) (\<lambda>s. Ok ((), d', s))))) s)
       (\<lambda>(_, s). block_cache_sync_all s)"

fun unlink_loop ::
  "nat list \<Rightarrow> u8 list \<Rightarrow> DiskInode \<Rightarrow> 'w BlockDevice \<Rightarrow> DirEntry \<Rightarrow> 'w store \<Rightarrow> 'w store res" where
  "unlink_loop [] nm d dev e s = Ok s"
| "unlink_loop (i # is) nm d dev e s =
     bindr (read_dirent d dev i e s) (\<lambda>(e, s).
     bindr (de_get_name e) (\<lambda>n.
       if n = nm then
         bindr (di_write_at d (of_nat (i * DIRENT_SZ)) (de_as_bytes de_empty) dev s) (\<lambda>(_, s). Ok s)
       else unlink_loop is nm d dev e s))"

definition vfs_unlink :: "'w Inode \<Rightarrow> u8 list \<Rightarrow> 'w store \<Rightarrow> (isize \<times> 'w store) res" where
  "vfs_unlink ino nm s =
     bindr (vfs_find ino nm s) (\<lambda>(r, s).
     bindr (case r of
              Some child \<Rightarrow>
                bindr (get_nlink ino (inode_block_id child) (i_block_offset child) s) (\<lambda>(n, s).
                  if n = 1 then vfs_clear child s else Ok s)
            | None \<Rightarrow> Ok s) (\<lambda>s.
     bindr (modify_disk_inode ino
              (\<lambda>d s. bindr (assertr (is_dir d)) (\<lambda>_.
                     bindr (unlink_loop [0..<file_count d] nm d (i_device ino) de_empty s) (\<lambda>s. Ok ((), d, s)))) s)
       (\<lambda>(_, s). bindr (block_cache_sync_all s) (\<lambda>s. Ok (0, s)))))"

end
