(* ===== verification/BlockCacheInv.thy ===== *)
theory BlockCacheInv
  imports BlockCache
begin

text \<open>
  The block cache is transparent. Seen through it (\<open>cache_view\<close>), the blocks of a device form a plain
  array that only the closures passed to \<open>modify\<close> change, however blocks are loaded, evicted and
  written back. The locale \<open>device_contract\<close> is the contract of the trait \<open>BlockDevice\<close>; the lemmas of
  the cache and of the layers above are proved in it, and hold for every device that meets it.
\<close>

section \<open>What the cache shows\<close>

definition cache_view :: "('w \<Rightarrow> usize \<Rightarrow> u8 list) \<Rightarrow> (usize \<Rightarrow> bool) \<Rightarrow> 'w store \<Rightarrow> usize \<Rightarrow> u8 list" where
  "cache_view blk ok s i =
     (if ok i then case map_of (queue s) i of Some e \<Rightarrow> cache e | None \<Rightarrow> blk (disk s) i else [])"

definition entry_ok :: "'w BlockDevice \<Rightarrow> ('w \<Rightarrow> usize \<Rightarrow> u8 list) \<Rightarrow> (usize \<Rightarrow> bool) \<Rightarrow> 'w \<Rightarrow> usize \<Rightarrow> 'w BlockCache \<Rightarrow> bool" where
  "entry_ok dev blk ok w i e \<longleftrightarrow> ok i \<and> block_id e = i \<and> block_device e = dev \<and> length (cache e) = BLOCK_SZ \<and>
     (modified e \<or> cache e = blk w i)"

definition cache_inv ::
  "'w BlockDevice \<Rightarrow> ('w \<Rightarrow> usize \<Rightarrow> u8 list) \<Rightarrow> (usize \<Rightarrow> bool) \<Rightarrow> ('w \<Rightarrow> bool) \<Rightarrow> 'w store \<Rightarrow> bool" where
  "cache_inv dev blk ok dinv s \<longleftrightarrow> dinv (disk s) \<and> distinct (map fst (queue s)) \<and>
     length (queue s) \<le> BLOCK_CACHE_SIZE \<and>
     (\<forall>(i, e) \<in> set (queue s). entry_ok dev blk ok (disk s) i e)"

definition locks :: "'w store \<Rightarrow> usize set" where
  "locks s = {i. \<exists>e. (i, e) \<in> set (queue s) \<and> locked e}"

text \<open>A consistent cache in which the blocks \<open>L\<close> are locked and the device looks like \<open>V\<close>.\<close>

definition cache_state ::
  "'w BlockDevice \<Rightarrow> ('w \<Rightarrow> usize \<Rightarrow> u8 list) \<Rightarrow> (usize \<Rightarrow> bool) \<Rightarrow> ('w \<Rightarrow> bool) \<Rightarrow>
   usize set \<Rightarrow> (usize \<Rightarrow> u8 list) \<Rightarrow> 'w store \<Rightarrow> bool" where
  "cache_state dev blk ok dinv L V s \<longleftrightarrow> cache_inv dev blk ok dinv s \<and> locks s = L \<and> cache_view blk ok s = V"

lemma locks_map_of:
  assumes "distinct (map fst (queue s))"
  shows "j \<in> locks s \<longleftrightarrow> (case map_of (queue s) j of Some e \<Rightarrow> locked e | None \<Rightarrow> False)"
proof -
  have "(j, e) \<in> set (queue s) \<longleftrightarrow> map_of (queue s) j = Some e" for e using assms by simp
  then show ?thesis unfolding locks_def mem_Collect_eq by (cases "map_of (queue s) j") simp_all
qed

text \<open>An access inside the block.\<close>

definition fits :: "usize \<Rightarrow> nat \<Rightarrow> bool" where
  "fits off n \<longleftrightarrow> 0 < n \<and> unat off + n \<le> BLOCK_SZ"

lemma check_offset_ok:
  assumes "fits off n"
  shows "check_offset off n = Ok ()"
proof -
  have "unat (off + of_nat n) = unat off + n"
    using assms by (simp add: fits_def BLOCK_SZ_def unat_word_ariths unat_of_nat)
  then have "off + of_nat n \<le> of_nat BLOCK_SZ" using assms by (simp add: word_le_nat_alt fits_def BLOCK_SZ_def)
  then show ?thesis using assms by (simp add: check_offset_def fits_def)
qed

lemma finite_locks: "finite (locks s)"
proof -
  have "locks s \<subseteq> fst ` set (queue s)" by (force simp: locks_def)
  then show ?thesis using finite_subset by blast
qed

section \<open>The contract of a device\<close>

text \<open>\<open>blk w i\<close> is the content of block \<open>i\<close>, \<open>ok\<close> says which blocks there are, and \<open>dinv\<close> is what the
  device keeps of its own state.\<close>

locale device_contract =
  fixes dev :: "'w BlockDevice"
    and blk :: "'w \<Rightarrow> usize \<Rightarrow> u8 list"
    and ok :: "usize \<Rightarrow> bool"
    and dinv :: "'w \<Rightarrow> bool"
  assumes read_ok: "dinv w \<Longrightarrow> ok i \<Longrightarrow>
      \<exists>w'. read_block dev i w = Ok (blk w i, w') \<and> dinv w' \<and> (\<forall>j. ok j \<longrightarrow> blk w' j = blk w j)"
    and write_ok: "dinv w \<Longrightarrow> ok i \<Longrightarrow> length b = BLOCK_SZ \<Longrightarrow>
      \<exists>w'. write_block dev i b w = Ok w' \<and> dinv w' \<and> (\<forall>j. ok j \<longrightarrow> blk w' j = (if j = i then b else blk w j))"
    and blk_length: "dinv w \<Longrightarrow> ok i \<Longrightarrow> length (blk w i) = BLOCK_SZ"
begin

abbreviation "view \<equiv> cache_view blk ok"
abbreviation "cinv \<equiv> cache_inv dev blk ok dinv"
abbreviation "st \<equiv> cache_state dev blk ok dinv"

lemma invD:
  assumes "cinv s"
  shows "dinv (disk s)" and "distinct (map fst (queue s))" and "length (queue s) \<le> BLOCK_CACHE_SIZE"
    and "\<And>i e. (i, e) \<in> set (queue s) \<Longrightarrow> entry_ok dev blk ok (disk s) i e"
  using assms by (auto simp: cache_inv_def)

text \<open>Writing an entry back, wherever it is done, leaves what the cache shows as it was.\<close>

lemma sync_entry:
  assumes "dinv w" and "entry_ok dev blk ok w i e"
  shows "returns (bc_sync e w) (\<lambda>(e', w'). e' = e\<lparr>modified := False\<rparr> \<and> dinv w' \<and>
    (\<forall>j. ok j \<longrightarrow> blk w' j = (if j = i then cache e else blk w j)))"
proof (cases "modified e")
  case True
  have "ok i" "length (cache e) = BLOCK_SZ" "block_id e = i" "block_device e = dev"
    using assms(2) by (auto simp: entry_ok_def)
  then show ?thesis using write_ok [OF assms(1), of i "cache e"] True by (auto simp: bc_sync_def)
next
  case False
  then have "e = e\<lparr>modified := False\<rparr>" "cache e = blk w i" using assms(2) by (auto simp: entry_ok_def)
  then show ?thesis using assms(1) False by (auto simp: bc_sync_def)
qed

lemma view_queue: "(i, e) \<in> set (queue s) \<Longrightarrow> cinv s \<Longrightarrow> view s i = cache e"
  using invD(2,4) [of s] by (auto simp: cache_view_def entry_ok_def)

lemma view_length: "cinv s \<Longrightarrow> ok i \<Longrightarrow> length (view s i) = BLOCK_SZ"
  using invD(1,4) [of s] blk_length by (auto simp: cache_view_def entry_ok_def dest!: map_of_SomeD split: option.split)

text \<open>Dropping an entry nobody holds.\<close>

lemma remove_entry:
  assumes inv: "cinv s" and n: "n < length (queue s)" and e: "queue s ! n = (i, e)"
    and w: "dinv w" "\<forall>j. ok j \<longrightarrow> blk w j = (if j = i then cache e else blk (disk s) j)" and un: "\<not> locked e"
  shows "st (locks s) (view s) (s\<lparr>disk := w, queue := remove_nth n (queue s)\<rparr>)"
proof -
  let ?s = "s\<lparr>disk := w, queue := remove_nth n (queue s)\<rparr>"
  have mem: "(i, e) \<in> set (queue s)" using n e by (metis nth_mem)
  have d: "distinct (map fst (queue s))" by (rule invD(2) [OF inv])
  then have q: "set (queue ?s) = set (queue s) - {(i, e)}"
    using set_remove_nth_distinct [OF _ n] e by (simp add: distinct_map)
  have other: "j \<noteq> i" if "(j, f) \<in> set (queue s)" "(j, f) \<noteq> (i, e)" for j f
    using that mem d by (metis eq_key_imp_eq_value)
  have d': "distinct (map fst (queue ?s))"
    using distinct_remove_nth [OF d, of n] by (simp add: remove_nth_def take_map drop_map)
  have eo: "entry_ok dev blk ok w j f" if jf: "(j, f) \<in> set (queue ?s)" for j f
  proof -
    have m: "(j, f) \<in> set (queue s)" "(j, f) \<noteq> (i, e)" using jf unfolding q by auto
    have o: "entry_ok dev blk ok (disk s) j f" by (rule invD(4) [OF inv m(1)])
    then have "blk w j = blk (disk s) j" using w(2) other [OF m] by (simp add: entry_ok_def)
    then show ?thesis using o by (simp add: entry_ok_def)
  qed
  then have "cinv ?s" using w(1) d' invD(3) [OF inv] n by (auto simp: cache_inv_def)
  moreover have "locks ?s = locks s" using q un by (auto simp: locks_def)
  moreover have "view ?s j = view s j" for j
  proof (cases "j = i")
    case True
    have "(i, f) \<notin> set (queue ?s)" for f unfolding q using other [of i f] by blast
    then have "map_of (queue ?s) j = None" using True by (force simp: map_of_eq_None_iff)
    then show ?thesis using w(2) view_queue [OF mem inv] True by (auto simp: cache_view_def)
  next
    case False
    have "map_of (queue ?s) j = map_of (queue s) j"
    proof (cases "map_of (queue s) j")
      case None
      then have "map_of (queue ?s) j = None" unfolding map_of_eq_None_iff q by blast
      then show ?thesis using None by simp
    next
      case (Some f)
      then have "(j, f) \<in> set (queue ?s)" using q False by (auto dest: map_of_SomeD)
      then show ?thesis using d' Some by simp
    qed
    then show ?thesis using w(2) False by (auto simp: cache_view_def split: option.split)
  qed
  ultimately show ?thesis by (simp add: cache_state_def fun_eq_iff)
qed

lemma substitute_ok:
  assumes "cinv s" and "card (locks s) < BLOCK_CACHE_SIZE"
  shows "returns (substitute s) (\<lambda>s'. st (locks s) (view s) s' \<and> length (queue s') < BLOCK_CACHE_SIZE \<and>
    (\<forall>i. i \<notin> fst ` set (queue s) \<longrightarrow> i \<notin> fst ` set (queue s')))"
proof (cases "length (queue s) = BLOCK_CACHE_SIZE")
  case True
  have "\<exists>x \<in> set (queue s). \<not> locked (snd x)"
  proof (rule ccontr)
    assume "\<not> ?thesis"
    then have "locks s = set (map fst (queue s))" by (force simp: locks_def)
    then have "card (locks s) = length (queue s)" using invD(2) [OF assms(1)] by (metis distinct_card length_map)
    then show False using assms(2) True by simp
  qed
  then obtain n where n: "find_index (\<lambda>p. \<not> locked (snd p)) (queue s) = Some n"
    using find_index_None [of "\<lambda>p. \<not> locked (snd p)" "queue s"] by (cases "find_index (\<lambda>p. \<not> locked (snd p)) (queue s)") auto
  then have len: "n < length (queue s)" and un: "\<not> locked (snd (queue s ! n))" by (auto simp: find_index_Some)
  obtain i e where e: "queue s ! n = (i, e)" by fastforce
  have eo: "entry_ok dev blk ok (disk s) i e" using invD(4) [OF assms(1)] len e by (metis nth_mem)
  have sub: "set (remove_nth n (queue s)) \<subseteq> set (queue s)" by (rule set_remove_nth_subset)
  have "returns (bc_drop e (disk s)) (\<lambda>w. dinv w \<and> (\<forall>j. ok j \<longrightarrow> blk w j = (if j = i then cache e else blk (disk s) j)))"
    using sync_entry [OF invD(1) [OF assms(1)] eo] by (auto simp: bc_drop_def returns_def)
  then show ?thesis
    using True n e un remove_entry [OF assms(1) len e] len sub
    by (auto simp: substitute_def elim!: returns_mono)
next
  case False
  then show ?thesis using assms(1) invD(3) [OF assms(1)] by (simp add: substitute_def cache_state_def)
qed

lemma add_entry:
  assumes inv: "cinv s" and i: "ok i" "i \<notin> fst ` set (queue s)" and n: "length (queue s) < BLOCK_CACHE_SIZE"
    and w: "dinv w" "\<forall>j. ok j \<longrightarrow> blk w j = blk (disk s) j"
    and e: "e = \<lparr>cache = blk (disk s) i, block_id = i, block_device = dev, modified = False, locked = False\<rparr>"
  shows "st (locks s) (view s) (s\<lparr>disk := w, queue := queue s @ [(i, e)]\<rparr>)"
proof -
  let ?s = "s\<lparr>disk := w, queue := queue s @ [(i, e)]\<rparr>"
  have old: "entry_ok dev blk ok w j f" if "(j, f) \<in> set (queue s)" for j f
    using invD(4) [OF inv that] w(2) by (auto simp: entry_ok_def)
  moreover have "entry_ok dev blk ok w i e"
    using i(1) w blk_length [OF invD(1) [OF inv] i(1)] by (simp add: entry_ok_def e)
  ultimately have "cinv ?s" using w(1) n i(2) invD(2) [OF inv] by (auto simp: cache_inv_def)
  moreover have "locks ?s = locks s" by (auto simp: locks_def e)
  moreover have "view ?s j = view s j" for j
    using w(2) map_of_eq_None_iff [of "queue s" i] i(2)
    by (cases "map_of (queue s) j") (auto simp: cache_view_def map_add_def e)
  ultimately show ?thesis by (simp add: cache_state_def fun_eq_iff)
qed

lemma get_block_cache_ok:
  assumes s: "st L V s" and i: "ok i" and L: "card L < BLOCK_CACHE_SIZE"
  shows "returns (get_block_cache dev i s) (\<lambda>s'. st L V s' \<and> i \<in> fst ` set (queue s'))"
proof (cases "map_of (queue s) i")
  case None
  then have ni: "i \<notin> fst ` set (queue s)" by (simp add: map_of_eq_None_iff)
  have inv: "cinv s" "locks s = L" "view s = V" using s by (simp_all add: cache_state_def)
  have "returns (substitute s) (\<lambda>s1. st L V s1 \<and> length (queue s1) < BLOCK_CACHE_SIZE \<and> i \<notin> fst ` set (queue s1))"
    using substitute_ok [OF inv(1)] L ni inv(2,3) by (auto elim!: returns_mono)
  moreover have "returns (bindr (bc_new i dev (disk s1)) (\<lambda>(e, w). Ok (s1\<lparr>disk := w, queue := queue s1 @ [(i, e)]\<rparr>)))
      (\<lambda>s'. st L V s' \<and> i \<in> fst ` set (queue s'))"
    if s1: "st L V s1" "length (queue s1) < BLOCK_CACHE_SIZE" "i \<notin> fst ` set (queue s1)" for s1
  proof -
    have inv1: "cinv s1" "locks s1 = L" "view s1 = V" using s1(1) by (simp_all add: cache_state_def)
    obtain w where w: "read_block dev i (disk s1) = Ok (blk (disk s1) i, w)" "dinv w" "\<forall>j. ok j \<longrightarrow> blk w j = blk (disk s1) j"
      using read_ok [OF invD(1) [OF inv1(1)] i] by blast
    show ?thesis
      using add_entry [OF inv1(1) i s1(3,2) w(2,3) refl] w(1) inv1(2,3) by (simp add: bc_new_def)
  qed
  ultimately show ?thesis using None by (auto simp: get_block_cache_def elim!: returns_mono)
next
  case (Some e)
  then have "i \<in> fst ` set (queue s)" by (force dest: map_of_SomeD)
  then show ?thesis using Some s by (simp add: get_block_cache_def)
qed

lemma map_of_update: "map_of (queue (update_entry i f s)) j = map_option (if j = i then f else (\<lambda>e. e)) (map_of (queue s) j)"
proof -
  have "map_of (map (\<lambda>(k, e). (k, if k = i then f e else e)) q) j = map_option (if j = i then f else (\<lambda>e. e)) (map_of q j)" for q
    by (induction q) auto
  then show ?thesis by (simp add: update_entry_def)
qed

text \<open>Replacing the entry of block \<open>i\<close>.\<close>

lemma update_entry_ok:
  assumes s: "st L V s" and e: "map_of (queue s) i = Some e" and e': "entry_ok dev blk ok (disk s) i (f e)"
  shows "st (if locked (f e) then insert i L else L - {i}) (V(i := cache (f e))) (update_entry i f s)"
proof -
  let ?s = "update_entry i f s"
  have inv: "cinv s" "locks s = L" "view s = V" using s by (simp_all add: cache_state_def)
  have d: "distinct (map fst (queue s))" by (rule invD(2) [OF inv(1)])
  have fsts: "map fst (queue ?s) = map fst (queue s)" by (simp add: update_entry_def comp_def split_def)
  have look: "(j, x) \<in> set (queue ?s) \<longleftrightarrow> map_of (queue ?s) j = Some x" for j x
    using d fsts by (metis map_of_eq_Some_iff)
  have eo: "entry_ok dev blk ok (disk s) j x" if "(j, x) \<in> set (queue ?s)" for j x
  proof (cases "j = i")
    case True
    then have "x = f e" using that e unfolding look map_of_update by simp
    then show ?thesis using True e' by simp
  next
    case False
    then have "map_of (queue s) j = Some x" using that unfolding look map_of_update by (simp add: option.map_ident)
    then show ?thesis by (rule invD(4) [OF inv(1) map_of_SomeD])
  qed
  have "cinv ?s"
    using inv(1) eo fsts d by (auto simp: cache_inv_def) (simp_all add: update_entry_def)
  moreover have "locks ?s = (if locked (f e) then insert i L else L - {i})"
  proof -
    have d': "distinct (map fst (queue ?s))" using d fsts by simp
    have "j \<in> locks ?s \<longleftrightarrow> (if j = i then locked (f e) else j \<in> L)" for j
      unfolding inv(2) [symmetric] locks_map_of [OF d] locks_map_of [OF d'] map_of_update
      using e by (cases "map_of (queue s) j") auto
    then show ?thesis by (intro set_eqI) simp
  qed
  moreover have "view ?s j = (V(i := cache (f e))) j" for j
  proof -
    have "ok i" "disk ?s = disk s" using e' by (simp_all add: entry_ok_def update_entry_def)
    then show ?thesis
      unfolding inv(3) [symmetric] fun_upd_apply cache_view_def map_of_update
      using e by (cases "map_of (queue s) j") simp_all
  qed
  ultimately show ?thesis by (simp add: cache_state_def fun_eq_iff)
qed

section \<open>Reading and modifying through the cache\<close>

lemma lock_block_ok:
  assumes s: "st L V s" and i: "i \<in> fst ` set (queue s)" "i \<notin> L"
  shows "returns (lock_block i s) (\<lambda>(e, s'). cache e = V i \<and> st (insert i L) V s')"
proof -
  have inv: "cinv s" "locks s = L" "view s = V" using s by (simp_all add: cache_state_def)
  obtain e where e: "map_of (queue s) i = Some e" using i(1) by (auto simp: map_of_eq_None_iff image_iff dest!: weak_map_of_SomeI)
  have m: "(i, e) \<in> set (queue s)" by (rule map_of_SomeD [OF e])
  have un: "\<not> locked e" using m i(2) inv(2) by (auto simp: locks_def)
  have c: "cache e = V i" using view_queue [OF m inv(1)] inv(3) by simp
  have "entry_ok dev blk ok (disk s) i (e\<lparr>locked := True\<rparr>)" using invD(4) [OF inv(1) m] by (simp add: entry_ok_def)
  from update_entry_ok [where f = "\<lambda>e. e\<lparr>locked := True\<rparr>", OF s e this] have "st (insert i L) V (update_entry i (\<lambda>e. e\<lparr>locked := True\<rparr>) s)"
    using c by simp
  then show ?thesis using e un c by (simp add: lock_block_def)
qed

lemma locked_entry:
  assumes "st L V s" and "i \<in> L"
  obtains e where "map_of (queue s) i = Some e" and "entry_ok dev blk ok (disk s) i e" and "locked e" and "cache e = V i"
proof -
  have inv: "cinv s" "locks s = L" "view s = V" using assms(1) by (simp_all add: cache_state_def)
  obtain e where m: "(i, e) \<in> set (queue s)" "locked e" using assms(2) inv(2) by (auto simp: locks_def)
  then show ?thesis
    using that [of e] invD(2,4) [OF inv(1)] view_queue [OF m(1) inv(1)] inv(3) by auto
qed

lemma unlock_block_ok:
  assumes s: "st L V s" and i: "i \<in> L"
  shows "st (L - {i}) V (unlock_block i s)"
proof -
  obtain e where e: "map_of (queue s) i = Some e" "entry_ok dev blk ok (disk s) i e" "locked e" "cache e = V i"
    by (rule locked_entry [OF assms])
  have "entry_ok dev blk ok (disk s) i (e\<lparr>locked := False\<rparr>)" using e(2) by (simp add: entry_ok_def)
  from update_entry_ok [where f = "\<lambda>e. e\<lparr>locked := False\<rparr>", OF s e(1) this] show ?thesis using e(4) by (simp add: unlock_block_def)
qed

lemma write_locked_ok:
  assumes s: "st L V s" and i: "i \<in> L" and n: "length (g (V i)) = BLOCK_SZ"
  shows "st L (V(i := g (V i))) (update_entry i (\<lambda>e. e\<lparr>cache := g (cache e), modified := True\<rparr>) s)"
proof -
  let ?f = "\<lambda>e :: 'w BlockCache. e\<lparr>cache := g (cache e), modified := True\<rparr>"
  obtain e where e: "map_of (queue s) i = Some e" "entry_ok dev blk ok (disk s) i e" "locked e" "cache e = V i"
    by (rule locked_entry [OF s i])
  have "entry_ok dev blk ok (disk s) i (?f e)" using e(2,4) n by (simp add: entry_ok_def)
  from update_entry_ok [where f = ?f, OF s e(1) this] show ?thesis using e(3,4) i by (simp add: insert_absorb)
qed

text \<open>The rule for \<open>read\<close>: the closure sees the block as it is and runs with the block locked.\<close>

lemma read_cached_rule:
  assumes s: "st L V s" and i: "ok i" "i \<notin> L" and L: "card L < BLOCK_CACHE_SIZE" and f: "fits off (size_of T)"
    and closure: "\<And>s1. st (insert i L) V s1 \<Longrightarrow>
      returns (f (get_ref T off (V i)) s1) (\<lambda>(v, s2). \<exists>V'. st (insert i L) V' s2 \<and> P v V')"
  shows "returns (read_cached dev i T off f s) (\<lambda>(v, s'). \<exists>V'. st L V' s' \<and> P v V')"
proof -
  have "returns (f (get_ref T off (V i)) s2) (\<lambda>(v, s3). \<exists>V'. st L V' (unlock_block i s3) \<and> P v V')"
    if "st (insert i L) V s2" for s2
    using closure [OF that] by (rule returns_mono) (use unlock_block_ok [of "insert i L" _ _ i] i(2) in \<open>fastforce\<close>)
  then have "returns (bindr (lock_block i s1) (\<lambda>(e, s2). bindr (f (get_ref T off (cache e)) s2) (\<lambda>(v, s3). Ok (v, unlock_block i s3))))
      (\<lambda>(v, s'). \<exists>V'. st L V' s' \<and> P v V')" if "st L V s1" "i \<in> fst ` set (queue s1)" for s1
    using lock_block_ok [OF that i(2)] by (auto elim!: returns_mono simp: split_def)
  then show ?thesis
    using get_block_cache_ok [OF s i(1) L]
    by (auto simp: read_cached_def check_offset_ok [OF f] split_def elim!: returns_mono)
qed

text \<open>The rule for \<open>modify\<close>: what the closure leaves in its argument is what the block then holds.\<close>

lemma modify_cached_rule:
  assumes s: "st L V s" and i: "ok i" "i \<notin> L" and L: "card L < BLOCK_CACHE_SIZE" and f: "fits off (size_of T)"
    and closure: "\<And>s1. st (insert i L) V s1 \<Longrightarrow>
      returns (f (get_ref T off (V i)) s1) (\<lambda>(v, x, s2). \<exists>V'. st (insert i L) V' s2 \<and>
        length (put_ref T off x (V' i)) = BLOCK_SZ \<and> P v (V'(i := put_ref T off x (V' i))))"
  shows "returns (modify_cached dev i T off f s) (\<lambda>(v, s'). \<exists>V'. st L V' s' \<and> P v V')"
proof -
  let ?w = "\<lambda>x. update_entry i (\<lambda>e. e\<lparr>cache := put_ref T off x (cache e), modified := True\<rparr>)"
  have fin: "\<exists>V''. st L V'' (unlock_block i (?w x s3)) \<and> P v V''"
    if "st (insert i L) V' s3" "length (put_ref T off x (V' i)) = BLOCK_SZ" "P v (V'(i := put_ref T off x (V' i)))" for v x V' s3
  proof -
    have "st (insert i L) (V'(i := put_ref T off x (V' i))) (?w x s3)"
      using write_locked_ok [where g = "put_ref T off x", OF that(1) insertI1 that(2)] .
    from unlock_block_ok [OF this insertI1] show ?thesis using i(2) that(3) by auto
  qed
  have "returns (f (get_ref T off (V i)) s2) (\<lambda>(v, x, s3). \<exists>V'. st L V' (unlock_block i (?w x s3)) \<and> P v V')"
    if "st (insert i L) V s2" for s2
    using closure [OF that] by (rule returns_mono) (use fin in blast)
  then have "returns (bindr (lock_block i s1) (\<lambda>(e, s2). bindr (f (get_ref T off (cache e)) s2)
        (\<lambda>(v, x, s3). Ok (v, unlock_block i (?w x s3)))))
      (\<lambda>(v, s'). \<exists>V'. st L V' s' \<and> P v V')" if "st L V s1" "i \<in> fst ` set (queue s1)" for s1
    using lock_block_ok [OF that i(2)] by (auto elim!: returns_mono simp: split_def)
  then show ?thesis
    using get_block_cache_ok [OF s i(1) L]
    by (auto simp: modify_cached_def check_offset_ok [OF f] split_def elim!: returns_mono)
qed

text \<open>A closure that uses no other block.\<close>

lemma modify_cached_pure:
  assumes "st L V s" "ok i" "i \<notin> L" "card L < BLOCK_CACHE_SIZE" "fits off (size_of T)"
    and "\<And>s1. f (get_ref T off (V i)) s1 = Ok (v, x, s1)" and "length (put_ref T off x (V i)) = BLOCK_SZ"
  shows "returns (modify_cached dev i T off f s) (\<lambda>(v', s'). v' = v \<and> st L (V(i := put_ref T off x (V i))) s')"
proof -
  have "returns (modify_cached dev i T off f s)
      (\<lambda>(v', s'). \<exists>V'. st L V' s' \<and> (v' = v \<and> V' = V(i := put_ref T off x (V i))))"
    by (rule modify_cached_rule [OF assms(1-5)]) (use assms(6,7) in auto)
  then show ?thesis by (auto elim!: returns_mono)
qed

lemma read_cached_pure:
  assumes "st L V s" "ok i" "i \<notin> L" "card L < BLOCK_CACHE_SIZE" "fits off (size_of T)"
    and "\<And>s1. f (get_ref T off (V i)) s1 = Ok (v, s1)"
  shows "returns (read_cached dev i T off f s) (\<lambda>(v', s'). v' = v \<and> st L V s')"
proof -
  have "returns (read_cached dev i T off f s) (\<lambda>(v', s'). \<exists>V'. st L V' s' \<and> (v' = v \<and> V' = V))"
    by (rule read_cached_rule [OF assms(1-5)]) (use assms(6) in auto)
  then show ?thesis by (auto elim!: returns_mono)
qed

text \<open>A closure that panics takes the call with it.\<close>

lemma cached_panic:
  assumes s: "st L V s" and i: "ok i" "i \<notin> L" and L: "card L < BLOCK_CACHE_SIZE" and f: "fits off (size_of T)"
  shows "(\<And>s1. st (insert i L) V s1 \<Longrightarrow> f (get_ref T off (V i)) s1 = Panic p) \<Longrightarrow> modify_cached dev i T off f s = Panic p"
    and "(\<And>s1. st (insert i L) V s1 \<Longrightarrow> g (get_ref T off (V i)) s1 = Panic p) \<Longrightarrow> read_cached dev i T off g s = Panic p"
proof -
  obtain s1 where s1: "get_block_cache dev i s = Ok s1" "st L V s1" "i \<in> fst ` set (queue s1)"
    using get_block_cache_ok [OF s i(1) L] by (auto simp: returns_def)
  obtain e s2 where s2: "lock_block i s1 = Ok (e, s2)" "cache e = V i" "st (insert i L) V s2"
    using lock_block_ok [OF s1(2,3) i(2)] by (auto simp: returns_def)
  show "modify_cached dev i T off f s = Panic p" if "\<And>s1. st (insert i L) V s1 \<Longrightarrow> f (get_ref T off (V i)) s1 = Panic p"
    using that [OF s2(3)] by (simp add: modify_cached_def s1(1) s2(1,2) check_offset_ok [OF f])
  show "read_cached dev i T off g s = Panic p" if "\<And>s1. st (insert i L) V s1 \<Longrightarrow> g (get_ref T off (V i)) s1 = Panic p"
    using that [OF s2(3)] by (simp add: read_cached_def s1(1) s2(1,2) check_offset_ok [OF f])
qed

section \<open>Writing everything back\<close>

lemma sync_entries_ok:
  assumes "dinv w" and "\<forall>(i, e) \<in> set q. entry_ok dev blk ok w i e \<and> \<not> locked e" and "distinct (map fst q)"
  shows "returns (sync_entries q w) (\<lambda>(q', w'). q' = map (\<lambda>(i, e). (i, e\<lparr>modified := False\<rparr>)) q \<and> dinv w' \<and>
    (\<forall>j. ok j \<longrightarrow> blk w' j = (case map_of q j of Some e \<Rightarrow> cache e | None \<Rightarrow> blk w j)))"
  using assms
proof (induction q arbitrary: w)
  case (Cons x q)
  obtain i e where x: "x = (i, e)" by fastforce
  have eo: "entry_ok dev blk ok w i e" "\<not> locked e" using Cons.prems(2) by (auto simp: x)
  have rest: "\<forall>(j, f) \<in> set q. entry_ok dev blk ok w1 j f \<and> \<not> locked f"
    if w1: "\<forall>j. ok j \<longrightarrow> blk w1 j = (if j = i then cache e else blk w j)" for w1
  proof (intro ballI, clarify)
    fix j f assume m: "(j, f) \<in> set q"
    then have "j \<noteq> i" using Cons.prems(3) by (force simp: x)
    moreover have "entry_ok dev blk ok w j f \<and> \<not> locked f" using Cons.prems(2) m by auto
    ultimately show "entry_ok dev blk ok w1 j f \<and> \<not> locked f" using w1 by (auto simp: entry_ok_def)
  qed
  have ni: "map_of q i = None" using Cons.prems(3) by (simp add: x map_of_eq_None_iff)
  have step: "returns (sync_entries q w1) (\<lambda>(q', w'). q' = map (\<lambda>(i, e). (i, e\<lparr>modified := False\<rparr>)) q \<and> dinv w' \<and>
      (\<forall>j. ok j \<longrightarrow> blk w' j = (case map_of ((i, e) # q) j of Some e \<Rightarrow> cache e | None \<Rightarrow> blk w j)))"
    if w1: "dinv w1" "\<forall>j. ok j \<longrightarrow> blk w1 j = (if j = i then cache e else blk w j)" for w1
    using Cons.IH [OF w1(1) rest [OF w1(2)]] Cons.prems(3) w1(2) ni
    by (auto elim!: returns_mono split: option.splits)
  have "returns (bc_sync e w) (\<lambda>(e', w1). returns (sync_entries q w1) (\<lambda>(q', w').
      (i, e') # q' = map (\<lambda>(i, e). (i, e\<lparr>modified := False\<rparr>)) ((i, e) # q) \<and> dinv w' \<and>
      (\<forall>j. ok j \<longrightarrow> blk w' j = (case map_of ((i, e) # q) j of Some e \<Rightarrow> cache e | None \<Rightarrow> blk w j))))"
    by (rule returns_mono [OF sync_entry [OF Cons.prems(1) eo(1)]], clarify, rule returns_mono [OF step]) auto
  then show ?case using eo(2) by (simp add: x split_def)
qed simp

text \<open>With nothing locked, \<open>block_cache_sync_all\<close> puts on the device what the cache shows.\<close>

lemma sync_all_ok:
  assumes "st {} V s"
  shows "returns (block_cache_sync_all s) (\<lambda>s'. st {} V s' \<and> (\<forall>j. ok j \<longrightarrow> blk (disk s') j = V j))"
proof -
  have inv: "cinv s" "locks s = {}" "view s = V" using assms by (simp_all add: cache_state_def)
  have e: "\<forall>(i, e) \<in> set (queue s). entry_ok dev blk ok (disk s) i e \<and> \<not> locked e"
    using invD(4) [OF inv(1)] inv(2) by (auto simp: locks_def)
  have fin: "st {} V (s\<lparr>disk := w, queue := map (\<lambda>(i, e). (i, e\<lparr>modified := False\<rparr>)) (queue s)\<rparr>) \<and> (\<forall>j. ok j \<longrightarrow> blk w j = V j)"
    if w: "dinv w" "\<forall>j. ok j \<longrightarrow> blk w j = (case map_of (queue s) j of Some e \<Rightarrow> cache e | None \<Rightarrow> blk (disk s) j)" for w
  proof -
    let ?s = "s\<lparr>disk := w, queue := map (\<lambda>(i, e). (i, e\<lparr>modified := False\<rparr>)) (queue s)\<rparr>"
    have V: "blk w j = V j" if "ok j" for j using w(2) that inv(3) [symmetric] by (simp add: cache_view_def)
    have mo: "map_of (queue ?s) j = map_option (\<lambda>e. e\<lparr>modified := False\<rparr>) (map_of (queue s) j)" for j
      by (simp add: map_of_map)
    have "entry_ok dev blk ok w i (e\<lparr>modified := False\<rparr>)" if m: "(i, e) \<in> set (queue s)" for i e
      using invD(4) [OF inv(1) m] V [of i] view_queue [OF m inv(1)] inv(3) by (simp add: entry_ok_def)
    then have "cinv ?s" using w(1) invD(2,3) [OF inv(1)] by (auto simp: cache_inv_def comp_def split_def)
    moreover have "locks ?s = {}" using inv(2) by (auto simp: locks_def)
    moreover have "view ?s j = V j" for j
      unfolding inv(3) [symmetric] cache_view_def mo using w(2) by (cases "map_of (queue s) j") simp_all
    ultimately show ?thesis using V by (simp add: cache_state_def fun_eq_iff)
  qed
  have "returns (sync_entries (queue s) (disk s)) (\<lambda>(q, w). st {} V (s\<lparr>disk := w, queue := q\<rparr>) \<and> (\<forall>j. ok j \<longrightarrow> blk w j = V j))"
    by (rule returns_mono [OF sync_entries_ok [OF invD(1) [OF inv(1)] e invD(2) [OF inv(1)]]]) (use fin in blast)
  then show ?thesis by (simp add: block_cache_sync_all_def split_def)
qed

section \<open>The limits of the cache\<close>

lemma reuse_deadlocks:
  assumes "st L V s" and "i \<in> L"
  shows "modify_cached dev i T off f s = Panic Deadlock"
proof -
  obtain e where "map_of (queue s) i = Some e" "locked e" by (rule locked_entry [OF assms])
  then show ?thesis by (simp add: modify_cached_def get_block_cache_def lock_block_def)
qed

lemma full_cache_panics:
  assumes s: "st L V s" and L: "card L = BLOCK_CACHE_SIZE" and i: "i \<notin> L"
  shows "modify_cached dev i T off f s = Panic (Explicit ''Run out of BlockCache!'')"
proof -
  have inv: "cinv s" "locks s = L" using s by (simp_all add: cache_state_def)
  have sub: "L \<subseteq> set (map fst (queue s))" using inv(2) by (force simp: locks_def)
  have "card (set (map fst (queue s))) \<le> BLOCK_CACHE_SIZE"
    using card_length [of "map fst (queue s)"] invD(3) [OF inv(1)] by simp
  then have keys: "L = set (map fst (queue s))" using card_subset_eq [OF _ sub] card_mono [OF _ sub] L by simp
  then have "length (queue s) = BLOCK_CACHE_SIZE"
    using distinct_card [OF invD(2) [OF inv(1)]] L by simp
  moreover have "locked e" if m: "(j, e) \<in> set (queue s)" for j e
  proof -
    have "j \<in> locks s" using m keys inv(2) by force
    then show ?thesis using m locks_map_of [OF invD(2) [OF inv(1)], of j] invD(2) [OF inv(1)] by simp
  qed
  then have "find_index (\<lambda>p. \<not> locked (snd p)) (queue s) = None" unfolding find_index_None by force
  moreover have "map_of (queue s) i = None" using i keys by (simp add: map_of_eq_None_iff)
  ultimately show ?thesis by (simp add: modify_cached_def get_block_cache_def substitute_def)
qed

end

end
