(* ===== verification/BlockFile.thy ===== *)
theory BlockFile
  imports BlockCacheInv
begin

text \<open>
  \<open>BlockFile\<close> of \<open>src/easy-fs-fuse/src/main.rs\<close>: a file of the host as a block device. The file is its
  bytes and the position of its cursor. It meets the contract of a block device, so what is proved
  from the contract holds for it; the properties of the cache are stated for it at the end.
\<close>

section \<open>The device\<close>

record HostFile =
  contents :: "u8 list"
  cursor :: nat

text \<open>\<open>File::seek\<close> refuses offsets above \<open>i64::MAX\<close>; \<open>read\<close> returns what there is from the cursor on, at
  most the length of the buffer; \<open>write\<close> overwrites, and extends the file with zeros up to the cursor
  where that lies behind the end.\<close>

definition seek :: "u64 \<Rightarrow> HostFile \<Rightarrow> HostFile res" where
  "seek n f = (if unat n < 2 ^ 63 then Ok (f\<lparr>cursor := unat n\<rparr>) else Panic (Explicit ''Error when seeking!''))"

definition host_read :: "nat \<Rightarrow> HostFile \<Rightarrow> u8 list \<times> HostFile" where
  "host_read n f =
     (let bs = take n (drop (cursor f) (contents f)) in (bs, f\<lparr>cursor := cursor f + length bs\<rparr>))"

definition host_write :: "u8 list \<Rightarrow> HostFile \<Rightarrow> HostFile" where
  "host_write bs f =
     f\<lparr>contents := take (cursor f) (contents f) @ replicate (cursor f - length (contents f)) 0 @ bs
                    @ drop (cursor f + length bs) (contents f),
       cursor := cursor f + length bs\<rparr>"

definition bf_read_block :: "usize \<Rightarrow> HostFile \<Rightarrow> (u8 list \<times> HostFile) res" where
  "bf_read_block i f =
     bindr (seek (i * of_nat BLOCK_SZ) f) (\<lambda>f.
     case host_read BLOCK_SZ f of (bs, f) \<Rightarrow>
     bindr (assertr (length bs = BLOCK_SZ)) (\<lambda>_. Ok (bs, f)))"

definition bf_write_block :: "usize \<Rightarrow> u8 list \<Rightarrow> HostFile \<Rightarrow> HostFile res" where
  "bf_write_block i bs f =
     bindr (seek (i * of_nat BLOCK_SZ) f) (\<lambda>f.
     let f = host_write bs f in
     bindr (assertr (length bs = BLOCK_SZ)) (\<lambda>_. Ok f))"

definition block_file :: "HostFile BlockDevice" where
  "block_file = \<lparr>read_block = bf_read_block, write_block = bf_write_block\<rparr>"

section \<open>It is a block device\<close>

definition bf_blk :: "HostFile \<Rightarrow> usize \<Rightarrow> u8 list" where
  "bf_blk f i = take BLOCK_SZ (drop (unat i * BLOCK_SZ) (contents f))"

definition bf_ok :: "nat \<Rightarrow> usize \<Rightarrow> bool" where
  "bf_ok n i \<longleftrightarrow> unat i < n"

text \<open>The file has exactly \<open>n\<close> blocks.\<close>

definition bf_inv :: "nat \<Rightarrow> HostFile \<Rightarrow> bool" where
  "bf_inv n f \<longleftrightarrow> length (contents f) = n * BLOCK_SZ \<and> n * BLOCK_SZ < 2 ^ 63"

lemma seek_block:
  assumes "bf_inv n f" and "bf_ok n i"
  shows "seek (i * of_nat BLOCK_SZ) f = Ok (f\<lparr>cursor := unat i * BLOCK_SZ\<rparr>)"
    and "unat i * BLOCK_SZ + BLOCK_SZ \<le> length (contents f)"
proof -
  have "unat i + 1 \<le> n" using assms(2) by (simp add: bf_ok_def)
  then have "(unat i + 1) * BLOCK_SZ \<le> n * BLOCK_SZ" by (rule mult_le_mono1)
  then show le: "unat i * BLOCK_SZ + BLOCK_SZ \<le> length (contents f)" using assms(1) by (simp add: bf_inv_def)
  then have "unat i * 512 < 2 ^ 63" using assms(1) by (simp add: bf_inv_def BLOCK_SZ_def)
  moreover from this have "unat (i * 512) = unat i * 512" by (simp add: unat_word_ariths)
  ultimately show "seek (i * of_nat BLOCK_SZ) f = Ok (f\<lparr>cursor := unat i * BLOCK_SZ\<rparr>)"
    by (simp add: seek_def BLOCK_SZ_def)
qed

lemma overwrite_block:
  assumes "length b = BLOCK_SZ" and "i * BLOCK_SZ + BLOCK_SZ \<le> length c"
  shows "take BLOCK_SZ (drop (j * BLOCK_SZ) (take (i * BLOCK_SZ) c @ b @ drop (i * BLOCK_SZ + BLOCK_SZ) c)) =
    (if j = i then b else take BLOCK_SZ (drop (j * BLOCK_SZ) c))"
proof (cases j i rule: linorder_cases)
  case less
  then have "(j + 1) * BLOCK_SZ \<le> i * BLOCK_SZ" by (intro mult_le_mono1) simp
  then obtain k where k: "i * BLOCK_SZ = j * BLOCK_SZ + BLOCK_SZ + k" by (auto simp: le_iff_add)
  have n: "j * BLOCK_SZ \<le> length (take (i * BLOCK_SZ) c)" "BLOCK_SZ \<le> length (take (BLOCK_SZ + k) (drop (j * BLOCK_SZ) c))"
    using assms(2) k by simp_all
  have "drop (j * BLOCK_SZ) (take (i * BLOCK_SZ) c) = take (BLOCK_SZ + k) (drop (j * BLOCK_SZ) c)"
    by (simp add: drop_take k)
  then have "take BLOCK_SZ (drop (j * BLOCK_SZ) (take (i * BLOCK_SZ) c @ R)) = take BLOCK_SZ (drop (j * BLOCK_SZ) c)" for R
    using n by (simp only: drop_append take_append) simp
  then show ?thesis using less by (metis less_irrefl)
next
  case equal
  then show ?thesis using assms by simp
next
  case greater
  then have "(i + 1) * BLOCK_SZ \<le> j * BLOCK_SZ" by (intro mult_le_mono1) simp
  then obtain k where k: "j * BLOCK_SZ = (i * BLOCK_SZ + BLOCK_SZ) + k" by (auto simp: le_iff_add)
  have n: "length (take (i * BLOCK_SZ) c @ b) = i * BLOCK_SZ + BLOCK_SZ" using assms by simp
  have "drop (length (take (i * BLOCK_SZ) c @ b) + k) ((take (i * BLOCK_SZ) c @ b) @ drop (i * BLOCK_SZ + BLOCK_SZ) c) =
      drop k (drop (i * BLOCK_SZ + BLOCK_SZ) c)"
    by (simp only: drop_append) simp
  then show ?thesis using greater unfolding n by (simp add: k add.commute)
qed

interpretation bf: device_contract block_file bf_blk "bf_ok n" "bf_inv n" for n
proof (unfold_locales, goal_cases)
  case (1 w i)
  note sk = seek_block [OF 1]
  have "host_read BLOCK_SZ (w\<lparr>cursor := unat i * BLOCK_SZ\<rparr>) = (bf_blk w i, w\<lparr>cursor := unat i * BLOCK_SZ + BLOCK_SZ\<rparr>)"
    using sk(2) by (simp add: host_read_def bf_blk_def Let_def)
  moreover have "length (bf_blk w i) = BLOCK_SZ" using sk(2) by (simp add: bf_blk_def)
  ultimately show ?case
    using sk(1) 1(1) by (simp add: block_file_def bf_read_block_def bf_inv_def) (simp add: bf_blk_def)
next
  case (2 w i b)
  note sk = seek_block [OF 2(1,2)]
  let ?c = "take (unat i * BLOCK_SZ) (contents w) @ b @ drop (unat i * BLOCK_SZ + BLOCK_SZ) (contents w)"
  have "write_block block_file i b w = Ok (w\<lparr>contents := ?c, cursor := unat i * BLOCK_SZ + BLOCK_SZ\<rparr>)"
    using sk 2(3) by (simp add: block_file_def bf_write_block_def host_write_def Let_def)
  moreover have "length ?c = length (contents w)" using sk(2) 2(3) by simp
  moreover have "bf_blk (w\<lparr>contents := ?c, cursor := x\<rparr>) j = (if j = i then b else bf_blk w j)" for j x
    using overwrite_block [OF 2(3) sk(2), of "unat j"] unfolding bf_blk_def word_unat_eq_iff [of j i] by simp
  ultimately show ?case using 2(1) by (simp add: bf_inv_def)
next
  case (3 w i)
  then show ?case using seek_block(2) [OF 3] by (simp add: bf_blk_def)
qed

section \<open>The cache over a file\<close>

text \<open>A consistent cache over a file of \<open>n\<close> blocks that shows the blocks \<open>V\<close>, with the blocks \<open>L\<close> locked.\<close>

abbreviation bf_state :: "nat \<Rightarrow> usize set \<Rightarrow> (usize \<Rightarrow> u8 list) \<Rightarrow> HostFile store \<Rightarrow> bool" where
  "bf_state n \<equiv> cache_state block_file bf_blk (bf_ok n) (bf_inv n)"

lemma data_block_simps [simp]:
  "size_of data_block = BLOCK_SZ" "length b = BLOCK_SZ \<Longrightarrow> get_ref data_block 0 b = b"
  "length b = BLOCK_SZ \<Longrightarrow> put_ref data_block 0 x b = x"
  by (simp_all add: data_block_def get_ref_def put_ref_def)

lemma fits_block [simp]: "fits 0 BLOCK_SZ"
  by (simp add: fits_def BLOCK_SZ_def)

lemma state_length: "bf_state n L V s \<Longrightarrow> bf_ok n i \<Longrightarrow> length (V i) = BLOCK_SZ"
  using bf.view_length by (auto simp: cache_state_def)

lemma modify_block:
  assumes "bf_state n L V s" and "unat i < n" and "i \<notin> L" and "card L < 16" and "length (g (V i)) = 512"
  shows "returns (modify_cached block_file i data_block 0 (\<lambda>b s. Ok (b, g b, s)) s)
    (\<lambda>(old, s'). old = V i \<and> bf_state n L (V(i := g (V i))) s')"
proof -
  have i: "bf_ok n i" using assms(2) by (simp add: bf_ok_def)
  have len: "length (V i) = BLOCK_SZ" by (rule state_length [OF assms(1) i])
  have L: "card L < BLOCK_CACHE_SIZE" and g: "length (g (V i)) = BLOCK_SZ"
    using assms(4,5) by (simp_all add: BLOCK_CACHE_SIZE_def BLOCK_SZ_def)
  show ?thesis
    using bf.modify_cached_pure [OF assms(1) i assms(3) L, of 0 data_block "\<lambda>b s. Ok (b, g b, s)" "V i" "g (V i)"] g len
    by simp
qed

text \<open>A file of zeroed blocks and the empty cache; the examples use one of 20 blocks.\<close>

definition zero_file :: "nat \<Rightarrow> HostFile" where
  "zero_file n = \<lparr>contents = replicate (n * BLOCK_SZ) 0, cursor = 0\<rparr>"

definition zero_blocks :: "nat \<Rightarrow> usize \<Rightarrow> u8 list" where
  "zero_blocks n i = (if unat i < n then replicate 512 0 else [])"

lemma zero_state:
  assumes "n * BLOCK_SZ < 2 ^ 63"
  shows "bf_state n {} (zero_blocks n) (manager_new (zero_file n))"
proof -
  have "bf_blk (zero_file n) i = replicate 512 0" if "unat i < n" for i
  proof -
    have "unat i * 512 + 512 \<le> n * 512" using that by simp
    then have "min (n * 512 - unat i * 512) 512 = (512 :: nat)" by linarith
    then show ?thesis by (simp add: bf_blk_def zero_file_def BLOCK_SZ_def min.commute)
  qed
  then have "cache_view bf_blk (bf_ok n) (manager_new (zero_file n)) = zero_blocks n"
    by (auto simp: fun_eq_iff cache_view_def manager_new_def zero_blocks_def bf_ok_def)
  then show ?thesis using assms
    by (simp add: cache_state_def cache_inv_def manager_new_def locks_def bf_inv_def zero_file_def BLOCK_SZ_def)
qed

definition demo_file :: HostFile where
  "demo_file = zero_file 20"

definition demo_blocks :: "usize \<Rightarrow> u8 list" where
  "demo_blocks i = (if unat i < 20 then replicate 512 0 else [])"

lemma demo_state: "bf_state 20 {} demo_blocks (manager_new demo_file)"
proof -
  have "zero_blocks 20 = demo_blocks" by (simp add: fun_eq_iff zero_blocks_def demo_blocks_def)
  then show ?thesis using zero_state [of 20] by (simp add: demo_file_def BLOCK_SZ_def)
qed

text \<open>C10: the cache is transparent. Modifying a block that is not in use through the cache never
  panics while fewer than 16 blocks are locked, hands the closure the current content of the block,
  and afterwards the cache shows exactly that block changed, whatever had to be evicted and written
  back on the way.\<close>

theorem modify_changes_one_block:
  assumes "bf_state n L V s" and "unat i < n" and "i \<notin> L" and "card L < 16" and "length (g (V i)) = 512"
  shows "returns (modify_cached block_file i data_block 0 (\<lambda>b s. Ok (b, g b, s)) s)
    (\<lambda>(old, s'). old = V i \<and> bf_state n L (V(i := g (V i))) s')"
  by (rule modify_block [of n L V s i g, OF assms])

theorem modify_changes_one_block_witness:
  "returns (modify_cached block_file 3 data_block 0 (\<lambda>b s. Ok (b, b[7 := 9], s)) (manager_new demo_file))
    (\<lambda>(old, s'). old = replicate 512 0 \<and> bf_state 20 {} (demo_blocks(3 := (replicate 512 0)[7 := 9])) s')"
  using modify_changes_one_block [OF demo_state, of 3 "\<lambda>b. b[7 := 9]"] by (simp add: demo_blocks_def)

text \<open>C11: with no block locked, \<open>block_cache_sync_all\<close> returns, changes nothing of what the cache shows,
  and leaves every block of the file with the content the cache shows.\<close>

theorem sync_all_persists:
  assumes "bf_state n {} V s"
  shows "returns (block_cache_sync_all s)
    (\<lambda>s'. bf_state n {} V s' \<and> (\<forall>i. unat i < n \<longrightarrow> bf_blk (disk s') i = V i))"
  using bf.sync_all_ok [OF assms] by (simp add: bf_ok_def)

theorem sync_all_persists_witness:
  "returns (bindr (modify_cached block_file 3 data_block 0 (\<lambda>b s. Ok (b, b[7 := 9], s)) (manager_new demo_file))
     (\<lambda>(_, s). block_cache_sync_all s))
   (\<lambda>s'. bf_blk (disk s') 3 = (replicate 512 0)[7 := 9])"
proof -
  have "returns (block_cache_sync_all s) (\<lambda>s'. bf_blk (disk s') 3 = (replicate 512 0)[7 := 9])"
    if "bf_state 20 {} (demo_blocks(3 := (demo_blocks 3)[7 := 9])) s" for s
    by (rule returns_mono [OF sync_all_persists [OF that]]) (auto dest!: spec [of _ 3] simp: demo_blocks_def)
  then show ?thesis
    using modify_block [OF demo_state, of 3 "\<lambda>b. b[7 := 9]"]
    by (auto simp: demo_blocks_def elim!: returns_mono)
qed

text \<open>C12: the cache's limits. With all 16 entries locked, asking for a block that is not cached panics,
  and using a block again while it is locked spins for ever, whatever the closures do.\<close>

theorem cache_limits:
  assumes "bf_state n L V s"
  shows "(card L = 16 \<and> i \<notin> L \<longrightarrow>
      modify_cached block_file i T off f s = Panic (Explicit ''Run out of BlockCache!'')) \<and>
    (i \<in> L \<longrightarrow> modify_cached block_file i T off f s = Panic Deadlock)"
  using bf.full_cache_panics [OF assms] bf.reuse_deadlocks [OF assms] by (auto simp: BLOCK_CACHE_SIZE_def)

text \<open>A closure that modifies its own block again.\<close>

theorem cache_limits_witness:
  "modify_cached block_file 3 data_block 0
     (\<lambda>b s. bindr (modify_cached block_file 3 data_block 0 (\<lambda>b s. Ok ((), b, s)) s) (\<lambda>(_, s). Ok ((), b, s)))
     (manager_new demo_file) = Panic Deadlock"
proof -
  let ?s = "manager_new demo_file"
  have "returns (get_block_cache block_file 3 ?s) (\<lambda>s'. bf_state 20 {} demo_blocks s' \<and> 3 \<in> fst ` set (queue s'))"
    by (rule bf.get_block_cache_ok [OF demo_state]) (simp_all add: bf_ok_def BLOCK_CACHE_SIZE_def)
  then obtain s1 where s1: "get_block_cache block_file 3 ?s = Ok s1" "bf_state 20 {} demo_blocks s1" "3 \<in> fst ` set (queue s1)"
    by (auto simp: returns_def)
  obtain e s2 where s2: "lock_block 3 s1 = Ok (e, s2)" "bf_state 20 {3} demo_blocks s2"
    using bf.lock_block_ok [OF s1(2,3)] by (auto simp: returns_def)
  have "modify_cached block_file 3 data_block 0 (\<lambda>b s. Ok ((), b, s)) s2 = Panic Deadlock"
    using cache_limits [OF s2(2), of 3 data_block 0 "\<lambda>b s. Ok ((), b, s)"] by simp
  moreover have "check_offset 0 (size_of data_block) = Ok ()" using check_offset_ok [OF fits_block] by simp
  ultimately show ?thesis
    unfolding modify_cached_def [of block_file 3 data_block 0 _ ?s] by (simp add: s1(1) s2(1) del: data_block_simps)
qed

end
