(* ===== verification/InodeInv.thy ===== *)
theory InodeInv
  imports Layout BlockFile
begin

text \<open>
  The data of an inode as one sequence of bytes. A disk inode with the blocks of the disk behind it
  names its data blocks, directly and through one or two levels of index blocks. On an inode whose
  blocks are all there and all different, \<open>get_block_id\<close> finds each data block, \<open>read_at\<close> reads the
  bytes of the file and \<open>write_at\<close> overwrites them, and nothing else of the disk changes.
\<close>

section \<open>The blocks of an inode\<close>

abbreviation usz :: "u32 \<Rightarrow> usize" where "usz \<equiv> ucast"

lemma unat_usz [simp]: "unat (usz a) = unat a"
proof -
  have "unat a < 2 ^ 32" using unsigned_less [of a, where 'a = nat] by simp
  then show ?thesis by (simp add: unsigned_ucast_eq take_bit_nat_eq_self)
qed

lemma usz_inject [simp]: "usz a = usz b \<longleftrightarrow> a = b"
  by (metis unat_usz word_unat_eq_iff)

definition index_words :: "u8 list \<Rightarrow> u32 list" where
  "index_words b = load_words 4 128 b"

text \<open>The data block at position \<open>i\<close> of the file, on a disk that looks like \<open>V\<close>.\<close>

definition inode_block :: "DiskInode \<Rightarrow> (usize \<Rightarrow> u8 list) \<Rightarrow> nat \<Rightarrow> u32" where
  "inode_block d V i =
     (if i < 28 then direct d ! i
      else if i < 156 then index_words (V (usz (indirect1 d))) ! (i - 28)
      else index_words (V (usz (index_words (V (usz (indirect2 d))) ! ((i - 156) div 128)))) ! ((i - 156) mod 128))"

definition MAX_BLOCKS :: nat where "MAX_BLOCKS = 28 + 128 + 128 * 128"

text \<open>The number of index blocks that the doubly indirect block of a file with \<open>n\<close> data blocks lists.\<close>

definition level2 :: "nat \<Rightarrow> nat" where
  "level2 n = (n - 156 + 127) div 128"

lemma level2_max: "n \<le> MAX_BLOCKS \<Longrightarrow> level2 n \<le> 128"
  by (simp add: level2_def MAX_BLOCKS_def)

lemma level2_position:
  assumes "i < n" and "156 \<le> i"
  shows "(i - 156) div 128 < level2 n"
proof -
  have "(i - 156) div 128 * 128 \<le> i - 156" by simp
  also have "\<dots> < n - 156" using assms by simp
  finally show ?thesis by (simp add: level2_def)
qed

text \<open>The index blocks of a file with \<open>n\<close> data blocks.\<close>

definition index_blocks :: "DiskInode \<Rightarrow> (usize \<Rightarrow> u8 list) \<Rightarrow> nat \<Rightarrow> u32 list" where
  "index_blocks d V n =
     (if 28 < n then [indirect1 d] else []) @
     (if 156 < n then indirect2 d # take (level2 n) (index_words (V (usz (indirect2 d)))) else [])"

definition inode_blocks :: "DiskInode \<Rightarrow> (usize \<Rightarrow> u8 list) \<Rightarrow> nat \<Rightarrow> u32 list" where
  "inode_blocks d V n = map (inode_block d V) [0..<n] @ index_blocks d V n"

definition inode_ok :: "(usize \<Rightarrow> bool) \<Rightarrow> DiskInode \<Rightarrow> (usize \<Rightarrow> u8 list) \<Rightarrow> nat \<Rightarrow> bool" where
  "inode_ok ok d V n \<longleftrightarrow> length (direct d) = 28 \<and> n \<le> MAX_BLOCKS \<and>
     (\<forall>b \<in> set (inode_blocks d V n). ok (usz b)) \<and> distinct (inode_blocks d V n)"

lemma length_index_words [simp]: "length (index_words b) = 128"
  by (simp add: index_words_def)

lemma index_words_store: "length ws = 128 \<Longrightarrow> index_words (store_words 4 ws) = ws"
  using load_store_words [of 4 ws] by (simp add: index_words_def)

lemma indirect_block_simps [simp]:
  "size_of indirect_block = BLOCK_SZ" "length b = BLOCK_SZ \<Longrightarrow> get_ref indirect_block 0 b = index_words b"
  "length b = BLOCK_SZ \<Longrightarrow> put_ref indirect_block 0 ws b = store_words 4 ws"
  by (simp_all add: indirect_block_def word_array_def get_ref_def put_ref_def index_words_def BLOCK_SZ_def)

text \<open>Which index blocks lead to a data block.\<close>

lemma index_blocks_used:
  assumes "i < n" and "n \<le> MAX_BLOCKS" and "28 \<le> i"
  shows "i < 156 \<Longrightarrow> indirect1 d \<in> set (index_blocks d V n)"
    and "156 \<le> i \<Longrightarrow> indirect2 d \<in> set (index_blocks d V n)"
    and "156 \<le> i \<Longrightarrow> index_words (V (usz (indirect2 d))) ! ((i - 156) div 128) \<in> set (index_blocks d V n)"
proof -
  show "i < 156 \<Longrightarrow> indirect1 d \<in> set (index_blocks d V n)" "156 \<le> i \<Longrightarrow> indirect2 d \<in> set (index_blocks d V n)"
    using assms by (auto simp: index_blocks_def)
  show "index_words (V (usz (indirect2 d))) ! ((i - 156) div 128) \<in> set (index_blocks d V n)" if "156 \<le> i"
  proof -
    let ?w = "index_words (V (usz (indirect2 d)))" and ?j = "(i - 156) div 128"
    have j: "?j < level2 n" "level2 n \<le> 128" using level2_position [OF assms(1) that] level2_max [OF assms(2)] by simp_all
    then have "?w ! ?j \<in> set (take (level2 n) ?w)" by (metis length_index_words length_take min.absorb2 nth_mem nth_take)
    then show ?thesis using assms(1) that by (simp add: index_blocks_def)
  qed
qed

text \<open>The block numbers depend on the index blocks only.\<close>

lemma inode_block_cong:
  assumes "\<And>b. b \<in> set (index_blocks d V n) \<Longrightarrow> V' (usz b) = V (usz b)" and "n \<le> MAX_BLOCKS"
  shows "i < n \<Longrightarrow> inode_block d V' i = inode_block d V i" and "index_blocks d V' n = index_blocks d V n"
    and "inode_blocks d V' n = inode_blocks d V n"
proof -
  show eq: "inode_block d V' i = inode_block d V i" if "i < n" for i
    using index_blocks_used [where d = d and V = V, OF that assms(2)] assms(1) by (auto simp: inode_block_def not_less)
  have "156 < n \<Longrightarrow> V' (usz (indirect2 d)) = V (usz (indirect2 d))" by (rule assms(1)) (simp add: index_blocks_def)
  then show "index_blocks d V' n = index_blocks d V n" by (auto simp: index_blocks_def)
  then show "inode_blocks d V' n = inode_blocks d V n" using eq by (simp add: inode_blocks_def)
qed

lemma inode_okD:
  assumes "inode_ok ok d V n"
  shows "length (direct d) = 28" and "n \<le> MAX_BLOCKS"
    and "\<And>i. i < n \<Longrightarrow> inode_block d V i \<in> set (inode_blocks d V n)"
    and "\<And>b. b \<in> set (index_blocks d V n) \<Longrightarrow> b \<in> set (inode_blocks d V n)"
    and "\<And>i j. i < n \<Longrightarrow> j < n \<Longrightarrow> inode_block d V i = inode_block d V j \<longleftrightarrow> i = j"
    and "\<And>i. i < n \<Longrightarrow> inode_block d V i \<notin> set (index_blocks d V n)"
    and "\<And>b. b \<in> set (inode_blocks d V n) \<Longrightarrow> ok (usz b)"
proof -
  have d: "distinct (map (inode_block d V) [0..<n])" "set (map (inode_block d V) [0..<n]) \<inter> set (index_blocks d V n) = {}"
    using assms by (simp_all add: inode_ok_def inode_blocks_def)
  show "inode_block d V i = inode_block d V j \<longleftrightarrow> i = j" if "i < n" "j < n" for i j
    using nth_eq_iff_index_eq [OF d(1), of i j] that by simp
  show "inode_block d V i \<notin> set (index_blocks d V n)" if "i < n" for i using d(2) that by (auto simp: disjoint_iff)
qed (use assms in \<open>auto simp: inode_ok_def inode_blocks_def\<close>)

section \<open>Finding a block\<close>

context device_contract
begin

lemma st_length: "st L V s \<Longrightarrow> ok i \<Longrightarrow> length (V i) = BLOCK_SZ"
  using view_length by (auto simp: cache_state_def)

lemma read_indirect_ok:
  assumes "st L V s" and "ok (usz b)" and "usz b \<notin> L" and "card L < BLOCK_CACHE_SIZE" and "i < 128"
  shows "returns (read_indirect dev b i s) (\<lambda>(v, s'). v = index_words (V (usz b)) ! i \<and> st L V s')"
  using read_cached_pure [OF assms(1-4), of 0 indirect_block "\<lambda>blk s. bindr (indexr blk i) (\<lambda>x. Ok (x, s))"]
    st_length [OF assms(1,2)] assms(5)
  by (simp add: read_indirect_def indexr_def)

lemma get_block_id_ok:
  assumes st: "st L V s" and L: "card L < BLOCK_CACHE_SIZE" and ok: "inode_ok ok d V n"
    and free: "\<And>b. b \<in> set (inode_blocks d V n) \<Longrightarrow> usz b \<notin> L" and i: "unat i < n"
  shows "returns (get_block_id d i dev s) (\<lambda>(b, s'). b = inode_block d V (unat i) \<and> st L V s')"
proof -
  note D = inode_okD [OF ok]
  have rd: "returns (read_indirect dev b j s1) (\<lambda>(v, s'). v = index_words (V (usz b)) ! j \<and> st L V s')"
    if "b \<in> set (index_blocks d V n)" "j < 128" "st L V s1" for b j s1
    using read_indirect_ok [OF that(3) D(7) [OF D(4)] free [OF D(4)] L that(2)] that(1) by blast
  note u = index_blocks_used [where d = d and V = V, OF i D(2)]
  consider "unat i < 28" | "28 \<le> unat i" "unat i < 156" | "156 \<le> unat i" by linarith
  then show ?thesis
  proof cases
    case 1
    then show ?thesis using st D(1) by (simp add: get_block_id_def inode_block_def layout_consts)
  next
    case 2
    then show ?thesis using rd [OF u(1), of "unat i - 28" s] st by (simp add: get_block_id_def inode_block_def layout_consts)
  next
    case 3
    have "(unat i - 156) div 128 < 128" using level2_position [OF i 3] level2_max [OF D(2)] by simp
    then have "returns (read_indirect dev (indirect2 d) ((unat i - 156) div 128) s)
        (\<lambda>(v, s'). v = index_words (V (usz (indirect2 d))) ! ((unat i - 156) div 128) \<and> st L V s')"
      using rd [OF u(2)] 3 st by simp
    moreover have "returns (read_indirect dev (index_words (V (usz (indirect2 d))) ! ((unat i - 156) div 128)) ((unat i - 156) mod 128) s1)
        (\<lambda>(v, s'). v = inode_block d V (unat i) \<and> st L V s')" if "st L V s1" for s1
      using rd [OF u(3) _ that] 3 by (simp add: inode_block_def)
    ultimately show ?thesis using 3 by (auto simp: get_block_id_def layout_consts Let_def elim!: returns_mono)
  qed
qed

end

section \<open>The bytes of a file\<close>

definition file_byte :: "DiskInode \<Rightarrow> (usize \<Rightarrow> u8 list) \<Rightarrow> nat \<Rightarrow> u8" where
  "file_byte d V p = V (usz (inode_block d V (p div BLOCK_SZ))) ! (p mod BLOCK_SZ)"

definition file_bytes :: "DiskInode \<Rightarrow> (usize \<Rightarrow> u8 list) \<Rightarrow> u8 list" where
  "file_bytes d V = map (file_byte d V) [0..<unat (di_size d)]"

lemma overwrite_overwrite:
  assumes "a + length xs + length ys \<le> length buf"
  shows "overwrite (overwrite buf a xs) (a + length xs) ys = overwrite buf a (xs @ ys)"
  using assms by (simp add: overwrite_def ac_simps)

text \<open>The part of a block that one round of a loop handles.\<close>

lemma block_round:
  assumes "start < fin" and "x = min ((start div BLOCK_SZ + 1) * BLOCK_SZ) fin"
  shows "start < x" "x \<le> fin" "start mod BLOCK_SZ + (x - start) \<le> BLOCK_SZ" "x \<noteq> fin \<Longrightarrow> x div BLOCK_SZ = start div BLOCK_SZ + 1"
    and "\<And>p. start \<le> p \<Longrightarrow> p < x \<Longrightarrow> p div BLOCK_SZ = start div BLOCK_SZ \<and> p mod BLOCK_SZ = start mod BLOCK_SZ + (p - start)"
proof -
  obtain q r where q: "start div 512 = q" "start mod 512 = r" "start = q * 512 + r" "r < 512"
    by (metis div_mult_mod_eq mod_less_divisor zero_less_numeral)
  have x: "x = min ((q + 1) * 512) fin" using assms(2) q(1) by (simp add: BLOCK_SZ_def)
  show "start < x" "x \<le> fin" using x q(3,4) assms(1) by auto
  have top: "x \<le> (q + 1) * 512" using x by simp
  then show "start mod BLOCK_SZ + (x - start) \<le> BLOCK_SZ" using q by (simp add: BLOCK_SZ_def)
  show "x div BLOCK_SZ = start div BLOCK_SZ + 1" if "x \<noteq> fin"
    using that x q(1) by (auto simp: BLOCK_SZ_def min_def split: if_splits)
  show "p div BLOCK_SZ = start div BLOCK_SZ \<and> p mod BLOCK_SZ = start mod BLOCK_SZ + (p - start)" if "start \<le> p" "p < x" for p
  proof -
    have p: "q * 512 + (r + (p - start)) = p" "r + (p - start) < 512" using that q(3) top by simp_all
    have "(q * 512 + t) div 512 = q \<and> (q * 512 + t) mod 512 = t" if "t < 512" for t using that by simp
    from this [OF p(2)] show ?thesis unfolding p(1) BLOCK_SZ_def q(1,2) .
  qed
qed

lemma block_slice:
  assumes "start < fin" and "x = min ((start div BLOCK_SZ + 1) * BLOCK_SZ) fin"
    and "length (V (usz (inode_block d V (start div BLOCK_SZ)))) = BLOCK_SZ"
  shows "take (x - start) (drop (start mod BLOCK_SZ) (V (usz (inode_block d V (start div BLOCK_SZ))))) = map (file_byte d V) [start..<x]"
proof (rule nth_equalityI)
  note r = block_round [OF assms(1,2)]
  fix j assume "j < length (take (x - start) (drop (start mod BLOCK_SZ) (V (usz (inode_block d V (start div BLOCK_SZ))))))"
  then have "j < x - start" by simp
  then have j: "start + j < x" by linarith
  have pj: "(start + j) div BLOCK_SZ = start div BLOCK_SZ" "(start + j) mod BLOCK_SZ = start mod BLOCK_SZ + j"
    using r(5) [OF le_add1 j] by (metis, metis add_diff_cancel_left')
  have "start mod BLOCK_SZ + j < BLOCK_SZ" using r(3) j by linarith
  then show "take (x - start) (drop (start mod BLOCK_SZ) (V (usz (inode_block d V (start div BLOCK_SZ))))) ! j = map (file_byte d V) [start..<x] ! j"
    using j assms(3) by (simp add: file_byte_def pj)
qed (use block_round(3) [OF assms(1,2)] assms(3) in simp)

context device_contract
begin

lemma read_loop_ok:
  assumes "st L V s" and L: "card L < BLOCK_CACHE_SIZE" and ok: "inode_ok ok d V n" and free: "\<And>b. b \<in> set (inode_blocks d V n) \<Longrightarrow> usz b \<notin> L"
    and "start < fin" and fin: "fin \<le> n * BLOCK_SZ" and "rs + (fin - start) \<le> length buf"
  shows "returns (read_loop d dev start fin (start div BLOCK_SZ) rs buf s)
    (\<lambda>(m, buf', s'). m = rs + (fin - start) \<and> buf' = overwrite buf rs (map (file_byte d V) [start..<fin]) \<and> st L V s')"
  using assms(1,5,7)
proof (induction "fin - start" arbitrary: start rs buf s rule: less_induct)
  case less
  define x where "x = min ((start div BLOCK_SZ + 1) * BLOCK_SZ) fin"
  note r = block_round [OF less.prems(2) x_def] and D = inode_okD [OF ok]
  have i: "start div BLOCK_SZ < n" using less.prems(2) fin by (simp add: less_mult_imp_div_less)
  have u: "unat (of_nat (start div BLOCK_SZ) :: u32) = start div BLOCK_SZ"
    using i D(2) by (simp add: unat_of_nat MAX_BLOCKS_def)
  let ?b = "inode_block d V (start div BLOCK_SZ)" and ?data = "map (file_byte d V) [start..<x]"
  note b = D(3) [OF i]
  have get: "returns (get_block_id d (of_nat (start div BLOCK_SZ)) dev s) (\<lambda>(b, s'). b = ?b \<and> st L V s')"
    using get_block_id_ok [OF less.prems(1) L ok free, of "of_nat (start div BLOCK_SZ)"] u i by simp
  have run: "returns (read_cached dev (usz ?b) data_block 0
      (\<lambda>blk s. Ok (overwrite buf rs (take (x - start) (drop (start mod BLOCK_SZ) blk)), s)) s1)
      (\<lambda>(buf', s'). buf' = overwrite buf rs ?data \<and> st L V s')" if s1: "st L V s1" for s1
    using read_cached_pure [OF s1 D(7) [OF b] free [OF b] L, of 0 data_block "\<lambda>blk s. Ok (overwrite buf rs (take (x - start) (drop (start mod BLOCK_SZ) blk)), s)"]
      st_length [OF s1 D(7) [OF b]] block_slice [OF less.prems(2) x_def] by simp
  have rest: "returns (if x = fin then Ok (rs + (x - start), overwrite buf rs ?data, s1)
        else read_loop d dev x fin (start div BLOCK_SZ + 1) (rs + (x - start)) (overwrite buf rs ?data) s1)
      (\<lambda>(m, buf', s'). m = rs + (fin - start) \<and> buf' = overwrite buf rs (map (file_byte d V) [start..<fin]) \<and> st L V s')"
    if s1: "st L V s1" for s1
  proof (cases "x = fin")
    case True
    then show ?thesis using s1 by simp
  next
    case False
    have len: "rs + (x - start) + (fin - x) \<le> length buf" "rs + length ?data \<le> length buf" using less.prems(3) r(1,2) by simp_all
    have e: "overwrite (overwrite buf rs ?data) (rs + (x - start)) (map (file_byte d V) [x..<fin]) = overwrite buf rs (map (file_byte d V) [start..<fin])"
      using overwrite_overwrite [of rs ?data "map (file_byte d V) [x..<fin]" buf] len(1) upt_add_eq_append [of start x "fin - x"] r(1,2)
      by simp
    show ?thesis
      using less.hyps [OF _ s1, of x "rs + (x - start)" "overwrite buf rs ?data"] r(1,2) r(4) [OF False] False len e
      by (auto elim!: returns_mono)
  qed
  obtain s1 where s1: "get_block_id d (of_nat (start div BLOCK_SZ)) dev s = Ok (?b, s1)" "st L V s1"
    using get by (auto simp: returns_def)
  obtain s2 where s2: "read_cached dev (usz ?b) data_block 0
      (\<lambda>blk s. Ok (overwrite buf rs (take (x - start) (drop (start mod BLOCK_SZ) blk)), s)) s1 = Ok (overwrite buf rs ?data, s2)" "st L V s2"
    using run [OF s1(2)] by (auto simp: returns_def)
  show ?case
    unfolding read_loop.simps [of d dev start] Let_def x_def [symmetric] s1(1) bindr.simps prod.case s2(1) by (rule rest [OF s2(2)])
qed

end

section \<open>Writing\<close>

lemma nth_overwrite:
  assumes "a + length xs \<le> length buf" and "i < length buf"
  shows "overwrite buf a xs ! i = (if a \<le> i \<and> i < a + length xs then xs ! (i - a) else buf ! i)"
  using assms by (auto simp: overwrite_def nth_append)

text \<open>\<open>V'\<close> is \<open>V\<close> with the bytes \<open>bs\<close> written at position \<open>a\<close> of the file.\<close>

definition written :: "DiskInode \<Rightarrow> nat \<Rightarrow> (usize \<Rightarrow> u8 list) \<Rightarrow> (usize \<Rightarrow> u8 list) \<Rightarrow> nat \<Rightarrow> u8 list \<Rightarrow> bool" where
  "written d n V V' a bs \<longleftrightarrow>
     (\<forall>b. b \<notin> usz ` inode_block d V ` {0..<n} \<longrightarrow> V' b = V b) \<and>
     (\<forall>p < n * BLOCK_SZ. file_byte d V' p = (if a \<le> p \<and> p < a + length bs then bs ! (p - a) else file_byte d V p))"

lemma written_blocks:
  assumes "inode_ok ok d V n" and "\<And>b. b \<notin> usz ` inode_block d V ` {0..<n} \<Longrightarrow> V' b = V b"
  shows "i < n \<Longrightarrow> inode_block d V' i = inode_block d V i" and "index_blocks d V' n = index_blocks d V n"
    and "inode_blocks d V' n = inode_blocks d V n" and "inode_ok ok d V' n"
proof -
  note D = inode_okD [OF assms(1)]
  have "V' (usz b) = V (usz b)" if "b \<in> set (index_blocks d V n)" for b
    by (rule assms(2)) (use D(6) that in auto)
  note c = inode_block_cong [where V = V and V' = V' and d = d and n = n, OF this D(2)]
  show "i < n \<Longrightarrow> inode_block d V' i = inode_block d V i" "index_blocks d V' n = index_blocks d V n"
    "inode_blocks d V' n = inode_blocks d V n" using c by blast+
  then show "inode_ok ok d V' n" using assms(1) by (simp add: inode_ok_def)
qed

lemma written_join:
  assumes "inode_ok ok d V n" and "written d n V V1 a xs" and "written d n V1 V2 (a + length xs) ys"
  shows "written d n V V2 a (xs @ ys)"
proof -
  have "inode_block d V1 ` {0..<n} = inode_block d V ` {0..<n}"
    using written_blocks(1) [OF assms(1), of V1] assms(2) by (auto simp: written_def image_def)
  then show ?thesis using assms(2,3) by (auto simp: written_def nth_append add.assoc)
qed

text \<open>One block.\<close>

lemma same_block_range:
  assumes "p div BLOCK_SZ = start div BLOCK_SZ"
  shows "(start \<le> p \<and> p < start + m) = (start mod BLOCK_SZ \<le> p mod BLOCK_SZ \<and> p mod BLOCK_SZ < start mod BLOCK_SZ + m)"
    and "start mod BLOCK_SZ \<le> p mod BLOCK_SZ \<Longrightarrow> p mod BLOCK_SZ - start mod BLOCK_SZ = p - start"
proof -
  have "start = start div BLOCK_SZ * BLOCK_SZ + start mod BLOCK_SZ" "p = start div BLOCK_SZ * BLOCK_SZ + p mod BLOCK_SZ"
    using assms by (metis div_mult_mod_eq)+
  then show "(start \<le> p \<and> p < start + m) = (start mod BLOCK_SZ \<le> p mod BLOCK_SZ \<and> p mod BLOCK_SZ < start mod BLOCK_SZ + m)"
    "start mod BLOCK_SZ \<le> p mod BLOCK_SZ \<Longrightarrow> p mod BLOCK_SZ - start mod BLOCK_SZ = p - start" by linarith+
qed

lemma written_block:
  assumes ok: "inode_ok ok d V n" and r: "start < fin" "x = min ((start div BLOCK_SZ + 1) * BLOCK_SZ) fin" and n: "start div BLOCK_SZ < n"
    and len: "length (V (usz (inode_block d V (start div BLOCK_SZ)))) = BLOCK_SZ" and bs: "length bs = x - start"
  shows "written d n V (V(usz (inode_block d V (start div BLOCK_SZ)) := overwrite (V (usz (inode_block d V (start div BLOCK_SZ)))) (start mod BLOCK_SZ) bs)) start bs"
    (is "written d n V ?V start bs")
proof -
  note D = inode_okD [OF ok] and R = block_round [OF r]
  let ?b = "inode_block d V (start div BLOCK_SZ)"
  have "usz b \<in> usz ` inode_block d V ` {0..<n}" if "b = ?b" for b using n that by auto
  then have out: "?V b = V b" if "b \<notin> usz ` inode_block d V ` {0..<n}" for b using that by auto
  have same: "inode_block d ?V i = inode_block d V i" if "i < n" for i
    using written_blocks(1) [OF ok _ that, of ?V] out by blast
  have "file_byte d ?V p = (if start \<le> p \<and> p < start + length bs then bs ! (p - start) else file_byte d V p)"
    if p: "p < n * BLOCK_SZ" for p
  proof -
    have pn: "p div BLOCK_SZ < n" using p by (simp add: less_mult_imp_div_less)
    have B: "p mod BLOCK_SZ < BLOCK_SZ" by (simp add: BLOCK_SZ_def)
    show ?thesis
    proof (cases "p div BLOCK_SZ = start div BLOCK_SZ")
      case True
      note t = same_block_range(1) [OF True, of "length bs"] same_block_range(2) [OF True]
      have "file_byte d ?V p = overwrite (V (usz ?b)) (start mod BLOCK_SZ) bs ! (p mod BLOCK_SZ)"
        using same [OF pn] True by (simp add: file_byte_def)
      also have "\<dots> = (if start \<le> p \<and> p < start + length bs then bs ! (p - start) else file_byte d V p)"
        using nth_overwrite [of "start mod BLOCK_SZ" bs "V (usz ?b)" "p mod BLOCK_SZ"] R(3) len bs B t True
        by (simp add: file_byte_def)
      finally show ?thesis .
    next
      case False
      have "inode_block d V (p div BLOCK_SZ) \<noteq> ?b" using D(5) [OF pn n] False by simp
      moreover have "\<not> (start \<le> p \<and> p < start + length bs)" using R(5) [of p] False bs R(1) by auto
      ultimately show ?thesis using same [OF pn] by (auto simp: file_byte_def usz_inject)
    qed
  qed
  then show ?thesis using out by (simp add: written_def)
qed

text \<open>The whole loop.\<close>

context device_contract
begin

lemma write_block_ok:
  assumes s: "st L V s" and L: "card L < BLOCK_CACHE_SIZE" and ok: "inode_ok ok d V n" and free: "\<And>b. b \<in> set (inode_blocks d V n) \<Longrightarrow> usz b \<notin> L"
    and r: "start < fin" "x = min ((start div BLOCK_SZ + 1) * BLOCK_SZ) fin" and fin: "fin \<le> n * BLOCK_SZ" and bs: "length bs = x - start"
  shows "returns (bindr (get_block_id d (of_nat (start div BLOCK_SZ)) dev s) (\<lambda>(bid, s).
      modify_cached dev (usz bid) data_block 0 (\<lambda>blk s. Ok ((), overwrite blk (start mod BLOCK_SZ) bs, s)) s))
    (\<lambda>(_, s'). \<exists>V'. st L V' s' \<and> written d n V V' start bs)"
proof -
  note D = inode_okD [OF ok] and R = block_round [OF r]
  have i: "start div BLOCK_SZ < n" using r(1) fin by (simp add: less_mult_imp_div_less)
  have u: "unat (of_nat (start div BLOCK_SZ) :: u32) = start div BLOCK_SZ"
    using i D(2) by (simp add: unat_of_nat MAX_BLOCKS_def)
  let ?b = "inode_block d V (start div BLOCK_SZ)"
  note b = D(3) [OF i]
  obtain s1 where s1: "get_block_id d (of_nat (start div BLOCK_SZ)) dev s = Ok (?b, s1)" "st L V s1"
    using get_block_id_ok [OF s L ok free, of "of_nat (start div BLOCK_SZ)"] u i by (auto simp: returns_def)
  have len: "length (V (usz ?b)) = BLOCK_SZ" by (rule st_length [OF s D(7) [OF b]])
  note w = written_block [OF ok r i len bs]
  have "returns (modify_cached dev (usz ?b) data_block 0 (\<lambda>blk s. Ok ((), overwrite blk (start mod BLOCK_SZ) bs, s)) s1)
    (\<lambda>(v, s'). v = () \<and> st L (V(usz ?b := put_ref data_block 0 (overwrite (V (usz ?b)) (start mod BLOCK_SZ) bs) (V (usz ?b)))) s')"
    by (rule modify_cached_pure [OF s1(2) D(7) [OF b] free [OF b] L]) (use len R(3) bs in \<open>simp_all add: length_overwrite\<close>)
  then have "returns (modify_cached dev (usz ?b) data_block 0 (\<lambda>blk s. Ok ((), overwrite blk (start mod BLOCK_SZ) bs, s)) s1)
    (\<lambda>(_, s'). \<exists>V'. st L V' s' \<and> written d n V V' start bs)"
    by (rule returns_mono) (use w len R(3) bs in \<open>auto simp: length_overwrite\<close>)
  then show ?thesis by (simp add: s1(1))
qed

lemma write_loop_ok:
  assumes "st L V s" and L: "card L < BLOCK_CACHE_SIZE" and "inode_ok ok d V n" and "\<And>b. b \<in> set (inode_blocks d V n) \<Longrightarrow> usz b \<notin> L"
    and "start < fin" and fin: "fin \<le> n * BLOCK_SZ" and "ws + (fin - start) \<le> length buf"
  shows "returns (write_loop d dev start fin (start div BLOCK_SZ) ws buf s)
    (\<lambda>(m, s'). m = ws + (fin - start) \<and> (\<exists>V'. st L V' s' \<and> written d n V V' start (take (fin - start) (drop ws buf))))"
  using assms(1,3,4,5,7)
proof (induction "fin - start" arbitrary: start ws V s rule: less_induct)
  case less
  define x where "x = min ((start div BLOCK_SZ + 1) * BLOCK_SZ) fin"
  note r = block_round [OF less.prems(4) x_def] and ok = less.prems(2)
  let ?bs = "take (x - start) (drop ws buf)"
  have len: "length ?bs = x - start" using less.prems(5) r(1,2) by simp
  have rest: "returns (if x = fin then Ok (ws + (x - start), s1) else write_loop d dev x fin (start div BLOCK_SZ + 1) (ws + (x - start)) buf s1)
      (\<lambda>(m, s'). m = ws + (fin - start) \<and> (\<exists>V'. st L V' s' \<and> written d n V V' start (take (fin - start) (drop ws buf))))"
    if s1: "st L V1 s1" and w: "written d n V V1 start ?bs" for s1 V1
  proof (cases "x = fin")
    case True
    then show ?thesis using s1 w by auto
  next
    case False
    note same = written_blocks(3,4) [OF ok, of V1] w [unfolded written_def, THEN conjunct1, rule_format]
    have "returns (write_loop d dev x fin (x div BLOCK_SZ) (ws + (x - start)) buf s1)
      (\<lambda>(m, s'). m = ws + (x - start) + (fin - x) \<and> (\<exists>V'. st L V' s' \<and> written d n V1 V' x (take (fin - x) (drop (ws + (x - start)) buf))))"
      by (rule less.hyps [OF _ s1]) (use same less.prems r(1,2) False in auto)
    moreover have "written d n V V' start (take (fin - start) (drop ws buf))"
      if "written d n V1 V' x (take (fin - x) (drop (ws + (x - start)) buf))" for V'
    proof -
      have "take (fin - start) (drop ws buf) = ?bs @ take (fin - x) (drop (ws + (x - start)) buf)"
        using take_add [of "x - start" "fin - x" "drop ws buf"] r(1,2) by (simp add: add.commute)
      then show ?thesis using written_join [OF ok w] that len r(1) by simp
    qed
    ultimately show ?thesis using r(1,2) r(4) [OF False] False by (auto elim!: returns_mono)
  qed
  obtain bid s1 s2 V1 where g: "get_block_id d (of_nat (start div BLOCK_SZ)) dev s = Ok (bid, s1)"
      "modify_cached dev (usz bid) data_block 0 (\<lambda>blk s. Ok ((), overwrite blk (start mod BLOCK_SZ) ?bs, s)) s1 = Ok ((), s2)"
    and w: "st L V1 s2" "written d n V V1 start ?bs"
    using write_block_ok [OF less.prems(1) L ok less.prems(3,4) x_def fin len] by (auto simp: returns_def)
  show ?case
    unfolding write_loop.simps [of d dev start] Let_def x_def [symmetric] g bindr.simps prod.case by (rule rest [OF w])
qed

end

section \<open>Whole files\<close>

text \<open>An inode whose size and blocks fit together.\<close>

definition nblocks :: "nat \<Rightarrow> nat" where
  "nblocks sz = (sz + (BLOCK_SZ - 1)) div BLOCK_SZ"

definition file_ok :: "(usize \<Rightarrow> bool) \<Rightarrow> DiskInode \<Rightarrow> (usize \<Rightarrow> u8 list) \<Rightarrow> bool" where
  "file_ok ok d V \<longleftrightarrow> inode_ok ok d V (nblocks (unat (di_size d)))"

definition file_blocks :: "DiskInode \<Rightarrow> (usize \<Rightarrow> u8 list) \<Rightarrow> u32 list" where
  "file_blocks d V = inode_blocks d V (nblocks (unat (di_size d)))"

lemma nblocks_enough: "sz \<le> nblocks sz * BLOCK_SZ"
  by (simp add: nblocks_def BLOCK_SZ_def)

lemma nblocks_bound: "nblocks sz \<le> n \<longleftrightarrow> sz \<le> n * BLOCK_SZ"
  by (simp add: nblocks_def BLOCK_SZ_def) linarith

lemma length_file_bytes [simp]: "length (file_bytes d V) = unat (di_size d)"
  by (simp add: file_bytes_def)

lemma file_bytes_slice:
  assumes "a + m \<le> unat (di_size d)"
  shows "take m (drop a (file_bytes d V)) = map (file_byte d V) [a..<a + m]"
  using assms by (simp add: file_bytes_def drop_map take_map)

lemma unat_end:
  fixes off :: usize
  assumes "unat off + m < 2 ^ 64"
  shows "unat (min (off + of_nat m) (usz sz)) = min (unat off + m) (unat sz)"
proof -
  have "unat (off + of_nat m) = unat off + m" using assms by (simp add: unat_word_ariths unat_of_nat)
  then show ?thesis by (simp add: min_def word_le_nat_alt)
qed

lemma written_file_bytes:
  assumes "written d n V V' a bs" and "a + length bs \<le> unat (di_size d)" and "unat (di_size d) \<le> n * BLOCK_SZ"
  shows "file_bytes d V' = overwrite (file_bytes d V) a bs"
proof (rule nth_equalityI)
  fix i assume "i < length (file_bytes d V')"
  then have i: "i < unat (di_size d)" "i < n * BLOCK_SZ" using assms(3) by simp_all
  then show "file_bytes d V' ! i = overwrite (file_bytes d V) a bs ! i"
    using assms(1,2) nth_overwrite [of a bs "file_bytes d V" i] by (simp add: written_def file_bytes_def)
qed (use assms(2) in simp)

text \<open>The disk \<open>V'\<close> is \<open>V\<close> with \<open>bs\<close> written into the file at \<open>off\<close>, and nothing else.\<close>

definition overwrote :: "(usize \<Rightarrow> bool) \<Rightarrow> DiskInode \<Rightarrow> nat \<Rightarrow> u8 list \<Rightarrow> (usize \<Rightarrow> u8 list) \<Rightarrow> (usize \<Rightarrow> u8 list) \<Rightarrow> bool" where
  "overwrote ok d off bs V V' \<longleftrightarrow> file_ok ok d V' \<and> file_blocks d V' = file_blocks d V \<and>
     file_bytes d V' = overwrite (file_bytes d V) off bs \<and> (\<forall>b. b \<notin> usz ` set (file_blocks d V) \<longrightarrow> V' b = V b)"

lemma written_overwrote:
  assumes ok: "file_ok ok d V" and w: "written d (nblocks (unat (di_size d))) V V' off bs" and fits: "off + length bs \<le> unat (di_size d)"
  shows "overwrote ok d off bs V V'"
proof -
  let ?n = "nblocks (unat (di_size d))"
  note same = w [unfolded written_def, THEN conjunct1, rule_format]
  have io: "inode_ok ok d V ?n" using ok by (simp add: file_ok_def)
  have "file_ok ok d V'" "file_blocks d V' = file_blocks d V"
    using written_blocks(3,4) [OF io, of V'] same by (simp_all add: file_ok_def file_blocks_def)
  moreover have "V' b = V b" if "b \<notin> usz ` set (file_blocks d V)" for b
    by (rule same) (use that in \<open>auto simp: file_blocks_def inode_blocks_def\<close>)
  ultimately show ?thesis using written_file_bytes [OF w fits nblocks_enough] by (simp add: overwrote_def)
qed

context device_contract
begin

lemma di_read_at_ok:
  assumes s: "st L V s" and L: "card L < BLOCK_CACHE_SIZE" and ok: "file_ok ok d V" and free: "\<And>b. b \<in> set (file_blocks d V) \<Longrightarrow> usz b \<notin> L"
    and m: "unat off + length buf < 2 ^ 64"
  shows "returns (di_read_at d off buf dev s) (\<lambda>(m, buf', s').
    let data = take (length buf) (drop (unat off) (file_bytes d V)) in
    m = length data \<and> buf' = overwrite buf 0 data \<and> st L V s')"
proof -
  let ?e = "min (off + of_nat (length buf)) (usz (di_size d))" and ?n = "nblocks (unat (di_size d))"
  let ?data = "take (length buf) (drop (unat off) (file_bytes d V))"
  have e: "unat ?e = min (unat off + length buf) (unat (di_size d))" by (rule unat_end [OF m])
  show ?thesis
  proof (cases "?e \<le> off")
    case True
    then have "unat ?e \<le> unat off" by (simp only: word_le_nat_alt)
    then have "unat (di_size d) \<le> unat off \<or> length buf = 0" using e by linarith
    then have none: "?data = []" by auto
    show ?thesis unfolding di_read_at_def Let_def none using s True by (simp add: overwrite_def)
  next
    case False
    then have lt: "unat off < unat ?e" by (simp add: word_le_nat_alt)
    have "?data = take (unat ?e - unat off) (drop (unat off) (file_bytes d V))" using e by (simp add: min_def)
    then have data: "?data = map (file_byte d V) [unat off..<unat ?e]"
      using file_bytes_slice [of "unat off" "unat ?e - unat off" d V] lt e by simp
    have "returns (read_loop d dev (unat off) (unat ?e) (unat off div BLOCK_SZ) 0 buf s)
      (\<lambda>(m, buf', s'). m = 0 + (unat ?e - unat off) \<and> buf' = overwrite buf 0 (map (file_byte d V) [unat off..<unat ?e]) \<and> st L V s')"
    proof (rule read_loop_ok [OF s L, of _ ?n])
      show "inode_ok ok d V ?n" using ok by (simp add: file_ok_def)
      show "usz b \<notin> L" if "b \<in> set (inode_blocks d V ?n)" for b using free that by (simp add: file_blocks_def)
      show "unat ?e \<le> ?n * BLOCK_SZ" using e nblocks_enough [of "unat (di_size d)"] by linarith
      show "0 + (unat ?e - unat off) \<le> length buf" using e by simp
    qed (rule lt)
    then show ?thesis unfolding di_read_at_def Let_def using False data by (auto elim!: returns_mono)
  qed
qed

lemma di_write_at_ok:
  assumes s: "st L V s" and L: "card L < BLOCK_CACHE_SIZE" and ok: "file_ok ok d V" and free: "\<And>b. b \<in> set (file_blocks d V) \<Longrightarrow> usz b \<notin> L"
    and m: "unat off + length buf < 2 ^ 64" and off: "unat off < unat (di_size d)" and buf: "buf \<noteq> []"
  shows "returns (di_write_at d off buf dev s) (\<lambda>(m, s').
    let data = take (unat (di_size d) - unat off) buf in
    m = length data \<and> (\<exists>V'. st L V' s' \<and> written d (nblocks (unat (di_size d))) V V' (unat off) data))"
proof -
  let ?e = "min (off + of_nat (length buf)) (usz (di_size d))" and ?n = "nblocks (unat (di_size d))"
  let ?data = "take (unat (di_size d) - unat off) buf"
  have e: "unat ?e = min (unat off + length buf) (unat (di_size d))" by (rule unat_end [OF m])
  then have lt: "unat off < unat ?e" using off buf by simp
  then have le: "off \<le> ?e" by (simp add: word_le_nat_alt)
  have data: "?data = take (unat ?e - unat off) (drop 0 buf)" "length ?data = unat ?e - unat off"
    unfolding e using off by (auto simp: min_def)
  have "returns (write_loop d dev (unat off) (unat ?e) (unat off div BLOCK_SZ) 0 buf s)
    (\<lambda>(m, s'). m = 0 + (unat ?e - unat off) \<and> (\<exists>V'. st L V' s' \<and> written d ?n V V' (unat off) (take (unat ?e - unat off) (drop 0 buf))))"
  proof (rule write_loop_ok [OF s L])
    show "inode_ok ok d V ?n" using ok by (simp add: file_ok_def)
    show "usz b \<notin> L" if "b \<in> set (inode_blocks d V ?n)" for b using free that by (simp add: file_blocks_def)
    show "unat ?e \<le> ?n * BLOCK_SZ" using e nblocks_enough [of "unat (di_size d)"] by linarith
    show "0 + (unat ?e - unat off) \<le> length buf" using e by simp
  qed (rule lt)
  then show ?thesis unfolding di_write_at_def Let_def using le data by (auto simp: assertr_def elim!: returns_mono)
qed

lemma di_write_at_file:
  assumes s: "st L V s" and L: "card L < BLOCK_CACHE_SIZE" and ok: "file_ok ok d V" and free: "\<And>b. b \<in> set (file_blocks d V) \<Longrightarrow> usz b \<notin> L"
    and m: "unat off + length buf < 2 ^ 64" and off: "unat off < unat (di_size d)" and buf: "buf \<noteq> []"
  shows "returns (di_write_at d off buf dev s) (\<lambda>(m, s').
    let data = take (unat (di_size d) - unat off) buf in
    m = length data \<and> (\<exists>V'. st L V' s' \<and> overwrote ok d (unat off) data V V'))"
proof -
  have "unat off + length (take (unat (di_size d) - unat off) buf) \<le> unat (di_size d)" using off by simp
  note w = written_overwrote [OF ok _ this]
  show ?thesis by (rule returns_mono [OF di_write_at_ok [OF assms]]) (use w in \<open>auto simp: Let_def\<close>)
qed

end

section \<open>Files on a block file\<close>

text \<open>A file of 600 bytes in blocks 5 and 7 of the demo disk.\<close>

definition demo_inode :: DiskInode where
  "demo_inode = \<lparr>di_size = 600, direct = [5, 7] @ replicate 26 0, indirect1 = 0, indirect2 = 0, type0 = File\<rparr>"

lemma demo_inode_size [simp]: "di_size demo_inode = 600"
  by (simp add: demo_inode_def)

lemma nblocks_600: "nblocks 600 = 2"
  by (simp add: nblocks_def BLOCK_SZ_def)

lemma demo_inode_blocks: "file_blocks demo_inode V = [5, 7]"
  by (simp add: file_blocks_def inode_blocks_def index_blocks_def inode_block_def demo_inode_def nblocks_600 upt_rec)

lemma demo_inode_ok: "file_ok (bf_ok 20) demo_inode demo_blocks"
  using demo_inode_blocks [of demo_blocks]
  by (simp add: file_ok_def file_blocks_def inode_ok_def MAX_BLOCKS_def demo_inode_def nblocks_600 bf_ok_def)

lemma demo_inode_bytes: "file_bytes demo_inode demo_blocks = replicate 600 0"
proof (rule nth_equalityI)
  fix p assume "p < length (file_bytes demo_inode demo_blocks)"
  then have p: "p < 600" by simp
  then have "p div 512 = 0 \<or> p div 512 = 1" by auto
  then show "file_bytes demo_inode demo_blocks ! p = replicate 600 0 ! p"
    using p by (auto simp: file_bytes_def file_byte_def inode_block_def demo_inode_def demo_blocks_def BLOCK_SZ_def)
qed simp

text \<open>C16: \<open>DiskInode::write_at\<close> overwrites the file. On an inode whose blocks are valid, different and
  not locked, writing a non-empty buffer at an offset inside the file returns the number of bytes that
  fit before the end of the file; the bytes of the file afterwards are the old ones overwritten at the
  offset by that part of the buffer, the inode is still well formed, and no block outside the file
  changes. The file may use direct, singly and doubly indirect blocks, and any of them may have been
  evicted from the cache.\<close>

theorem inode_write_at_overwrites:
  assumes "bf_state n L V s" and "card L < 16" and "file_ok (bf_ok n) d V" and "\<forall>b \<in> set (file_blocks d V). usz b \<notin> L"
    and "unat off + length buf < 2 ^ 64" and "unat off < unat (di_size d)" and "buf \<noteq> []"
  shows "returns (di_write_at d off buf block_file s) (\<lambda>(m, s').
    let data = take (unat (di_size d) - unat off) buf in
    m = length data \<and> (\<exists>V'. bf_state n L V' s' \<and> overwrote (bf_ok n) d (unat off) data V V'))"
  by (rule bf.di_write_at_file) (use assms in \<open>auto simp: BLOCK_CACHE_SIZE_def\<close>)

theorem inode_write_at_overwrites_witness:
  "returns (di_write_at demo_inode 510 [1, 2, 3] block_file (manager_new demo_file)) (\<lambda>(m, s'). m = 3 \<and>
    (\<exists>V'. bf_state 20 {} V' s' \<and> file_bytes demo_inode V' = overwrite (replicate 600 0) 510 [1, 2, 3]))"
  using inode_write_at_overwrites [OF demo_state _ demo_inode_ok, of 510 "[1, 2, 3]"]
  by (auto simp: demo_inode_blocks demo_inode_bytes overwrote_def elim!: returns_mono)

text \<open>C17: \<open>DiskInode::read_at\<close> reads the file. It returns the number of bytes between the offset and the
  end of the file or of the buffer, whichever comes first, puts exactly those bytes of the file at the
  start of the buffer and leaves the rest of the buffer alone; an offset at or past the end of the file
  reads nothing. Here it runs after a write: the bytes are those of the file with the write applied.\<close>

theorem inode_read_after_write:
  assumes "bf_state n L V s" and "card L < 16" and "file_ok (bf_ok n) d V" and "\<forall>b \<in> set (file_blocks d V). usz b \<notin> L"
    and "unat off + length buf < 2 ^ 64" and "unat off < unat (di_size d)" and "buf \<noteq> []"
    and "unat roff + length rbuf < 2 ^ 64"
  shows "returns (bindr (di_write_at d off buf block_file s) (\<lambda>(_, s). di_read_at d roff rbuf block_file s)) (\<lambda>(m, rbuf', s').
    let data = take (length rbuf) (drop (unat roff) (overwrite (file_bytes d V) (unat off) (take (unat (di_size d) - unat off) buf))) in
    m = length data \<and> rbuf' = overwrite rbuf 0 data)"
proof -
  let ?data = "take (unat (di_size d) - unat off) buf"
  have "returns (di_write_at d off buf block_file s) (\<lambda>(m, s').
      let data = ?data in m = length data \<and> (\<exists>V'. bf_state n L V' s' \<and> overwrote (bf_ok n) d (unat off) data V V'))"
    by (rule bf.di_write_at_file) (use assms in \<open>auto simp: BLOCK_CACHE_SIZE_def\<close>)
  then obtain m s' V' where w: "di_write_at d off buf block_file s = Ok (m, s')" and V': "bf_state n L V' s'" "overwrote (bf_ok n) d (unat off) ?data V V'"
    by (auto simp: returns_def Let_def)
  have "returns (di_read_at d roff rbuf block_file s') (\<lambda>(m, rbuf', s').
      let data = take (length rbuf) (drop (unat roff) (file_bytes d V')) in m = length data \<and> rbuf' = overwrite rbuf 0 data \<and> bf_state n L V' s')"
    by (rule bf.di_read_at_ok [OF V'(1) _ _ _ assms(8)]) (use V'(2) assms(2,4) in \<open>auto simp: overwrote_def BLOCK_CACHE_SIZE_def\<close>)
  moreover have "file_bytes d V' = overwrite (file_bytes d V) (unat off) ?data" using V'(2) by (simp add: overwrote_def)
  ultimately show ?thesis by (auto simp: w Let_def elim!: returns_mono)
qed

theorem inode_read_after_write_witness:
  "returns (bindr (di_write_at demo_inode 510 [1, 2, 3] block_file (manager_new demo_file))
      (\<lambda>(_, s). di_read_at demo_inode 509 [8, 8, 8, 8, 8] block_file s))
    (\<lambda>(m, rbuf', s'). m = 5 \<and> rbuf' = [0, 1, 2, 3, 0])"
proof -
  have "take 5 (drop 509 (overwrite (replicate 600 (0::u8)) 510 [1, 2, 3])) = [0, 1, 2, 3, 0]"
    by (simp add: overwrite_def)
  then show ?thesis
    using inode_read_after_write [OF demo_state _ demo_inode_ok, of 510 "[1, 2, 3]" 509 "[8, 8, 8, 8, 8]"]
    by (auto simp: demo_inode_blocks demo_inode_bytes overwrite_def elim!: returns_mono)
qed

end
