(* ===== verification/InodeGrow.thy ===== *)
theory InodeGrow
  imports InodeInv "HOL-Library.Multiset"
begin

text \<open>
  Growing and clearing an inode (\<open>increase_size\<close>, \<open>clear_size\<close> and \<open>total_blocks\<close> of
  \<open>src/easy-fs/src/layout.rs\<close>). The blocks of an inode, data and index blocks together, are listed in the
  order in which growing takes them; growing appends the new blocks to this list, clearing returns it,
  and \<open>total_blocks\<close> is its length.
\<close>

section \<open>The blocks in the order of allocation\<close>

text \<open>The index blocks that are new with data block \<open>j\<close>.\<close>

definition index_of :: "DiskInode \<Rightarrow> (usize \<Rightarrow> u8 list) \<Rightarrow> nat \<Rightarrow> u32 list" where
  "index_of d V j =
     (if j = 28 then [indirect1 d] else []) @ (if j = 156 then [indirect2 d] else []) @
     (if 156 \<le> j \<and> (j - 156) mod 128 = 0 then [index_words (V (usz (indirect2 d))) ! ((j - 156) div 128)] else [])"

definition blocks_upto :: "DiskInode \<Rightarrow> (usize \<Rightarrow> u8 list) \<Rightarrow> nat \<Rightarrow> u32 list" where
  "blocks_upto d V n = concat (map (\<lambda>j. index_of d V j @ [inode_block d V j]) [0..<n])"

lemma blocks_upto_0 [simp]: "blocks_upto d V 0 = []"
  by (simp add: blocks_upto_def)

lemma blocks_upto_Suc: "blocks_upto d V (Suc n) = blocks_upto d V n @ index_of d V n @ [inode_block d V n]"
  by (simp add: blocks_upto_def)

lemma level2_Suc:
  assumes "156 \<le> n"
  shows "level2 (Suc n) = (if (n - 156) mod 128 = 0 then (n - 156) div 128 + 1 else level2 n)"
    and "(n - 156) mod 128 = 0 \<Longrightarrow> level2 n = (n - 156) div 128"
proof -
  obtain q where n: "n = 156 + q" using assms le_Suc_ex by blast
  obtain a r where q: "q = a * 128 + r" "r < 128" by (metis div_mult_mod_eq mod_less_divisor zero_less_numeral)
  have r1: "(a * 128 + r + 127) div 128 = a + 1" if "0 < r"
  proof -
    have "a * 128 + r + 127 = (r - 1) + (a + 1) * 128" using that by simp
    then show ?thesis using q(2) by (simp only: div_mult_self1 zero_neq_numeral)
  qed
  show "level2 (Suc n) = (if (n - 156) mod 128 = 0 then (n - 156) div 128 + 1 else level2 n)"
    "(n - 156) mod 128 = 0 \<Longrightarrow> level2 n = (n - 156) div 128"
    unfolding level2_def n q(1) using q(2) r1 by auto
qed

lemma index_blocks_Suc:
  assumes "n < MAX_BLOCKS"
  shows "index_blocks d V (Suc n) = index_blocks d V n @ index_of d V n"
proof -
  let ?w = "index_words (V (usz (indirect2 d)))"
  consider "n < 28" | "n = 28" | "28 < n" "n < 156" | "n = 156" | "156 < n" by linarith
  then show ?thesis
  proof cases
    case 4
    have "level2 157 = 1" by (simp add: level2_def)
    moreover have "take 1 ?w = [?w ! 0]" by (metis length_index_words One_nat_def take_Suc_conv_app_nth append_Nil take_0 zero_less_numeral)
    ultimately show ?thesis using 4 by (simp add: index_blocks_def index_of_def)
  next
    case 5
    have "(n - 156) div 128 < 128" using assms by (simp add: MAX_BLOCKS_def)
    then have "take ((n - 156) div 128 + 1) ?w = take ((n - 156) div 128) ?w @ [?w ! ((n - 156) div 128)]"
      by (simp add: take_Suc_conv_app_nth)
    then show ?thesis using 5 level2_Suc [of n] by (auto simp: index_blocks_def index_of_def)
  qed (auto simp: index_blocks_def index_of_def)
qed

lemma mset_blocks_upto: "n \<le> MAX_BLOCKS \<Longrightarrow> mset (blocks_upto d V n) = mset (inode_blocks d V n)"
proof (induction n)
  case 0
  then show ?case by (simp add: inode_blocks_def index_blocks_def)
next
  case (Suc n)
  then show ?case by (simp add: blocks_upto_Suc inode_blocks_def index_blocks_Suc)
qed

lemma blocks_upto_inode_blocks:
  assumes "n \<le> MAX_BLOCKS"
  shows "set (blocks_upto d V n) = set (inode_blocks d V n)" and "distinct (blocks_upto d V n) = distinct (inode_blocks d V n)"
  using mset_blocks_upto [OF assms, of d V] by (metis set_mset_mset, metis mset_eq_imp_distinct_iff)

text \<open>Their number.\<close>

definition blocks_total :: "nat \<Rightarrow> nat" where
  "blocks_total n = n + (if 28 < n then 1 else 0) + (if 156 < n then 1 + level2 n else 0)"

lemma length_index_blocks: "n \<le> MAX_BLOCKS \<Longrightarrow> length (index_blocks d V n) = blocks_total n - n"
  using level2_max [of n] by (simp add: index_blocks_def blocks_total_def)

lemma length_blocks_upto: "n \<le> MAX_BLOCKS \<Longrightarrow> length (blocks_upto d V n) = blocks_total n"
  using length_index_blocks [of n d V] mset_blocks_upto [of n d V, THEN mset_eq_length] by (simp add: inode_blocks_def blocks_total_def)

lemma total_blocks_ok:
  assumes "nblocks (unat sz) \<le> MAX_BLOCKS"
  shows "unat (data_blocks_of sz) = nblocks (unat sz)" and "unat (total_blocks sz) = blocks_total (nblocks (unat sz))"
proof -
  have sz: "unat sz \<le> MAX_BLOCKS * 512" using assms nblocks_bound [of "unat sz" MAX_BLOCKS] by (simp add: BLOCK_SZ_def)
  have "unat (sz + 512 - 1) = unat sz + 511"
  proof -
    have "sz + 512 - 1 = sz + 511" by simp
    then show ?thesis using sz by (simp add: unat_word_ariths MAX_BLOCKS_def)
  qed
  then show n: "unat (data_blocks_of sz) = nblocks (unat sz)"
    by (simp add: data_blocks_of_def nblocks_def BLOCK_SZ_def unat_div)
  let ?n = "nblocks (unat sz)"
  have "blocks_total ?n < 2 ^ 32" using assms level2_max [OF assms] by (auto simp: blocks_total_def MAX_BLOCKS_def)
  moreover have "total_blocks sz = of_nat (blocks_total ?n)"
    unfolding total_blocks_def n Let_def by (simp add: blocks_total_def level2_def layout_consts)
  ultimately show "unat (total_blocks sz) = blocks_total ?n" by (simp add: unat_of_nat)
qed

section \<open>The list through the levels of the inode\<close>

text \<open>The part of the list below the doubly indirect block, whose entries are \<open>w\<close>, for \<open>q\<close> data blocks.\<close>

definition blocks2 :: "u32 list \<Rightarrow> (usize \<Rightarrow> u8 list) \<Rightarrow> nat \<Rightarrow> u32 list" where
  "blocks2 w V q = concat (map (\<lambda>i. (if i mod 128 = 0 then [w ! (i div 128)] else []) @
     [index_words (V (usz (w ! (i div 128)))) ! (i mod 128)]) [0..<q])"

lemma blocks2_0 [simp]: "blocks2 w V 0 = []"
  by (simp add: blocks2_def)

lemma blocks2_Suc: "blocks2 w V (Suc q) = blocks2 w V q @ (if q mod 128 = 0 then [w ! (q div 128)] else []) @
    [index_words (V (usz (w ! (q div 128)))) ! (q mod 128)]"
  by (simp add: blocks2_def)

lemma blocks_upto_direct: "n \<le> 28 \<Longrightarrow> length (direct d) = 28 \<Longrightarrow> blocks_upto d V n = take n (direct d)"
  by (induction n) (simp_all add: blocks_upto_Suc index_of_def inode_block_def take_Suc_conv_app_nth)

lemma take_1_index_words: "take (Suc 0) (index_words b) = [index_words b ! 0]"
  using take_Suc_conv_app_nth [of 0 "index_words b"] by simp

lemma blocks_upto_indirect1:
  assumes "length (direct d) = 28"
  shows "28 < n \<Longrightarrow> n \<le> 156 \<Longrightarrow>
    blocks_upto d V n = direct d @ indirect1 d # take (n - 28) (index_words (V (usz (indirect1 d))))"
proof (induction n)
  case (Suc n)
  show ?case
  proof (cases "n = 28")
    case True
    then show ?thesis unfolding blocks_upto_Suc using blocks_upto_direct [of n d V] assms
      by (simp add: index_of_def inode_block_def take_1_index_words)
  next
    case False
    then have "Suc n - 28 = Suc (n - 28)" "n - 28 < 128" using Suc.prems by simp_all
    then show ?thesis using Suc False by (simp add: blocks_upto_Suc index_of_def inode_block_def take_Suc_conv_app_nth)
  qed
qed simp

lemma blocks_upto_indirect2:
  assumes "length (direct d) = 28"
  shows "156 < n \<Longrightarrow> blocks_upto d V n = direct d @ indirect1 d # index_words (V (usz (indirect1 d))) @
    indirect2 d # blocks2 (index_words (V (usz (indirect2 d)))) V (n - 156)"
proof (induction n)
  case (Suc n)
  show ?case
  proof (cases "n = 156")
    case True
    then show ?thesis unfolding blocks_upto_Suc using blocks_upto_indirect1 [OF assms, of n V]
      by (simp add: index_of_def inode_block_def blocks2_Suc)
  next
    case False
    then have "Suc n - 156 = Suc (n - 156)" using Suc.prems by simp
    then show ?thesis using Suc False by (simp add: blocks_upto_Suc index_of_def inode_block_def blocks2_Suc)
  qed
qed simp

lemma blocks2_rows: "blocks2 w V (a * 128) = concat (map (\<lambda>i. w ! i # index_words (V (usz (w ! i)))) [0..<a])"
  and blocks2_row: "0 < r \<Longrightarrow> r \<le> 128 \<Longrightarrow>
    blocks2 w V (a * 128 + r) = blocks2 w V (a * 128) @ w ! a # take r (index_words (V (usz (w ! a))))"
proof -
  have row: "0 < r \<Longrightarrow> r \<le> 128 \<Longrightarrow>
    blocks2 w V (a * 128 + r) = blocks2 w V (a * 128) @ w ! a # take r (index_words (V (usz (w ! a))))" for a r
  proof (induction r)
    case (Suc r)
    have "(a * 128 + r) div 128 = a" "(a * 128 + r) mod 128 = r" using Suc.prems by simp_all
    then have "blocks2 w V (a * 128 + Suc r) =
        blocks2 w V (a * 128 + r) @ (if r = 0 then [w ! a] else []) @ [index_words (V (usz (w ! a))) ! r]"
      by (simp only: add_Suc_right blocks2_Suc)
    then show ?case using Suc by (cases "r = 0") (simp_all add: take_Suc_conv_app_nth)
  qed simp
  then show "0 < r \<Longrightarrow> r \<le> 128 \<Longrightarrow>
    blocks2 w V (a * 128 + r) = blocks2 w V (a * 128) @ w ! a # take r (index_words (V (usz (w ! a))))" .
  show "blocks2 w V (a * 128) = concat (map (\<lambda>i. w ! i # index_words (V (usz (w ! i)))) [0..<a])"
  proof (induction a)
    case (Suc a)
    then show ?case using row [of 128 a] by (simp add: add.commute)
  qed simp
qed

text \<open>The list determines its parts.\<close>

lemma blocks_upto_eqD:
  assumes "blocks_upto d' V' n = blocks_upto d V n" and "n \<le> MAX_BLOCKS"
  shows "index_blocks d' V' n = index_blocks d V n" and "\<And>i. i < n \<Longrightarrow> inode_block d' V' i = inode_block d V i"
proof -
  have "blocks_upto d' V' n = blocks_upto d V n \<Longrightarrow> n \<le> MAX_BLOCKS \<Longrightarrow>
    index_blocks d' V' n = index_blocks d V n \<and> (\<forall>i < n. inode_block d' V' i = inode_block d V i)" for n
  proof (induction n)
    case (Suc n)
    have "length (blocks_upto d' V' n) = length (blocks_upto d V n)" using Suc.prems(2) by (simp add: length_blocks_upto)
    then show ?case using Suc by (auto simp: blocks_upto_Suc index_blocks_Suc less_Suc_eq)
  qed (simp add: index_blocks_def)
  then show "index_blocks d' V' n = index_blocks d V n" "\<And>i. i < n \<Longrightarrow> inode_block d' V' i = inode_block d V i"
    using assms by blast+
qed

lemma blocks_upto_split: "n \<le> m \<Longrightarrow> \<exists>xs. blocks_upto d V m = blocks_upto d V n @ xs"
proof (induction m)
  case (Suc m)
  then show ?case by (cases "n = Suc m") (auto simp: blocks_upto_Suc)
qed simp

lemma index_blocks_split: "n \<le> m \<Longrightarrow> m \<le> MAX_BLOCKS \<Longrightarrow> \<exists>xs. index_blocks d V m = index_blocks d V n @ xs"
proof (induction m)
  case (Suc m)
  then show ?case by (cases "n = Suc m") (auto simp: index_blocks_Suc)
qed simp

section \<open>Clearing\<close>

lemma push_entries_ok: "n \<le> length arr \<Longrightarrow> push_entries n arr = Ok (take n arr)"
  by (induction n) (simp_all add: indexr_def take_Suc_conv_app_nth)

lemma store_index_words: "length b = BLOCK_SZ \<Longrightarrow> store_words 4 (index_words b) = b"
  by (simp add: index_words_def store_load_words BLOCK_SZ_def)

text \<open>What is left of an inode with \<open>n\<close> data blocks.\<close>

definition cleared :: "DiskInode \<Rightarrow> nat \<Rightarrow> DiskInode" where
  "cleared d n = d\<lparr>di_size := 0, direct := replicate (min n 28) 0 @ drop (min n 28) (direct d),
     indirect1 := (if 28 < n then 0 else indirect1 d), indirect2 := (if 156 < n then 0 else indirect2 d)\<rparr>"

text \<open>The closure on the doubly indirect block, for \<open>q\<close> data blocks below it.\<close>

definition clear_indirect2_block ::
  "'w BlockDevice \<Rightarrow> nat \<Rightarrow> u32 \<Rightarrow> u32 list \<Rightarrow> 'w store \<Rightarrow> (u32 list \<times> 'w store) res" where
  "clear_indirect2_block dev q b v s =
     modify_cached dev (ucast b) indirect_block 0
       (\<lambda>ind2 s. bindr (clear_indirect2 dev [0..<q div 128] ind2 v s) (\<lambda>(v, s).
          if 0 < q mod 128 then
            bindr (indexr ind2 (q div 128)) (\<lambda>bid.
            bindr (clear_indirect1 dev bid (q mod 128) (v @ [bid]) s) (\<lambda>(v, s). Ok (v, ind2, s)))
          else Ok (v, ind2, s))) s"

context device_contract
begin

lemma clear_indirect1_ok:
  assumes "st L V s" and "ok (usz b)" and "usz b \<notin> L" and "card L < BLOCK_CACHE_SIZE" and "n \<le> 128"
  shows "returns (clear_indirect1 dev b n v s) (\<lambda>(v', s'). v' = v @ take n (index_words (V (usz b))) \<and> st L V s')"
  using modify_cached_pure [OF assms(1-4), of 0 indirect_block
      "\<lambda>ind1 s. bindr (push_entries n ind1) (\<lambda>xs. Ok (v @ xs, ind1, s))"]
    st_length [OF assms(1,2)] assms(5) BLOCK_SZ_def
  by (simp add: clear_indirect1_def push_entries_ok store_index_words)

lemma clear_indirect2_ok:
  assumes "st L V s" and "card L < BLOCK_CACHE_SIZE" and "length w = 128"
    and "\<And>i. i \<in> set is \<Longrightarrow> i < 128 \<and> ok (usz (w ! i)) \<and> usz (w ! i) \<notin> L"
  shows "returns (clear_indirect2 dev is w v s)
    (\<lambda>(v', s'). v' = v @ concat (map (\<lambda>i. w ! i # index_words (V (usz (w ! i)))) is) \<and> st L V s')"
  using assms(1,4)
proof (induction "is" arbitrary: v s)
  case (Cons i "is")
  have i: "i < 128" "ok (usz (w ! i))" "usz (w ! i) \<notin> L" using Cons.prems(2) by simp_all
  obtain s1 where s1: "clear_indirect1 dev (w ! i) 128 (v @ [w ! i]) s = Ok (v @ [w ! i] @ index_words (V (usz (w ! i))), s1)" "st L V s1"
    using clear_indirect1_ok [OF Cons.prems(1) i(2,3) assms(2), of 128 "v @ [w ! i]"] by (auto simp: returns_def)
  then show ?case
    using Cons.IH [OF s1(2), of "v @ [w ! i] @ index_words (V (usz (w ! i)))"] Cons.prems(2) i(1) assms(3)
    by (simp add: indexr_def layout_consts)
qed simp

lemma clear_rows_ok:
  assumes "st L V s" and L: "card L < BLOCK_CACHE_SIZE" and "length w = 128" and q: "q \<le> 128 * 128"
    and free: "\<And>i. i < (q + 127) div 128 \<Longrightarrow> ok (usz (w ! i)) \<and> usz (w ! i) \<notin> L"
  shows "returns (bindr (clear_indirect2 dev [0..<q div 128] w v s) (\<lambda>(v, s).
      if 0 < q mod 128 then
        bindr (indexr w (q div 128)) (\<lambda>bid.
        bindr (clear_indirect1 dev bid (q mod 128) (v @ [bid]) s) (\<lambda>(v, s). Ok (v, w, s)))
      else Ok (v, w, s)))
    (\<lambda>(v', w', s'). v' = v @ blocks2 w V q \<and> w' = w \<and> st L V s')"
proof -
  obtain a r where ar: "q div 128 = a" "q mod 128 = r" "q = a * 128 + r" "r < 128" by (metis div_mult_mod_eq mod_less_divisor zero_less_numeral)
  have le: "a \<le> (q + 127) div 128" "0 < r \<Longrightarrow> a < (q + 127) div 128" "a \<le> 128" "0 < r \<Longrightarrow> a < 128" using ar(3,4) q by auto
  obtain s1 where s1: "clear_indirect2 dev [0..<a] w v s = Ok (v @ blocks2 w V (a * 128), s1)" "st L V s1"
    using clear_indirect2_ok [OF assms(1,2,3), of "[0..<a]" v] free le by (fastforce simp: returns_def blocks2_rows)
  show ?thesis
  proof (cases "0 < r")
    case True
    then have "returns (clear_indirect1 dev (w ! a) r (v @ blocks2 w V (a * 128) @ [w ! a]) s1)
        (\<lambda>(v', s'). v' = (v @ blocks2 w V (a * 128) @ [w ! a]) @ take r (index_words (V (usz (w ! a)))) \<and> st L V s')"
      using clear_indirect1_ok [OF s1(2) _ _ L, of "w ! a" r "v @ blocks2 w V (a * 128) @ [w ! a]"] free [OF le(2)] ar(4) by simp
    then show ?thesis using True s1(1) blocks2_row [of r w V a] le(4) ar assms(3) by (auto simp: indexr_def elim!: returns_mono)
  qed (use s1 ar in simp)
qed

lemma clear_doubly_ok:
  assumes st: "st L V s" and L: "card L + 1 < BLOCK_CACHE_SIZE" and b: "ok (usz b)" "usz b \<notin> L" and q: "q \<le> 128 * 128"
    and rows: "\<And>i. i < (q + 127) div 128 \<Longrightarrow>
      ok (usz (index_words (V (usz b)) ! i)) \<and> usz (index_words (V (usz b)) ! i) \<notin> L \<and> index_words (V (usz b)) ! i \<noteq> b"
  shows "returns (clear_indirect2_block dev q b v s) (\<lambda>(v', s'). v' = v @ blocks2 (index_words (V (usz b))) V q \<and> st L V s')"
proof -
  have fin: "finite L" using st finite_locks by (auto simp: cache_state_def)
  have "returns (clear_indirect2_block dev q b v s)
      (\<lambda>(v', s'). \<exists>V'. st L V' s' \<and> (v' = v @ blocks2 (index_words (V (usz b))) V q \<and> V' = V))"
    unfolding clear_indirect2_block_def
  proof (rule modify_cached_rule [OF st b])
    fix s1 assume s1: "st (insert (usz b) L) V s1"
    have len: "length (V (usz b)) = BLOCK_SZ" using st_length [OF st b(1)] .
    have card: "card (insert (usz b) L) < BLOCK_CACHE_SIZE" using L fin by (simp add: card_insert_if)
    show "returns ((\<lambda>ind2 s. bindr (clear_indirect2 dev [0..<q div 128] ind2 v s) (\<lambda>(v, s).
        if 0 < q mod 128 then
          bindr (indexr ind2 (q div 128)) (\<lambda>bid.
          bindr (clear_indirect1 dev bid (q mod 128) (v @ [bid]) s) (\<lambda>(v, s). Ok (v, ind2, s)))
        else Ok (v, ind2, s))) (get_ref indirect_block 0 (V (usz b))) s1)
      (\<lambda>(v', x, s2). \<exists>V'. st (insert (usz b) L) V' s2 \<and> length (put_ref indirect_block 0 x (V' (usz b))) = BLOCK_SZ \<and>
        (v' = v @ blocks2 (index_words (V (usz b))) V q \<and> V'(usz b := put_ref indirect_block 0 x (V' (usz b))) = V))"
      using clear_rows_ok [OF s1 card, of "index_words (V (usz b))" q v] q rows len
      by (auto simp: store_index_words intro!: exI [of _ V] elim!: returns_mono)
  qed (use L in simp_all)
  then show ?thesis by (auto elim!: returns_mono)
qed

lemma clear_size_ok:
  assumes st: "st L V s" and L: "card L + 1 < BLOCK_CACHE_SIZE" and ok: "inode_ok ok d V n" and n: "n = nblocks (unat (di_size d))"
    and free: "\<And>b. b \<in> set (inode_blocks d V n) \<Longrightarrow> usz b \<notin> L"
  shows "returns (clear_size dev d s) (\<lambda>(v, d', s'). v = blocks_upto d V n \<and> d' = cleared d n \<and> st L V s')"
proof -
  note D = inode_okD [OF ok]
  let ?w = "index_words (V (usz (indirect2 d)))"
  have rows: "ok (usz (?w ! i)) \<and> usz (?w ! i) \<notin> L \<and> ?w ! i \<noteq> indirect2 d" if "i < level2 n" "156 < n" for i
  proof -
    have "?w ! i \<in> set (take (level2 n) ?w)"
      using that(1) level2_max [OF D(2)] by (metis length_index_words length_take min.absorb2 nth_mem nth_take)
    moreover have "distinct (index_blocks d V n)" using ok by (simp add: inode_ok_def inode_blocks_def)
    ultimately show ?thesis using D(7) D(4) free that(2) by (auto simp: index_blocks_def)
  qed
  have idx: "ok (usz b)" "usz b \<notin> L" if "b \<in> set (index_blocks d V n)" for b using D(7) free D(4) [OF that] by blast+
  have db: "unat (data_blocks d) = n" using total_blocks_ok(1) [of "di_size d"] D(2) n by (simp add: data_blocks_def)
  have dir: "push_entries (min n 28) (direct d) = Ok (take n (direct d))" using D(1) by (simp add: push_entries_ok min_def)
  consider "n \<le> 28" | "28 < n" "n \<le> 156" | "156 < n" by linarith
  then show ?thesis
  proof cases
    case 1
    then show ?thesis using st dir D(1)
      by (simp add: clear_size_def db layout_consts Let_def blocks_upto_direct cleared_def min_def)
  next
    case 2
    then have "indirect1 d \<in> set (index_blocks d V n)" by (simp add: index_blocks_def)
    from clear_indirect1_ok [OF st idx [OF this], of "n - 28" "direct d @ [indirect1 d]"] 2 L dir D(1)
    show ?thesis
      by (auto simp: clear_size_def db layout_consts Let_def blocks_upto_indirect1 cleared_def min_def elim!: returns_mono)
  next
    case 3
    then have i: "indirect1 d \<in> set (index_blocks d V n)" "indirect2 d \<in> set (index_blocks d V n)" by (simp_all add: index_blocks_def)
    let ?v = "direct d @ indirect1 d # index_words (V (usz (indirect1 d)))"
    obtain s1 where s1: "clear_indirect1 dev (indirect1 d) 128 (direct d @ [indirect1 d]) s = Ok (?v, s1)" "st L V s1"
      using clear_indirect1_ok [OF st idx [OF i(1)], of 128 "direct d @ [indirect1 d]"] L by (auto simp: returns_def)
    have run: "returns (clear_indirect2_block dev (n - 156) (indirect2 d) (?v @ [indirect2 d]) s1)
        (\<lambda>(v, s'). v = ?v @ indirect2 d # blocks2 ?w V (n - 156) \<and> st L V s')"
      using clear_doubly_ok [OF s1(2) L idx [OF i(2)], of "n - 156" "?v @ [indirect2 d]"] rows 3 D(2)
      by (simp add: MAX_BLOCKS_def level2_def)
    then show ?thesis using 3 dir D(1,2) s1(1) MAX_BLOCKS_def
      by (auto simp: clear_size_def clear_indirect2_block_def db layout_consts Let_def blocks_upto_indirect2 cleared_def min_def elim!: returns_mono)
  qed
qed

end

section \<open>Growing\<close>

lemma fill_array_ok:
  assumes "bound \<le> length arr" and "bound - cur \<le> length new"
  shows "fill_array cur bound arr new =
    Ok (max cur bound, take cur arr @ take (bound - cur) new @ drop (max cur bound) arr, drop (bound - cur) new)"
  using assms
proof (induction "bound - cur" arbitrary: cur arr new)
  case 0
  then show ?case by (simp add: fill_array.simps [of cur] max_def)
next
  case (Suc k)
  then have lt: "cur < bound" by simp
  then obtain b bs where new: "new = b # bs" using Suc.prems(2) by (cases new) auto
  have s: "bound - cur = Suc (bound - (cur + 1))" using lt by simp
  have "fill_array (cur + 1) bound (arr[cur := b]) bs = Ok (max (cur + 1) bound,
      take (cur + 1) (arr[cur := b]) @ take (bound - (cur + 1)) bs @ drop (max (cur + 1) bound) (arr[cur := b]), drop (bound - (cur + 1)) bs)"
    by (rule Suc.hyps) (use Suc.prems Suc.hyps(2) new s in simp_all)
  moreover have "take (cur + 1) (arr[cur := b]) = take cur arr @ [b]" using lt Suc.prems(1) by (simp add: take_Suc_conv_app_nth)
  ultimately show ?case using lt Suc.prems(1) new s by (simp add: fill_array.simps [of cur] updater_def max_def)
qed

text \<open>The rows below the doubly indirect block.\<close>

definition rows2 :: "nat \<Rightarrow> nat" where "rows2 q = (q + 127) div 128"

lemma rows2_0 [simp]: "rows2 0 = 0"
  by (simp add: rows2_def)

lemma level2_rows2: "level2 n = rows2 (n - 156)"
  by (simp add: level2_def rows2_def)

lemma rows2_Suc: "rows2 (Suc q) = (if q mod 128 = 0 then q div 128 + 1 else rows2 q)" "q mod 128 = 0 \<Longrightarrow> rows2 q = q div 128"
  using level2_Suc [of "156 + q"] by (simp_all add: level2_rows2 Suc_diff_le)

lemma row_less: "i < q \<Longrightarrow> i div 128 < rows2 q"
  using level2_position [of "156 + i" "156 + q"] by (simp add: level2_rows2)

lemma mset_blocks2: "mset (blocks2 w V q) =
    mset (map (nth w) [0..<rows2 q] @ map (\<lambda>i. index_words (V (usz (w ! (i div 128)))) ! (i mod 128)) [0..<q])"
proof (induction q)
  case 0
  then show ?case by (simp add: rows2_def)
next
  case (Suc q)
  then show ?case by (simp add: blocks2_Suc rows2_Suc atLeast0_lessThan_Suc)
qed

lemma length_blocks2: "length (blocks2 w V q) = q + rows2 q"
  using mset_eq_length [OF mset_blocks2 [of w V q]] by simp

lemma row_in_blocks2: "i < q \<Longrightarrow> w ! (i div 128) \<in> set (blocks2 w V q)"
  using mset_eq_setD [OF mset_blocks2 [of w V q]] row_less [of i q] by auto

lemma rows_differ:
  assumes "distinct (blocks2 w V q)" and "i < q" and "j < q" and "w ! (i div 128) = w ! (j div 128)"
  shows "i div 128 = j div 128"
proof -
  have "inj_on (nth w) {0..<rows2 q}"
    using assms(1) mset_eq_imp_distinct_iff [OF mset_blocks2 [of w V q]] by (simp add: distinct_map)
  then show ?thesis using row_less [OF assms(2)] row_less [OF assms(3)] assms(4) by (simp add: inj_on_def)
qed

lemma row_start: "q mod 128 \<noteq> 0 \<Longrightarrow> q div 128 * 128 < (q :: nat)"
  using div_mult_mod_eq [of q 128] by linarith

lemma row_order: "i < q \<Longrightarrow> q mod 128 = 0 \<Longrightarrow> i div 128 < q div (128 :: nat)"
  by (metis div_greater_zero_iff div_less_iff_less_mult dvd_div_mult_self mod_0_imp_dvd zero_less_numeral)

lemma blocks2_cong:
  assumes "\<And>i. i < q \<Longrightarrow> w' ! (i div 128) = w ! (i div 128)"
    and "\<And>i. i < q \<Longrightarrow> index_words (V' (usz (w ! (i div 128)))) ! (i mod 128) = index_words (V (usz (w ! (i div 128)))) ! (i mod 128)"
  shows "blocks2 w' V' q = blocks2 w V q"
  unfolding blocks2_def using assms by (intro arg_cong [where f = concat] map_cong) auto

lemma blocks2_prefix:
  assumes "blocks2 w' V' m @ rest = blocks2 w V q @ new" and "q \<le> m"
  shows "i < q \<Longrightarrow> w' ! (i div 128) = w ! (i div 128)"
proof -
  have ex: "\<exists>xs. blocks2 w' V' (q + k) = blocks2 w' V' q @ xs" for k by (induction k) (auto simp: blocks2_Suc)
  have same: "blocks2 w' V' q = blocks2 w V q"
    using ex [of "m - q"] assms by (auto simp: length_blocks2)
  have rows: "blocks2 w' V' q = blocks2 w V q \<Longrightarrow> i < q \<Longrightarrow> w' ! (i div 128) = w ! (i div 128)" for i
  proof (induction q arbitrary: i)
    case (Suc q)
    have e: "length (blocks2 w' V' q) = length (blocks2 w V q)" by (simp add: length_blocks2)
    have le: "i < q \<Longrightarrow> w' ! (i div 128) = w ! (i div 128)" for i
      by (rule Suc.IH) (use Suc.prems(1) e in \<open>simp add: blocks2_Suc\<close>)
    have "w' ! (q div 128) = w ! (q div 128)"
    proof (cases "q mod 128 = 0")
      case True
      then show ?thesis using Suc.prems(1) e by (auto simp: blocks2_Suc)
    next
      case False
      then have "q div 128 * 128 < q" by (rule row_start)
      then show ?thesis using le [of "q div 128 * 128"] by simp
    qed
    then show ?case using le Suc.prems(2) by (auto simp: less_Suc_eq)
  qed simp
  show "i < q \<Longrightarrow> w' ! (i div 128) = w ! (i div 128)" by (rule rows [OF same])
qed

text \<open>One round: a new row when the position is the first of its row, then the entry.\<close>

lemma blocks2_step:
  assumes w: "length w = 128" and q: "q < 128 * 128"
    and w1: "w1 = (if q mod 128 = 0 then w[q div 128 := b] else w)" and r: "r = w1 ! (q div 128)"
    and V1: "V1 = V(usz r := store_words 4 ((index_words (V (usz r)))[q mod 128 := c]))"
    and d: "distinct (blocks2 w V q @ (if q mod 128 = 0 then [b] else []))"
  shows "blocks2 w1 V1 (Suc q) = blocks2 w V q @ (if q mod 128 = 0 then [b] else []) @ [c]"
proof -
  have a: "q div 128 < 128" using q by simp
  have set1: "index_words (V1 (usz r)) = (index_words (V (usz r)))[q mod 128 := c]" by (simp add: V1 index_words_store)
  have "blocks2 w1 V1 q = blocks2 w V q"
  proof (rule blocks2_cong)
    fix i assume i: "i < q"
    show "w1 ! (i div 128) = w ! (i div 128)"
    proof (cases "q mod 128 = 0")
      case True
      then have "i div 128 \<noteq> q div 128" using i row_order [of i q] by simp
      then show ?thesis using w1 by simp
    qed (simp add: w1)
    show "index_words (V1 (usz (w ! (i div 128)))) ! (i mod 128) = index_words (V (usz (w ! (i div 128)))) ! (i mod 128)"
    proof (cases "w ! (i div 128) = r")
      case True
      have nz: "q mod 128 \<noteq> 0"
      proof
        assume z: "q mod 128 = 0"
        then have "r = b" using r w1 w a by simp
        then show False using d z row_in_blocks2 [OF i, of w V] True by simp
      qed
      moreover have "i mod 128 \<noteq> q mod 128"
      proof
        assume e: "i mod 128 = q mod 128"
        have "q div 128 * 128 < q" using nz by (rule row_start)
        then have "i div 128 = q div 128 * 128 div 128"
          using rows_differ [of w V q i "q div 128 * 128"] d i True r w1 nz by simp
        then show False using e i by (metis div_mult_mod_eq nat_less_le nonzero_mult_div_cancel_right zero_neq_numeral)
      qed
      ultimately show ?thesis using set1 True by simp
    qed (simp add: V1)
  qed
  then show ?thesis using r w1 w a set1 by (auto simp: blocks2_Suc)
qed

text \<open>Blocks that may be taken: on the device, not locked, all different.\<close>

definition usable :: "(usize \<Rightarrow> bool) \<Rightarrow> usize set \<Rightarrow> u32 list \<Rightarrow> bool" where
  "usable ok L bs \<longleftrightarrow> distinct bs \<and> (\<forall>b \<in> set bs. ok (usz b) \<and> usz b \<notin> L)"

lemma position_less: "q0 div 128 < q1 div 128 \<or> (q0 div 128 = q1 div 128 \<and> q0 mod 128 < q1 mod 128) \<longleftrightarrow> q0 < (q1 :: nat)"
proof -
  have "q0 = q0 div 128 * 128 + q0 mod 128" "q1 = q1 div 128 * 128 + q1 mod 128" "q0 mod 128 < 128" "q1 mod 128 < 128" by simp_all
  then show ?thesis by linarith
qed

lemma position_Suc:
  "Suc q div 128 = (if q mod 128 + 1 = 128 then q div 128 + 1 else q div 128)"
  "Suc q mod 128 = (if q mod 128 + 1 = 128 then 0 else q mod 128 + 1)"
  by (simp_all add: div_Suc mod_Suc)

lemma next_blocks:
  assumes "(if z then 2 else 1) \<le> length new"
  shows "\<exists>b c rest. new = (if z then [b] else []) @ c # rest"
proof -
  obtain x xs where "new = x # xs" using assms by (cases new) (simp_all split: if_splits)
  moreover have "z \<Longrightarrow> xs \<noteq> []" using assms calculation by auto
  ultimately show ?thesis by (cases z) (auto simp: neq_Nil_conv)
qed

context device_contract
begin

lemma set_entry_ok:
  assumes "st L V s" and "ok (usz b)" and "usz b \<notin> L" and "card L < BLOCK_CACHE_SIZE" and "i < 128"
  shows "returns (modify_cached dev (usz b) indirect_block 0
      (\<lambda>ind1 s. bindr (next_block (c # rest)) (\<lambda>(b, new_blocks). bindr (updater ind1 i b) (\<lambda>ind1. Ok (new_blocks, ind1, s)))) s)
    (\<lambda>(v, s'). v = rest \<and> st L (V(usz b := store_words 4 ((index_words (V (usz b)))[i := c]))) s')"
  using modify_cached_pure [OF assms(1-4), of 0 indirect_block
      "\<lambda>ind1 s. bindr (next_block (c # rest)) (\<lambda>(b, new_blocks). bindr (updater ind1 i b) (\<lambda>ind1. Ok (new_blocks, ind1, s)))"
      rest "(index_words (V (usz b)))[i := c]"]
    st_length [OF assms(1,2)] assms(5) BLOCK_SZ_def
  by (simp add: updater_def)

lemma fill_indirect2_round:
  assumes st: "st L V s" and L: "card L < BLOCK_CACHE_SIZE" and w: "length w = 128" and lt: "q0 < q1" and q1: "q1 \<le> 128 * 128"
    and us: "usable ok L (blocks2 w V q0 @ new)" and enough: "q1 + rows2 q1 \<le> q0 + rows2 q0 + length new"
  obtains w1 V1 rest s1 where
    "fill_indirect2 dev (q0 div 128) (q0 mod 128) (q1 div 128) (q1 mod 128) w new s =
       fill_indirect2 dev (Suc q0 div 128) (Suc q0 mod 128) (q1 div 128) (q1 mod 128) w1 rest s1"
    "st L V1 s1" "length w1 = 128" "blocks2 w1 V1 (Suc q0) @ rest = blocks2 w V q0 @ new"
    "\<And>b. b \<noteq> usz (w1 ! (q0 div 128)) \<Longrightarrow> V1 b = V b"
proof -
  let ?z = "q0 mod 128 = 0" and ?a = "q0 div 128"
  have "rows2 (Suc q0) \<le> rows2 q1" using lt by (simp add: rows2_def div_le_mono)
  then have len: "(if ?z then 2 else 1) \<le> length new" using enough lt by (cases ?z) (simp_all add: rows2_Suc)
  obtain b c rest where new: "new = (if ?z then [b] else []) @ c # rest"
    using next_blocks [OF len] by blast
  define w1 where "w1 = (if ?z then w[?a := b] else w)"
  define r where "r = w1 ! ?a"
  define V1 where "V1 = V(usz r := store_words 4 ((index_words (V (usz r)))[q0 mod 128 := c]))"
  have a: "?a < 128" "length w1 = 128" using lt q1 w by (simp_all add: w1_def)
  have step: "blocks2 w1 V1 (Suc q0) @ rest = blocks2 w V q0 @ new"
    using blocks2_step [OF w _ w1_def r_def V1_def] lt q1 us new by (auto simp: usable_def)
  have r: "ok (usz r)" "usz r \<notin> L"
    using row_in_blocks2 [of q0 "Suc q0" w1 V1] us step [symmetric] by (auto simp: usable_def r_def)
  obtain s1 where s1: "modify_cached dev (usz r) indirect_block 0 (\<lambda>ind1 s. bindr (next_block (c # rest)) (\<lambda>(b, new_blocks).
      bindr (updater ind1 (q0 mod 128) b) (\<lambda>ind1. Ok (new_blocks, ind1, s)))) s = Ok (rest, s1)" "st L V1 s1"
    using set_entry_ok [OF st r L, of "q0 mod 128" c rest] by (auto simp: returns_def V1_def)
  have e: "(if ?z then bindr (next_block new) (\<lambda>(b, nb). bindr (updater w ?a b) (\<lambda>ind2. Ok (ind2, nb))) else Ok (w, new)) = Ok (w1, c # rest)"
    "indexr w1 ?a = Ok r" "INODE_INDIRECT1_COUNT = 128"
    using a w by (auto simp: new w1_def r_def updater_def indexr_def layout_consts)
  have run: "fill_indirect2 dev ?a (q0 mod 128) (q1 div 128) (q1 mod 128) w new s =
      fill_indirect2 dev (Suc q0 div 128) (Suc q0 mod 128) (q1 div 128) (q1 mod 128) w1 rest s1"
    unfolding fill_indirect2.simps [of dev ?a "q0 mod 128" "q1 div 128" "q1 mod 128" w new s] position_less e bindr.simps prod.case
      s1(1) position_Suc
    using lt by (cases "q0 mod 128 + 1 = 128") (simp_all only: if_True if_False simp_thms)
  show thesis by (rule that [OF run s1(2) a(2) step]) (simp add: V1_def r_def)
qed

lemma fill_indirect2_ok:
  assumes "st L V s" and L: "card L < BLOCK_CACHE_SIZE" and "length w = 128" and "q0 \<le> q1" and q1: "q1 \<le> 128 * 128"
    and "usable ok L (blocks2 w V q0 @ new)" and "q1 + rows2 q1 \<le> q0 + rows2 q0 + length new"
  shows "returns (fill_indirect2 dev (q0 div 128) (q0 mod 128) (q1 div 128) (q1 mod 128) w new s)
    (\<lambda>(w', rest, s'). \<exists>V'. st L V' s' \<and> length w' = 128 \<and> blocks2 w' V' q1 @ rest = blocks2 w V q0 @ new \<and>
       (\<forall>b. b \<notin> usz ` nth w' ` {0..<rows2 q1} \<longrightarrow> V' b = V b))"
  using assms(1,3,4,6,7)
proof (induction "q1 - q0" arbitrary: q0 w V new s)
  case 0
  then have q: "q0 = q1" by simp
  show ?case
    unfolding q fill_indirect2.simps [of dev "q1 div 128" "q1 mod 128" "q1 div 128" "q1 mod 128" w new s] position_less
    using 0(2,3) by auto
next
  case (Suc k)
  then have lt: "q0 < q1" by simp
  obtain w1 V1 rest s1 where
    run: "fill_indirect2 dev (q0 div 128) (q0 mod 128) (q1 div 128) (q1 mod 128) w new s =
       fill_indirect2 dev (Suc q0 div 128) (Suc q0 mod 128) (q1 div 128) (q1 mod 128) w1 rest s1"
    and s1: "st L V1 s1" "length w1 = 128" and step: "blocks2 w1 V1 (Suc q0) @ rest = blocks2 w V q0 @ new"
    and V1: "\<And>b. b \<noteq> usz (w1 ! (q0 div 128)) \<Longrightarrow> V1 b = V b"
    by (rule fill_indirect2_round [OF Suc.prems(1) L Suc.prems(2) lt q1 Suc.prems(4,5)]) (rule that)
  have len: "Suc q0 + rows2 (Suc q0) + length rest = q0 + rows2 q0 + length new"
    using arg_cong [OF step, of length] by (simp add: length_blocks2)
  have "returns (fill_indirect2 dev (Suc q0 div 128) (Suc q0 mod 128) (q1 div 128) (q1 mod 128) w1 rest s1)
    (\<lambda>(w', rest', s'). \<exists>V'. st L V' s' \<and> length w' = 128 \<and> blocks2 w' V' q1 @ rest' = blocks2 w1 V1 (Suc q0) @ rest \<and>
       (\<forall>b. b \<notin> usz ` nth w' ` {0..<rows2 q1} \<longrightarrow> V' b = V1 b))"
  proof (rule Suc.hyps(1) [OF _ s1])
    show "usable ok L (blocks2 w1 V1 (Suc q0) @ rest)" unfolding step by (rule Suc.prems(4))
    show "q1 + rows2 q1 \<le> Suc q0 + rows2 (Suc q0) + length rest" unfolding len by (rule Suc.prems(5))
  qed (use Suc.hyps(2) lt in simp_all)
  then show ?case unfolding run step
  proof (rule returns_mono, clarify)
    fix w' rest' s' V'
    assume h: "st L V' s'" "length w' = 128" "blocks2 w' V' q1 @ rest' = blocks2 w V q0 @ new"
      "\<forall>b. b \<notin> usz ` nth w' ` {0..<rows2 q1} \<longrightarrow> V' b = V1 b"
    have "w' ! (q0 div 128) = w1 ! (q0 div 128)"
      using blocks2_prefix [of w' V' q1 rest' w1 V1 "Suc q0" rest q0] h(3) step lt by simp
    then have "usz (w1 ! (q0 div 128)) \<in> usz ` nth w' ` {0..<rows2 q1}" using row_less [OF lt] by force
    then have "V' b = V b" if "b \<notin> usz ` nth w' ` {0..<rows2 q1}" for b using h(4) V1 [of b] that by auto
    then show "\<exists>V'. st L V' s' \<and> length w' = 128 \<and> blocks2 w' V' q1 @ rest' = blocks2 w V q0 @ new \<and>
        (\<forall>b. b \<notin> usz ` nth w' ` {0..<rows2 q1} \<longrightarrow> V' b = V b)" using h(1-3) by blast
  qed
qed

end

text \<open>The inode \<open>d\<close> with \<open>n\<close> data blocks has grown to \<open>d'\<close> with \<open>m\<close>: its list of blocks has taken from
  \<open>new\<close> all but \<open>rest\<close>, and the disk has changed in index blocks only.\<close>

definition grown ::
  "DiskInode \<Rightarrow> (usize \<Rightarrow> u8 list) \<Rightarrow> nat \<Rightarrow> u32 list \<Rightarrow> DiskInode \<Rightarrow> (usize \<Rightarrow> u8 list) \<Rightarrow> nat \<Rightarrow> u32 list \<Rightarrow> bool" where
  "grown d V n new d' V' m rest \<longleftrightarrow> n \<le> m \<and> m \<le> MAX_BLOCKS \<and> length (direct d') = 28 \<and> di_size d' = di_size d \<and> type0 d' = type0 d \<and>
     blocks_upto d' V' m @ rest = blocks_upto d V n @ new \<and>
     (\<forall>b. b \<notin> usz ` set (index_blocks d' V' m) \<longrightarrow> V' b = V b)"

lemma grown_refl: "n \<le> MAX_BLOCKS \<Longrightarrow> length (direct d) = 28 \<Longrightarrow> grown d V n new d V n new"
  by (simp add: grown_def)

text \<open>The old part of the list stays.\<close>

lemma grown_old:
  assumes "grown d V n new d' V' m rest"
  shows "blocks_upto d' V' n = blocks_upto d V n" and "index_blocks d' V' n = index_blocks d V n"
    and "\<And>i. i < n \<Longrightarrow> inode_block d' V' i = inode_block d V i" and "set (index_blocks d V n) \<subseteq> set (index_blocks d' V' m)"
proof -
  have g: "n \<le> m" "m \<le> MAX_BLOCKS" "blocks_upto d' V' m @ rest = blocks_upto d V n @ new" using assms by (simp_all add: grown_def)
  obtain xs where xs: "blocks_upto d' V' m = blocks_upto d' V' n @ xs" using blocks_upto_split [OF g(1)] by blast
  show e: "blocks_upto d' V' n = blocks_upto d V n" using g xs by (auto simp: length_blocks_upto)
  note E = blocks_upto_eqD [OF e le_trans [OF g(1,2)]]
  show "index_blocks d' V' n = index_blocks d V n" by (rule E(1))
  show "inode_block d' V' i = inode_block d V i" if "i < n" for i by (rule E(2) [OF that])
  show "set (index_blocks d V n) \<subseteq> set (index_blocks d' V' m)" using index_blocks_split [OF g(1,2), of d' V'] E(1) by auto
qed

lemma grown_trans:
  assumes "grown d V n new d1 V1 m1 new1" and "grown d1 V1 m1 new1 d2 V2 m2 new2"
  shows "grown d V n new d2 V2 m2 new2"
proof -
  have "V2 b = V b" if "b \<notin> usz ` set (index_blocks d2 V2 m2)" for b
  proof -
    have "V2 b = V1 b" "b \<notin> usz ` set (index_blocks d1 V1 m1)" using assms(2) grown_old(4) [OF assms(2)] that by (auto simp: grown_def)
    then show ?thesis using assms(1) by (simp add: grown_def)
  qed
  then show ?thesis using assms by (simp add: grown_def)
qed

lemma blocks_upto_size [simp]: "blocks_upto (d\<lparr>di_size := k\<rparr>) V n = blocks_upto d V n"
  by (simp add: blocks_upto_def index_of_def inode_block_def cong: if_cong)

lemma blocks_total_mono: "n \<le> m \<Longrightarrow> m + blocks_total n \<le> n + blocks_total m"
  by (auto simp: blocks_total_def level2_def div_le_mono)

text \<open>What one phase leaves to the next.\<close>

lemma grown_next:
  assumes "grown d V n new d1 V1 m1 rest" and "usable ok L (blocks_upto d V n @ new)" and "blocks_total m \<le> blocks_total n + length new"
  shows "usable ok L (blocks_upto d1 V1 m1 @ rest)" and "blocks_total m \<le> blocks_total m1 + length rest" and "length (direct d1) = 28"
proof -
  have e: "blocks_upto d1 V1 m1 @ rest = blocks_upto d V n @ new" and le: "n \<le> m1" "m1 \<le> MAX_BLOCKS" using assms(1) by (simp_all add: grown_def)
  show "usable ok L (blocks_upto d1 V1 m1 @ rest)" unfolding e by (rule assms(2))
  have "blocks_total m1 + length rest = blocks_total n + length new"
    using arg_cong [OF e, of length] le by (simp add: length_blocks_upto)
  then show "blocks_total m \<le> blocks_total m1 + length rest" using assms(3) by simp
  show "length (direct d1) = 28" using assms(1) by (simp add: grown_def)
qed

lemma grow_direct:
  assumes "length (direct d) = 28" and "n \<le> m" and "m \<le> MAX_BLOCKS" and "m - n \<le> length new"
  shows "\<exists>dir rest. fill_array n (min m 28) (direct d) new = Ok (max n (min m 28), dir, rest) \<and>
    grown d V n new (d\<lparr>direct := dir\<rparr>) V (max n (min m 28)) rest"
proof -
  let ?b = "min m 28"
  have f: "fill_array n ?b (direct d) new =
      Ok (max n ?b, take n (direct d) @ take (?b - n) new @ drop (max n ?b) (direct d), drop (?b - n) new)"
    by (rule fill_array_ok) (use assms in auto)
  show ?thesis
  proof (cases "n < 28")
    case True
    let ?dir = "take n (direct d) @ take (?b - n) new @ drop ?b (direct d)"
    have m: "max n ?b = ?b" using True assms(2) by simp
    have "length ?dir = 28" "take ?b ?dir = take n (direct d) @ take (?b - n) new" using True assms by (auto simp: min_def)
    then have "grown d V n new (d\<lparr>direct := ?dir\<rparr>) V ?b (drop (?b - n) new)"
      using True assms blocks_upto_direct [of ?b "d\<lparr>direct := ?dir\<rparr>" V] blocks_upto_direct [of n d V] by (simp add: grown_def)
    then show ?thesis using f m by auto
  next
    case False
    then show ?thesis using f assms grown_refl [of n d V new] by (auto simp: max_def)
  qed
qed

lemma usz_image: "usz a \<in> usz ` A \<longleftrightarrow> a \<in> A"
  by auto

lemma grown_indirect2:
  assumes d: "length (direct d) = 28" and n: "156 \<le> n" "n \<le> m" "156 < m" "m \<le> MAX_BLOCKS"
    and split: "blocks_upto d V n @ new = direct d @ indirect1 d # index_words (V (usz (indirect1 d))) @ b # blocks2 w V (n - 156) @ new1"
    and dist: "distinct (blocks_upto d V n @ new)" and w': "length w' = 128"
    and eq: "blocks2 w' V' (m - 156) @ rest = blocks2 w V (n - 156) @ new1"
    and frame: "\<And>c. c \<notin> usz ` nth w' ` {0..<rows2 (m - 156)} \<Longrightarrow> V' c = V c"
  shows "grown d V n new (d\<lparr>indirect2 := b\<rparr>) (V'(usz b := store_words 4 w')) m rest"
proof -
  let ?V2 = "V'(usz b := store_words 4 w')" and ?d = "d\<lparr>indirect2 := b\<rparr>" and ?q = "m - 156"
  have rows: "nth w' ` {0..<rows2 ?q} \<subseteq> set (blocks2 w V (n - 156) @ new1)"
    using mset_eq_setD [OF mset_blocks2 [of w' V' ?q]] arg_cong [OF eq, of set] by auto
  have i1: "indirect1 d \<noteq> b" "indirect1 d \<notin> nth w' ` {0..<rows2 ?q}" and b: "b \<notin> nth w' ` {0..<rows2 ?q}"
    using dist rows unfolding split by auto
  have b2: "index_words (?V2 (usz b)) = w'" using w' by (simp add: index_words_store)
  have "blocks2 w' ?V2 ?q = blocks2 w' V' ?q"
  proof (rule blocks2_cong)
    fix i assume "i < ?q"
    then have "w' ! (i div 128) \<noteq> b" using row_less [of i ?q] b by auto
    then show "index_words (?V2 (usz (w' ! (i div 128)))) ! (i mod 128) = index_words (V' (usz (w' ! (i div 128)))) ! (i mod 128)" by simp
  qed simp
  moreover have "?V2 (usz (indirect1 d)) = V (usz (indirect1 d))" using i1 frame [of "usz (indirect1 d)"] by (simp add: usz_image)
  ultimately have list: "blocks_upto ?d ?V2 m @ rest = blocks_upto d V n @ new"
    unfolding split using blocks_upto_indirect2 [of ?d m ?V2] d n(3) b2 eq by simp
  have "rows2 ?q \<le> 128" using level2_max [OF n(4)] by (simp add: level2_rows2)
  then have "set (index_blocks ?d ?V2 m) = {indirect1 d, b} \<union> nth w' ` {0..<rows2 ?q}"
    using n(3) w' b2 by (auto simp: index_blocks_def level2_rows2 nth_image)
  then have "?V2 c = V c" if "c \<notin> usz ` set (index_blocks ?d ?V2 m)" for c using that frame [of c] by auto
  then show ?thesis using n d list unfolding grown_def by simp
qed

context device_contract
begin

lemma grow_indirect1:
  assumes st: "st L V s" and L: "card L < BLOCK_CACHE_SIZE" and d: "length (direct d) = 28" and n: "28 \<le> n" "n \<le> M" "28 < M" "M \<le> 156"
    and us: "usable ok L (blocks_upto d V n @ new)" and enough: "M + 1 \<le> n + (if 28 < n then 1 else 0) + length new"
  shows "\<exists>d1 new1 new2 V2 s2.
    (if n = 28 then bindr (next_block new) (\<lambda>(b, nb). Ok (d\<lparr>indirect1 := b\<rparr>, nb)) else Ok (d, new)) = Ok (d1, new1) \<and>
    modify_cached dev (usz (indirect1 d1)) indirect_block 0 (\<lambda>ind1 s. bindr (fill_array (n - 28) (M - 28) ind1 new1)
       (\<lambda>(current, ind1, nb). Ok ((current, nb), ind1, s))) s = Ok ((M - 28, new2), s2) \<and>
    st L V2 s2 \<and> grown d V n new d1 V2 M new2"
proof -
  define b where "b = (if n = 28 then hd new else indirect1 d)"
  define new1 where "new1 = (if n = 28 then tl new else new)"
  define d1 where "d1 = d\<lparr>indirect1 := b\<rparr>"
  define w where "w = index_words (V (usz b))"
  define w2 where "w2 = take (n - 28) w @ take (M - n) new1 @ drop (M - 28) w"
  have lw: "length w = 128" by (simp add: w_def)
  have nonempty: "n = 28 \<Longrightarrow> new \<noteq> []" using n enough by auto
  have new1: "M - n \<le> length new1" using n enough by (auto simp: new1_def)
  have first: "(if n = 28 then bindr (next_block new) (\<lambda>(b, nb). Ok (d\<lparr>indirect1 := b\<rparr>, nb)) else Ok (d, new)) = Ok (d1, new1)"
    using nonempty by (cases new) (auto simp: d1_def b_def new1_def)
  have split: "blocks_upto d V n @ new = direct d @ b # take (n - 28) w @ new1"
    using n nonempty blocks_upto_direct [of n d V] blocks_upto_indirect1 [OF d, of n V] d by (auto simp: b_def new1_def w_def)
  have b: "ok (usz b)" "usz b \<notin> L" using us unfolding split by (simp_all add: usable_def)
  have e: "M - 28 - (n - 28) = M - n" "max (n - 28) (M - 28) = M - 28" using n by simp_all
  have fill: "fill_array (n - 28) (M - 28) w new1 = Ok (M - 28, w2, drop (M - n) new1)"
    using fill_array_ok [of "M - 28" w "n - 28" new1] new1 n lw unfolding e w2_def by simp
  have len: "length w2 = 128" using new1 n lw by (simp add: w2_def)
  let ?V2 = "V(usz b := store_words 4 w2)"
  obtain s2 where s2: "modify_cached dev (usz b) indirect_block 0 (\<lambda>ind1 s. bindr (fill_array (n - 28) (M - 28) ind1 new1)
       (\<lambda>(current, ind1, nb). Ok ((current, nb), ind1, s))) s = Ok ((M - 28, drop (M - n) new1), s2)" "st L ?V2 s2"
    using modify_cached_pure [OF st b L, of 0 indirect_block
        "\<lambda>ind1 s. bindr (fill_array (n - 28) (M - 28) ind1 new1) (\<lambda>(current, ind1, nb). Ok ((current, nb), ind1, s))"
        "(M - 28, drop (M - n) new1)" w2]
      fill st_length [OF st b(1)] len BLOCK_SZ_def by (auto simp: returns_def w_def)
  have "take (M - 28) w2 = take (n - 28) w @ take (M - n) new1" using new1 n lw by (simp add: w2_def)
  then have "blocks_upto d1 ?V2 M @ drop (M - n) new1 = blocks_upto d V n @ new"
    unfolding split using blocks_upto_indirect1 [of d1 M ?V2] n d index_words_store [OF len] by (simp add: d1_def)
  then have "grown d V n new d1 ?V2 M (drop (M - n) new1)"
    using n d by (auto simp: grown_def d1_def index_blocks_def MAX_BLOCKS_def)
  then show ?thesis using first s2 by (auto simp: d1_def)
qed

lemma grow_indirect1_full:
  assumes st: "st L V s" and "card L < BLOCK_CACHE_SIZE" and "ok (usz b)" "usz b \<notin> L" and "128 \<le> k"
  shows "\<exists>s2. modify_cached dev (usz b) indirect_block 0 (\<lambda>ind1 s. bindr (fill_array k (min t 128) ind1 new)
       (\<lambda>(current, ind1, nb). Ok ((current, nb), ind1, s))) s = Ok ((k, new), s2) \<and> st L V s2"
  using modify_cached_pure [OF assms(1,3,4,2), of 0 indirect_block
      "\<lambda>ind1 s. bindr (fill_array k (min t 128) ind1 new) (\<lambda>(current, ind1, nb). Ok ((current, nb), ind1, s))"
      "(k, new)" "index_words (V (usz b))"]
    fill_array_ok [of "min t 128" "index_words (V (usz b))" k new] assms(5) st_length [OF st assms(3)] BLOCK_SZ_def
  by (auto simp: returns_def store_index_words max_def min_def split: if_splits)

lemma grow_indirect2:
  assumes st: "st L V s" and L: "card L + 1 < BLOCK_CACHE_SIZE" and d: "length (direct d) = 28" and n: "156 \<le> n" "n \<le> m" "156 < m" "m \<le> MAX_BLOCKS"
    and us: "usable ok L (blocks_upto d V n @ new)" and enough: "blocks_total m \<le> blocks_total n + length new"
  shows "\<exists>d1 new1 rest V2 s2.
    (if n = 156 then bindr (next_block new) (\<lambda>(b, nb). Ok (d\<lparr>indirect2 := b\<rparr>, nb)) else Ok (d, new)) = Ok (d1, new1) \<and>
    modify_cached dev (usz (indirect2 d1)) indirect_block 0 (\<lambda>ind2 s.
       bindr (fill_indirect2 dev ((n - 156) div 128) ((n - 156) mod 128) ((m - 156) div 128) ((m - 156) mod 128) ind2 new1 s)
         (\<lambda>(ind2, nb, s). Ok ((), ind2, s))) s = Ok ((), s2) \<and>
    st L V2 s2 \<and> grown d V n new d1 V2 m rest"
proof -
  define b where "b = (if n = 156 then hd new else indirect2 d)"
  define new1 where "new1 = (if n = 156 then tl new else new)"
  define d1 where "d1 = d\<lparr>indirect2 := b\<rparr>"
  let ?w = "index_words (V (usz b))" and ?q0 = "n - 156" and ?q1 = "m - 156"
  have nonempty: "n = 156 \<Longrightarrow> new \<noteq> []" using n enough by (auto simp: blocks_total_def)
  then have first: "(if n = 156 then bindr (next_block new) (\<lambda>(b, nb). Ok (d\<lparr>indirect2 := b\<rparr>, nb)) else Ok (d, new)) = Ok (d1, new1)"
    by (cases new) (auto simp: d1_def b_def new1_def)
  have split: "blocks_upto d V n @ new = direct d @ indirect1 d # index_words (V (usz (indirect1 d))) @ b # blocks2 ?w V ?q0 @ new1"
    using n nonempty blocks_upto_indirect1 [OF d, of n V] blocks_upto_indirect2 [OF d, of n V] by (auto simp: b_def new1_def)
  have b: "ok (usz b)" "usz b \<notin> L" using us unfolding split by (simp_all add: usable_def)
  have us2: "usable ok (insert (usz b) L) (blocks2 ?w V ?q0 @ new1)" using us unfolding split by (auto simp: usable_def)
  have len: "?q1 + rows2 ?q1 \<le> ?q0 + rows2 ?q0 + length new1"
    using enough n nonempty by (cases "n = 156") (auto simp: blocks_total_def level2_rows2 new1_def)
  have "returns (modify_cached dev (usz b) indirect_block 0 (\<lambda>ind2 s.
       bindr (fill_indirect2 dev (?q0 div 128) (?q0 mod 128) (?q1 div 128) (?q1 mod 128) ind2 new1 s)
         (\<lambda>(ind2, nb, s). Ok ((), ind2, s))) s) (\<lambda>(u, s'). \<exists>V2. st L V2 s' \<and> (\<exists>rest. grown d V n new d1 V2 m rest))"
  proof (rule modify_cached_rule [OF st b])
    fix s1 assume s1: "st (insert (usz b) L) V s1"
    have card: "card (insert (usz b) L) < BLOCK_CACHE_SIZE" using L finite_locks st by (auto simp: cache_state_def card_insert_if)
    note len_b = st_length [OF _ b(1)]
    have q: "?q0 \<le> ?q1" "?q1 \<le> 128 * 128" using n by (simp_all add: MAX_BLOCKS_def)
    obtain w' rest s2 V' where run: "fill_indirect2 dev (?q0 div 128) (?q0 mod 128) (?q1 div 128) (?q1 mod 128) ?w new1 s1 = Ok (w', rest, s2)"
      and h: "st (insert (usz b) L) V' s2" "length w' = 128" "blocks2 w' V' ?q1 @ rest = blocks2 ?w V ?q0 @ new1"
        "\<forall>c. c \<notin> usz ` nth w' ` {0..<rows2 ?q1} \<longrightarrow> V' c = V c"
      using fill_indirect2_ok [OF s1 card length_index_words q us2 len] by (auto simp: returns_def)
    have "grown d V n new d1 (V'(usz b := store_words 4 w')) m rest" unfolding d1_def
      by (rule grown_indirect2 [OF d n split _ h(2,3)]) (use us h(4) in \<open>auto simp: usable_def\<close>)
    then show "returns ((\<lambda>ind2 s. bindr (fill_indirect2 dev (?q0 div 128) (?q0 mod 128) (?q1 div 128) (?q1 mod 128) ind2 new1 s)
         (\<lambda>(ind2, nb, s). Ok ((), ind2, s))) (get_ref indirect_block 0 (V (usz b))) s1)
      (\<lambda>(u, x, s2). \<exists>V'. st (insert (usz b) L) V' s2 \<and> length (put_ref indirect_block 0 x (V' (usz b))) = BLOCK_SZ \<and>
        (\<exists>rest. grown d V n new d1 (V'(usz b := put_ref indirect_block 0 x (V' (usz b)))) m rest))"
      using run h(1,2) len_b [OF st] len_b [OF h(1)] BLOCK_SZ_def by (auto intro!: exI [of _ V'])
  qed (use L in simp_all)
  then show ?thesis using first by (fastforce simp: returns_def d1_def)
qed

lemma grow_level1:
  assumes st: "st L V s" and L: "card L < BLOCK_CACHE_SIZE" and d: "length (direct d) = 28" and n: "28 \<le> n" "n \<le> m" "28 < m" "m \<le> MAX_BLOCKS"
    and us: "usable ok L (blocks_upto d V n @ new)" and enough: "blocks_total m \<le> blocks_total n + length new"
  shows "\<exists>d1 new1 new2 V2 s2.
    (if n = 28 then bindr (next_block new) (\<lambda>(b, nb). Ok (d\<lparr>indirect1 := b\<rparr>, nb)) else Ok (d, new)) = Ok (d1, new1) \<and>
    modify_cached dev (usz (indirect1 d1)) indirect_block 0 (\<lambda>ind1 s. bindr (fill_array (n - 28) (min (m - 28) 128) ind1 new1)
       (\<lambda>(current, ind1, nb). Ok ((current, nb), ind1, s))) s = Ok ((max n (min m 156) - 28, new2), s2) \<and>
    st L V2 s2 \<and> grown d V n new d1 V2 (max n (min m 156)) new2"
proof (cases "n \<le> 156")
  case True
  define M where "M = min m 156"
  have M: "n \<le> M" "28 < M" "M \<le> 156" "max n M = M" "min (m - 28) 128 = M - 28" using True n by (auto simp: M_def)
  have "M + 1 \<le> blocks_total m" using n blocks_total_mono [of M m] by (auto simp: M_def blocks_total_def)
  moreover have "blocks_total n = n + (if 28 < n then 1 else 0)" using True by (simp add: blocks_total_def)
  ultimately have "M + 1 \<le> n + (if 28 < n then 1 else 0) + length new" using enough by simp
  from grow_indirect1 [OF st L d n(1) M(1-3) us this] show ?thesis unfolding M_def [symmetric] M(4,5) .
next
  case False
  then have "indirect1 d \<in> set (blocks_upto d V n)" using blocks_upto_indirect2 [OF d, of n V] by simp
  then have "ok (usz (indirect1 d))" "usz (indirect1 d) \<notin> L" using us by (auto simp: usable_def)
  moreover have "128 \<le> n - 28" using False by simp
  ultimately show ?thesis
    using grow_indirect1_full [OF st L, of "indirect1 d" "n - 28" "m - 28" new] grown_refl [of n d V new] False n d by (auto simp: max_def)
qed

lemma increase_size_ok:
  assumes st: "st L V s" and L: "card L + 1 < BLOCK_CACHE_SIZE" and d: "length (direct d) = 28"
    and n: "n = nblocks (unat (di_size d))" and m: "m = nblocks (unat new_size)" "n \<le> m" "m \<le> MAX_BLOCKS"
    and us: "usable ok L (blocks_upto d V n @ new)" and enough: "blocks_total m \<le> blocks_total n + length new"
  shows "returns (increase_size new_size new dev d s)
    (\<lambda>(d', s'). \<exists>V' rest. st L V' s' \<and> grown (d\<lparr>di_size := new_size\<rparr>) V n new d' V' m rest)"
proof -
  let ?d = "d\<lparr>di_size := new_size\<rparr>"
  have db: "unat (data_blocks d) = n" "unat (data_blocks ?d) = m"
    using total_blocks_ok(1) [of "di_size d"] total_blocks_ok(1) [of new_size] n m by (simp_all add: data_blocks_def)
  have more: "m - n \<le> length new" using blocks_total_mono [OF m(2)] enough by linarith
  obtain dir rest1 where A: "fill_array n (min m 28) (direct d) new = Ok (max n (min m 28), dir, rest1)"
    "grown ?d V n new (?d\<lparr>direct := dir\<rparr>) V (max n (min m 28)) rest1"
    using grow_direct [of ?d n m new V] d m(2,3) more by auto
  let ?d1 = "?d\<lparr>direct := dir\<rparr>" and ?n1 = "max n (min m 28)" and ?n2 = "max (max n (min m 28)) (min m 156)"
  show ?thesis
  proof (cases "28 < m")
    case False
    then show ?thesis using A m(2) st by (auto simp: increase_size_def Let_def db layout_consts max_def)
  next
    case True
    have us': "usable ok L (blocks_upto ?d V n @ new)" using us by simp
    note N1 = grown_next [OF A(2) us' enough]
    obtain d2 new1 rest2 V2 s2 where B:
      "(if ?n1 = 28 then bindr (next_block rest1) (\<lambda>(b, nb). Ok (?d1\<lparr>indirect1 := b\<rparr>, nb)) else Ok (?d1, rest1)) = Ok (d2, new1)"
      "modify_cached dev (usz (indirect1 d2)) indirect_block 0 (\<lambda>ind1 s. bindr (fill_array (?n1 - 28) (min (m - 28) 128) ind1 new1)
         (\<lambda>(current, ind1, nb). Ok ((current, nb), ind1, s))) s = Ok ((?n2 - 28, rest2), s2)"
      "st L V2 s2" "grown ?d1 V ?n1 rest1 d2 V2 ?n2 rest2"
      using grow_level1 [OF st _ N1(3) _ _ True m(3) N1(1,2)] True m(2) L by auto
    note G = grown_trans [OF A(2) B(4)] and N2 = grown_next [OF B(4) N1(1,2)]
    have start: "increase_size new_size new dev d s =
      (if \<not> 128 < m - 28 then Ok (d2, s2)
       else bindr (if ?n2 - 28 = 128 then bindr (next_block rest2) (\<lambda>(b, nb). Ok (d2\<lparr>indirect2 := b\<rparr>, nb)) else Ok (d2, rest2)) (\<lambda>(d, nb).
         bindr (modify_cached dev (usz (indirect2 d)) indirect_block 0 (\<lambda>ind2 s.
           bindr (fill_indirect2 dev ((?n2 - 28 - 128) div 128) ((?n2 - 28 - 128) mod 128) ((m - 28 - 128) div 128) ((m - 28 - 128) mod 128) ind2 nb s)
             (\<lambda>(ind2, nb, s). Ok ((), ind2, s))) s2) (\<lambda>(_, s). Ok (d, s))))"
      unfolding increase_size_def Let_def db layout_consts using A(1) B(1,2) True by simp
    show ?thesis
    proof (cases "156 < m")
      case False
      then have e: "?n2 = m" "\<not> 128 < m - 28" using m(2) True by simp_all
      show ?thesis using start e(2) G B(3) unfolding e(1) by auto
    next
      case True
      then have n2: "156 \<le> ?n2" "?n2 \<le> m" "?n2 - 28 = 128 \<longleftrightarrow> ?n2 = 156" using m(2) by auto
      obtain d3 new3 rest3 V3 s3 where C:
        "(if ?n2 = 156 then bindr (next_block rest2) (\<lambda>(b, nb). Ok (d2\<lparr>indirect2 := b\<rparr>, nb)) else Ok (d2, rest2)) = Ok (d3, new3)"
        "modify_cached dev (usz (indirect2 d3)) indirect_block 0 (\<lambda>ind2 s.
           bindr (fill_indirect2 dev ((?n2 - 156) div 128) ((?n2 - 156) mod 128) ((m - 156) div 128) ((m - 156) mod 128) ind2 new3 s)
             (\<lambda>(ind2, nb, s). Ok ((), ind2, s))) s2 = Ok ((), s3)"
        "st L V3 s3" "grown d2 V2 ?n2 rest2 d3 V3 m rest3"
        using grow_indirect2 [OF B(3) L N2(3) n2(1,2) True m(3) N2(1,2)] by blast
      have "increase_size new_size new dev d s = Ok (d3, s3)" unfolding start n2(3) C(1) using C(2) True by simp
      then show ?thesis using C(3) grown_trans [OF G C(4)] by auto
    qed
  qed
qed

end

section \<open>Growing and clearing a file\<close>

definition alloc_order :: "DiskInode \<Rightarrow> (usize \<Rightarrow> u8 list) \<Rightarrow> u32 list" where
  "alloc_order d V = blocks_upto d V (nblocks (unat (di_size d)))"

lemma alloc_order_blocks:
  assumes "file_ok ok d V"
  shows "set (alloc_order d V) = set (file_blocks d V)" and "distinct (alloc_order d V)" and "length (alloc_order d V) = unat (total_blocks (di_size d))"
    and "mset (alloc_order d V) = mset (file_blocks d V)"
proof -
  have n: "nblocks (unat (di_size d)) \<le> MAX_BLOCKS" using assms by (simp add: file_ok_def inode_ok_def)
  note B = blocks_upto_inode_blocks [OF n, of d V]
  show "set (alloc_order d V) = set (file_blocks d V)" "distinct (alloc_order d V)"
    using B assms by (simp_all add: alloc_order_def file_blocks_def file_ok_def inode_ok_def)
  show "length (alloc_order d V) = unat (total_blocks (di_size d))"
    using length_blocks_upto [OF n] total_blocks_ok(2) [OF n] by (simp add: alloc_order_def)
  show "mset (alloc_order d V) = mset (file_blocks d V)" using mset_blocks_upto [OF n] by (simp add: alloc_order_def file_blocks_def)
qed

text \<open>The file \<open>d\<close> has been given the blocks \<open>new\<close> and is now \<open>d'\<close>.\<close>

definition enlarged ::
  "(usize \<Rightarrow> bool) \<Rightarrow> DiskInode \<Rightarrow> (usize \<Rightarrow> u8 list) \<Rightarrow> u32 list \<Rightarrow> DiskInode \<Rightarrow> (usize \<Rightarrow> u8 list) \<Rightarrow> bool" where
  "enlarged ok d V new d' V' \<longleftrightarrow> file_ok ok d' V' \<and> type0 d' = type0 d \<and> alloc_order d' V' = alloc_order d V @ new \<and>
     take (unat (di_size d)) (file_bytes d' V') = file_bytes d V \<and> (\<forall>b. b \<notin> usz ` set (alloc_order d' V') \<longrightarrow> V' b = V b)"

lemma nblocks_mono: "a \<le> b \<Longrightarrow> nblocks a \<le> nblocks b"
  by (simp add: nblocks_def div_le_mono)

lemma blocks_num_needed_Ok:
  assumes "blocks_num_needed d new_size = Ok k" and "nblocks (unat new_size) \<le> MAX_BLOCKS"
  shows "unat (di_size d) \<le> unat new_size"
    and "blocks_total (nblocks (unat new_size)) = blocks_total (nblocks (unat (di_size d))) + unat k"
proof -
  let ?m = "nblocks (unat new_size)" and ?n = "nblocks (unat (di_size d))"
  show le: "unat (di_size d) \<le> unat new_size" using assms(1) by (auto simp: blocks_num_needed_def word_le_nat_alt assertr_def split: if_splits)
  have "?n \<le> ?m" using le by (rule nblocks_mono)
  then have le2: "blocks_total ?n \<le> blocks_total ?m" "?n \<le> MAX_BLOCKS" using blocks_total_mono [of ?n ?m] assms(2) by linarith+
  have k: "k = total_blocks new_size - total_blocks (di_size d)" using assms(1) by (auto simp: blocks_num_needed_def)
  have "total_blocks (di_size d) \<le> total_blocks new_size"
    using le2 total_blocks_ok(2) assms(2) by (simp add: word_le_nat_alt)
  then show "blocks_total ?m = blocks_total ?n + unat k"
    unfolding k using total_blocks_ok(2) assms(2) le2 by (simp add: unat_sub)
qed

lemma grown_enlarged:
  assumes ok: "file_ok ok d V" and le: "unat (di_size d) \<le> unat (di_size d')"
    and g: "grown (d\<lparr>di_size := di_size d'\<rparr>) V (nblocks (unat (di_size d))) new d' V' (nblocks (unat (di_size d'))) []"
    and us: "usable ok L (alloc_order d V @ new)"
  shows "enlarged ok d V new d' V'"
proof -
  let ?n = "nblocks (unat (di_size d))" and ?m = "nblocks (unat (di_size d'))"
  have G: "?n \<le> ?m" "?m \<le> MAX_BLOCKS" "length (direct d') = 28" "type0 d' = type0 d" "blocks_upto d' V' ?m = blocks_upto d V ?n @ new"
    "\<And>b. b \<notin> usz ` set (index_blocks d' V' ?m) \<Longrightarrow> V' b = V b" using g by (simp_all add: grown_def)
  have B: "set (inode_blocks d' V' ?m) = set (alloc_order d V @ new)" "distinct (inode_blocks d' V' ?m)"
    using blocks_upto_inode_blocks [OF G(2), of d' V'] us G(5) by (simp_all add: alloc_order_def usable_def)
  have ok': "inode_ok ok d' V' ?m" using B G(2,3) us by (auto simp: inode_ok_def usable_def)
  note D = inode_okD [OF ok']
  have "V' b = V b" if "b \<notin> usz ` set (alloc_order d' V')" for b
    using that D(4) blocks_upto_inode_blocks(1) [OF G(2), of d' V'] by (intro G(6)) (auto simp: alloc_order_def)
  moreover have "file_byte d' V' p = file_byte d V p" if "p < unat (di_size d)" for p
  proof -
    have i: "p div BLOCK_SZ < ?n" using that nblocks_enough [of "unat (di_size d)"] by (simp add: less_mult_imp_div_less)
    have e: "inode_block d' V' (p div BLOCK_SZ) = inode_block d V (p div BLOCK_SZ)"
      using grown_old(3) [OF g i] by (simp add: inode_block_def)
    have "V' (usz (inode_block d' V' (p div BLOCK_SZ))) = V (usz (inode_block d' V' (p div BLOCK_SZ)))"
      by (rule G(6)) (use D(6) [of "p div BLOCK_SZ"] i G(1) in \<open>auto simp: usz_image\<close>)
    then show ?thesis by (simp add: file_byte_def e)
  qed
  then have "take (unat (di_size d)) (file_bytes d' V') = file_bytes d V"
    using le by (simp add: file_bytes_def take_map)
  ultimately show ?thesis using ok' G(4,5) by (simp add: enlarged_def file_ok_def alloc_order_def)
qed

context device_contract
begin

lemma increase_file_ok:
  assumes st: "st L V s" and L: "card L + 1 < BLOCK_CACHE_SIZE" and ok: "file_ok ok d V"
    and need: "blocks_num_needed d new_size = Ok k" "length new = unat k" and fits: "nblocks (unat new_size) \<le> MAX_BLOCKS"
    and us: "usable ok L (alloc_order d V @ new)"
  shows "returns (increase_size new_size new dev d s)
    (\<lambda>(d', s'). \<exists>V'. st L V' s' \<and> di_size d' = new_size \<and> enlarged ok d V new d' V')"
proof -
  let ?n = "nblocks (unat (di_size d))" and ?m = "nblocks (unat new_size)"
  note N = blocks_num_needed_Ok [OF need(1) fits]
  have n: "?n \<le> ?m" using N(1) by (rule nblocks_mono)
  have "returns (increase_size new_size new dev d s)
      (\<lambda>(d', s'). \<exists>V' rest. st L V' s' \<and> grown (d\<lparr>di_size := new_size\<rparr>) V ?n new d' V' ?m rest)"
    by (rule increase_size_ok [OF st L _ refl refl n fits])
      (use ok us N(2) need(2) in \<open>simp_all add: file_ok_def inode_ok_def alloc_order_def\<close>)
  then show ?thesis
  proof (rule returns_mono, clarify)
    fix d' s' V' rest assume h: "st L V' s'" "grown (d\<lparr>di_size := new_size\<rparr>) V ?n new d' V' ?m rest"
    have e: "blocks_upto d' V' ?m @ rest = blocks_upto d V ?n @ new" "di_size d' = new_size" using h(2) by (simp_all add: grown_def)
    have "rest = []" using arg_cong [OF e(1), of length] n fits N(2) need(2) by (simp add: length_blocks_upto)
    then have "enlarged ok d V new d' V'" using grown_enlarged [OF ok _ _ us] h(2) e(2) N(1) by simp
    then show "\<exists>V'. st L V' s' \<and> di_size d' = new_size \<and> enlarged ok d V new d' V'" using h(1) e(2) by blast
  qed
qed

lemma clear_file_ok:
  assumes "st L V s" and "card L + 1 < BLOCK_CACHE_SIZE" and "file_ok ok d V" and "\<And>b. b \<in> set (file_blocks d V) \<Longrightarrow> usz b \<notin> L"
  shows "returns (clear_size dev d s)
    (\<lambda>(v, d', s'). v = alloc_order d V \<and> d' = cleared d (nblocks (unat (di_size d))) \<and> st L V s')"
  using clear_size_ok [OF assms(1,2) _ refl] assms(3,4) by (simp add: file_ok_def file_blocks_def alloc_order_def)

end

section \<open>On a file of blocks\<close>

lemma demo_alloc_order [simp]: "alloc_order demo_inode V = [5, 7]"
  by (simp add: alloc_order_def demo_inode_def nblocks_600 blocks_upto_direct)

text \<open>A file of 600 bytes on a device of 40 blocks, and the 28 blocks that it needs to grow to 14436 bytes,
  one of them an index block.\<close>

definition demo_new :: "u32 list" where
  "demo_new = map of_nat [8..<36]"

lemma demo_grow:
  "blocks_num_needed demo_inode 14436 = Ok 28" "length demo_new = 28" "nblocks 14436 = 29"
  "usable (bf_ok 40) {} (alloc_order demo_inode V @ demo_new)"
proof -
  show "blocks_num_needed demo_inode 14436 = Ok 28"
    by (simp add: blocks_num_needed_def demo_inode_def total_blocks_def data_blocks_of_def layout_consts assertr_def)
  show "length demo_new = 28" "nblocks 14436 = 29" by (simp_all add: demo_new_def nblocks_def BLOCK_SZ_def)
  show "usable (bf_ok 40) {} (alloc_order demo_inode V @ demo_new)"
    by (simp add: usable_def demo_new_def bf_ok_def upt_rec)
qed

lemma demo_file_ok: "file_ok (bf_ok 40) demo_inode (zero_blocks 40)"
  by (simp add: file_ok_def inode_ok_def MAX_BLOCKS_def inode_blocks_def index_blocks_def inode_block_def demo_inode_def nblocks_600 bf_ok_def upt_rec)

text \<open>C18: \<open>DiskInode::increase_size\<close>. Given as many unused blocks as \<open>blocks_num_needed\<close> asks for, it
  returns with the new size; the blocks of the file, in the order of their allocation, are the old ones
  followed by the new ones, index blocks of both levels included; the inode is well formed again; the
  bytes that the file had are still its first bytes, and no block outside the file changes.\<close>

theorem increase_size_appends_blocks:
  assumes "bf_state n L V s" and "card L < 15" and "file_ok (bf_ok n) d V"
    and "blocks_num_needed d new_size = Ok k" and "length new = unat k" and "nblocks (unat new_size) \<le> MAX_BLOCKS"
    and "usable (bf_ok n) L (alloc_order d V @ new)"
  shows "returns (increase_size new_size new block_file d s)
    (\<lambda>(d', s'). \<exists>V'. bf_state n L V' s' \<and> di_size d' = new_size \<and> enlarged (bf_ok n) d V new d' V')"
  by (rule bf.increase_file_ok) (use assms in \<open>simp_all add: BLOCK_CACHE_SIZE_def\<close>)

theorem increase_size_appends_blocks_witness:
  "returns (increase_size 14436 demo_new block_file demo_inode (manager_new (zero_file 40)))
    (\<lambda>(d', s'). \<exists>V'. bf_state 40 {} V' s' \<and> di_size d' = 14436 \<and> alloc_order d' V' = [5, 7] @ demo_new)"
  using increase_size_appends_blocks [OF zero_state _ demo_file_ok demo_grow(1) _ _ demo_grow(4)] demo_grow(2,3)
  by (auto simp: BLOCK_SZ_def MAX_BLOCKS_def enlarged_def elim!: returns_mono)

text \<open>C19: \<open>DiskInode::clear_size\<close> undoes growing. After \<open>increase_size\<close> it returns all the blocks of the
  file, the old and the new ones in the order of their allocation, as many as \<open>total_blocks\<close> says, which
  is what \<open>Inode::clear\<close> asserts before it frees them; the inode is empty, and no block changes.\<close>

theorem clear_size_returns_all_blocks:
  assumes "bf_state n L V s" and "card L < 15" and "file_ok (bf_ok n) d V"
    and "blocks_num_needed d new_size = Ok k" and "length new = unat k" and "nblocks (unat new_size) \<le> MAX_BLOCKS"
    and "usable (bf_ok n) L (alloc_order d V @ new)"
  shows "returns (bindr (increase_size new_size new block_file d s) (\<lambda>(d, s). clear_size block_file d s))
    (\<lambda>(v, d', s'). v = alloc_order d V @ new \<and> length v = unat (total_blocks new_size) \<and>
       di_size d' = 0 \<and> type0 d' = type0 d \<and> (\<exists>V'. bf_state n L V' s'))"
proof -
  have "returns (increase_size new_size new block_file d s)
      (\<lambda>(d', s'). \<exists>V'. bf_state n L V' s' \<and> di_size d' = new_size \<and> enlarged (bf_ok n) d V new d' V')"
    by (rule bf.increase_file_ok) (use assms in \<open>simp_all add: BLOCK_CACHE_SIZE_def\<close>)
  then obtain d1 s1 V1 where run: "increase_size new_size new block_file d s = Ok (d1, s1)"
    and h: "bf_state n L V1 s1" "di_size d1 = new_size" "file_ok (bf_ok n) d1 V1" "type0 d1 = type0 d" "alloc_order d1 V1 = alloc_order d V @ new"
    by (auto simp: returns_def enlarged_def)
  have "usz b \<notin> L" if "b \<in> set (file_blocks d1 V1)" for b
    using that alloc_order_blocks(1) [OF h(3)] assms(7) unfolding h(5) by (auto simp: usable_def)
  from bf.clear_file_ok [OF h(1) _ h(3) this] assms(2) alloc_order_blocks(3) [OF h(3)] h run show ?thesis
    by (auto simp: BLOCK_CACHE_SIZE_def cleared_def elim!: returns_mono)
qed

theorem clear_size_returns_all_blocks_witness:
  "returns (bindr (increase_size 14436 demo_new block_file demo_inode (manager_new (zero_file 40))) (\<lambda>(d, s). clear_size block_file d s))
    (\<lambda>(v, d', s'). v = [5, 7] @ demo_new \<and> di_size d' = 0)"
  using clear_size_returns_all_blocks [OF zero_state _ demo_file_ok demo_grow(1) _ _ demo_grow(4)] demo_grow(2,3)
  by (auto simp: BLOCK_SZ_def MAX_BLOCKS_def elim!: returns_mono)

end
