(* ===== verification/BitmapInv.thy ===== *)
theory BitmapInv
  imports Bitmap BlockFile
begin

text \<open>
  A bitmap on the disk is a function from bit numbers to booleans: \<open>alloc\<close> sets the first clear bit,
  \<open>dealloc\<close> clears a set one, and neither touches any other bit or block. The lemmas are proved for
  every block device in the locale \<open>device_contract\<close>; the properties are stated for a file of the
  host at the end.
\<close>

section \<open>The bits of a bitmap\<close>

definition bm_block :: "Bitmap \<Rightarrow> nat \<Rightarrow> usize" where
  "bm_block bm i = of_nat (i div BLOCK_BITS) + start_block_id bm"

definition bm_words :: "u8 list \<Rightarrow> u64 list" where
  "bm_words b = load_words 8 64 b"

definition bm_bit :: "Bitmap \<Rightarrow> (usize \<Rightarrow> u8 list) \<Rightarrow> nat \<Rightarrow> bool" where
  "bm_bit bm V i \<longleftrightarrow> bit (bm_words (V (bm_block bm i)) ! (i mod BLOCK_BITS div 64)) (i mod 64)"

definition bm_put :: "Bitmap \<Rightarrow> nat \<Rightarrow> bool \<Rightarrow> (usize \<Rightarrow> u8 list) \<Rightarrow> usize \<Rightarrow> u8 list" where
  "bm_put bm i v V =
     (let b = bm_block bm i; ws = bm_words (V b); k = i mod BLOCK_BITS div 64 in
      V(b := store_words 8 (ws[k := (if v then set_bit else unset_bit) (i mod 64) (ws ! k)])))"

definition bm_size :: "Bitmap \<Rightarrow> nat" where
  "bm_size bm = unat (blocks bm) * BLOCK_BITS"

text \<open>The blocks of the bitmap are there, and neither they nor the bit numbers wrap around.\<close>

definition bm_ok :: "(usize \<Rightarrow> bool) \<Rightarrow> Bitmap \<Rightarrow> bool" where
  "bm_ok ok bm \<longleftrightarrow> (\<forall>i < bm_size bm. ok (bm_block bm i)) \<and>
     unat (start_block_id bm) + unat (blocks bm) \<le> 2 ^ 64 \<and> bm_size bm \<le> 2 ^ 64"

lemma bm_words_store: "length ws = 64 \<Longrightarrow> bm_words (store_words 8 ws) = ws"
  using load_store_words [of 8 ws] by (simp add: bm_words_def)

lemma store_bm_words: "length b = BLOCK_SZ \<Longrightarrow> store_words 8 (bm_words b) = b"
  using store_load_words [of b 8 64, where 'a = 64] by (simp add: bm_words_def BLOCK_SZ_def)

lemma length_bm_words [simp]: "length (bm_words b) = 64"
  by (simp add: bm_words_def)

lemma bm_block_inj:
  assumes "bm_ok ok bm" and "i < bm_size bm" and "j < bm_size bm"
  shows "bm_block bm i = bm_block bm j \<longleftrightarrow> i div BLOCK_BITS = j div BLOCK_BITS"
proof -
  have "i div BLOCK_BITS < unat (blocks bm)" "j div BLOCK_BITS < unat (blocks bm)"
    using assms(2,3) by (simp_all add: bm_size_def less_mult_imp_div_less)
  then have "i div BLOCK_BITS < 2 ^ 64" "j div BLOCK_BITS < 2 ^ 64"
    using unsigned_less [of "blocks bm", where 'a = nat] by simp_all
  then show ?thesis by (simp add: bm_block_def word_of_nat_eq_iff take_bit_nat_eq_self)
qed


lemma bm_put_other: "b \<noteq> bm_block bm i \<Longrightarrow> bm_put bm i v V b = V b"
  by (simp add: bm_put_def Let_def)

lemma bm_bit_put:
  assumes "bm_ok ok bm" and "i < bm_size bm" and "j < bm_size bm"
  shows "bm_bit bm (bm_put bm i v V) j \<longleftrightarrow> (if j = i then v else bm_bit bm V j)"
proof (cases "i div BLOCK_BITS = j div BLOCK_BITS")
  case True
  then have b: "bm_block bm j = bm_block bm i" using bm_block_inj [OF assms] by simp
  let ?ws = "bm_words (V (bm_block bm i))" and ?k = "\<lambda>i. i mod BLOCK_BITS div 64"
  have k: "?k i < 64" "?k j < 64" by (simp_all add: BLOCK_BITS_def BLOCK_SZ_def less_mult_imp_div_less)
  have eq: "j = i \<longleftrightarrow> ?k j = ?k i \<and> j mod 64 = i mod 64"
  proof -
    have "i = i div 4096 * 4096 + i mod 4096 div 64 * 64 + i mod 64" for i :: nat
    proof -
      have "i mod 4096 mod 64 = i mod 64" by (simp add: mod_mod_cancel)
      then show ?thesis using div_mult_mod_eq [of "i mod 4096" 64] div_mult_mod_eq [of i 4096] by linarith
    qed
    from this [of i] this [of j] show ?thesis using True by (auto simp: BLOCK_BITS_def BLOCK_SZ_def)
  qed
  have "bm_bit bm (bm_put bm i v V) j \<longleftrightarrow> bit (?ws[?k i := (if v then set_bit else unset_bit) (i mod 64) (?ws ! ?k i)] ! ?k j) (j mod 64)"
    by (simp add: bm_bit_def bm_put_def Let_def b bm_words_store)
  also have "\<dots> \<longleftrightarrow> (if j = i then v else bit (?ws ! ?k j) (j mod 64))"
    using k eq by (cases "?k j = ?k i"; cases v) (auto simp: bit_set_bit_iff bit_unset_bit_iff)
  finally show ?thesis by (simp add: bm_bit_def b)
next
  case False
  then have "bm_block bm i \<noteq> bm_block bm j" using bm_block_inj [OF assms] by simp
  then show ?thesis using False by (auto simp: bm_bit_def bm_put_def Let_def)
qed

section \<open>One block\<close>

lemma trailing_ones:
  assumes "w \<noteq> - 1"
  shows "trailing_ones w < 64" and "\<not> bit w (trailing_ones w)" and "j < trailing_ones w \<Longrightarrow> bit w j"
proof -
  have "\<not> (\<forall>n \<in> set [0..<64]. bit w n)" using assms by (auto intro!: bit_word_eqI)
  then have "takeWhile (bit w) [0..<64] \<noteq> [0..<64]" unfolding takeWhile_eq_all_conv .
  then have less: "trailing_ones w < length [0..<64]"
    unfolding trailing_ones_def using takeWhile_dropWhile_id [of "bit w" "[0..<64]"]
    by (metis append_eq_conv_conj le_eq_less_or_eq length_takeWhile_le take_all)
  then show "trailing_ones w < 64" by simp
  show "\<not> bit w (trailing_ones w)"
    using nth_length_takeWhile [of "bit w" "[0..<64]"] less by (simp add: trailing_ones_def)
  show "bit w j" if "j < trailing_ones w"
    using that less takeWhile_nth [of j "bit w" "[0..<64]"] nth_mem [of j "takeWhile (bit w) [0..<64]"]
    by (auto simp: trailing_ones_def dest: set_takeWhileD)
qed

text \<open>\<open>p\<close> is the position in the block of the bit that is set.\<close>

lemma alloc_in_block_Some:
  assumes "length ws = 64" and "alloc_in_block (of_nat b) ws = (Some r, ws')"
  obtains p where "p < BLOCK_BITS" and "r = of_nat (b * BLOCK_BITS + p)" and "\<not> bit (ws ! (p div 64)) (p mod 64)"
    and "\<And>q. q < p \<Longrightarrow> bit (ws ! (q div 64)) (q mod 64)"
    and "ws' = ws[p div 64 := set_bit (p mod 64) (ws ! (p div 64))]"
proof -
  obtain k where k: "find_index (\<lambda>w. w \<noteq> - 1) ws = Some k"
    using assms(2) by (auto simp: alloc_in_block_def split: option.splits)
  then have k': "k < 64" "ws ! k \<noteq> - 1" "\<And>j. j < k \<Longrightarrow> ws ! j = - 1"
    using assms(1) by (auto simp: find_index_Some)
  note t = trailing_ones [OF k'(2)]
  let ?p = "k * 64 + trailing_ones (ws ! k)"
  have p: "?p div 64 = k" "?p mod 64 = trailing_ones (ws ! k)" using t(1) by simp_all
  show thesis
  proof (rule that [of ?p])
    show "?p < BLOCK_BITS" using k'(1) t(1) by (simp add: BLOCK_BITS_def BLOCK_SZ_def)
    show "r = of_nat (b * BLOCK_BITS + ?p)" using assms(2) k by (auto simp: alloc_in_block_def Let_def ac_simps)
    show "bit (ws ! (q div 64)) (q mod 64)" if "q < ?p" for q
    proof (cases "q div 64 = k")
      case True
      then have "q mod 64 < trailing_ones (ws ! k)" using that div_mult_mod_eq [of q 64] by linarith
      then show ?thesis using t(3) True by simp
    next
      case False
      then have "q div 64 < k" using that t(1) by simp
      then show ?thesis by (simp add: k'(3))
    qed
    show "ws' = ws[?p div 64 := set_bit (?p mod 64) (ws ! (?p div 64))]"
      unfolding p using assms(2) k by (simp add: alloc_in_block_def Let_def set_bit_eq_or)
  qed (use t(2) p in simp)
qed

lemma alloc_in_block_None:
  "alloc_in_block b ws = (None, ws') \<longleftrightarrow> ws' = ws \<and> (\<forall>w \<in> set ws. w = - 1)"
proof -
  have "(\<forall>w \<in> set ws. w = - 1) \<longleftrightarrow> find_index (\<lambda>w. w \<noteq> - 1) ws = None" by (simp add: find_index_None)
  then show ?thesis by (auto simp: alloc_in_block_def Let_def split: option.splits)
qed

lemma dealloc_in_block:
  assumes "length ws = 64" and "unat k < 64" and "unat i < 64"
  shows "dealloc_in_block k i ws = (if bit (ws ! unat k) (unat i)
    then Ok (ws[unat k := unset_bit (unat i) (ws ! unat k)]) else Panic AssertFailed)"
proof -
  let ?w = "ws ! unat k" and ?m = "push_bit (unat i) 1 :: u64"
  have "0 < ?w AND ?m \<longleftrightarrow> bit ?w (unat i)"
    by (simp add: word_gt_0 push_bit_eq_mult and_exp_eq_0_iff_not_bit)
  moreover have "?w - ?m = unset_bit (unat i) ?w" if b: "bit ?w (unat i)"
  proof -
    have "unset_bit (unat i) ?w AND ?m = 0" and "unset_bit (unat i) ?w OR ?m = ?w"
      using b by (auto intro!: bit_word_eqI simp: bit_and_iff bit_or_iff bit_unset_bit_iff bit_exp_iff)
    then show ?thesis using disjunctive_add_eq_or [of "unset_bit (unat i) ?w" ?m] by (metis add_diff_cancel)
  qed
  ultimately show ?thesis using assms by (auto simp: dealloc_in_block_def indexr_def assertr_def)
qed

section \<open>The whole bitmap\<close>

lemma bitmap_block_simps [simp]:
  "size_of bitmap_block = BLOCK_SZ" "length b = BLOCK_SZ \<Longrightarrow> get_ref bitmap_block 0 b = bm_words b"
  "length b = BLOCK_SZ \<Longrightarrow> put_ref bitmap_block 0 ws b = store_words 8 ws"
  by (simp_all add: bitmap_block_def word_array_def get_ref_def put_ref_def bm_words_def BLOCK_SZ_def)

lemma block_position:
  assumes "p < BLOCK_BITS"
  shows "(b * BLOCK_BITS + p) div BLOCK_BITS = b" "(b * BLOCK_BITS + p) mod BLOCK_BITS = p" "(b * BLOCK_BITS + p) mod 64 = p mod 64"
  using assms mod_mult_right_eq by (simp_all add: BLOCK_BITS_def BLOCK_SZ_def mod_add_left_eq [symmetric] mod_mult_eq)

text \<open>The outcome of a search for a clear bit from \<open>lo\<close> up to \<open>hi\<close>.\<close>

definition first_clear :: "Bitmap \<Rightarrow> (usize \<Rightarrow> u8 list) \<Rightarrow> nat \<Rightarrow> nat \<Rightarrow> usize option \<Rightarrow> (usize \<Rightarrow> u8 list) \<Rightarrow> bool" where
  "first_clear bm V lo hi r V' \<longleftrightarrow>
     (case r of
        None \<Rightarrow> V' = V \<and> (\<forall>i. lo \<le> i \<and> i < hi \<longrightarrow> bm_bit bm V i)
      | Some p \<Rightarrow> lo \<le> unat p \<and> unat p < hi \<and> \<not> bm_bit bm V (unat p) \<and>
          (\<forall>i. lo \<le> i \<and> i < unat p \<longrightarrow> bm_bit bm V i) \<and> V' = bm_put bm (unat p) True V)"

lemma first_clear_None: "first_clear bm V lo hi None V' \<Longrightarrow> V' = V"
  by (auto simp: first_clear_def)

lemma first_clear_join:
  assumes "first_clear bm V lo mid None V" and "lo \<le> mid" and "first_clear bm V mid hi r V'"
  shows "first_clear bm V lo hi r V'"
proof -
  have "lo \<le> i \<Longrightarrow> i < mid \<Longrightarrow> bm_bit bm V i" for i using assms(1) by (simp add: first_clear_def)
  then have "bm_bit bm V i" if "lo \<le> i" "mid \<le> i \<Longrightarrow> bm_bit bm V i" for i using that by (cases "mid \<le> i") auto
  with assms(2,3) show ?thesis by (cases r) (auto simp: first_clear_def)
qed

context device_contract
begin

lemma alloc_block_ok:
  assumes st: "st L V s" and ok: "bm_ok ok bm" and L: "card L < BLOCK_CACHE_SIZE" "\<forall>i < bm_size bm. bm_block bm i \<notin> L"
    and k: "k < unat (blocks bm)"
  shows "returns (modify_cached dev (of_nat k + start_block_id bm) bitmap_block 0
      (\<lambda>bb s. case alloc_in_block (of_nat k) bb of (pos, bb) \<Rightarrow> Ok (pos, bb, s)) s)
    (\<lambda>(r, s'). \<exists>V'. st L V' s' \<and> first_clear bm V (k * BLOCK_BITS) (Suc k * BLOCK_BITS) r V')"
proof -
  let ?b = "of_nat k + start_block_id bm" and ?ws = "bm_words (V (of_nat k + start_block_id bm))"
  have inside: "bm_block bm (k * BLOCK_BITS + p) = ?b \<and> k * BLOCK_BITS + p < bm_size bm" if "p < BLOCK_BITS" for p
    using block_position(1) [OF that, of k] k that
    by (auto simp: bm_block_def bm_size_def div_less_iff_less_mult [symmetric] BLOCK_BITS_def BLOCK_SZ_def)
  have b: "ok ?b" "?b \<notin> L" using inside [of 0] ok L(2) by (auto simp: bm_ok_def BLOCK_BITS_def BLOCK_SZ_def)
  have len: "length (V ?b) = BLOCK_SZ" using view_length b(1) st by (auto simp: cache_state_def)
  obtain r ws' where a: "alloc_in_block (of_nat k) ?ws = (r, ws')" by fastforce
  then have l': "length ws' = 64" by (auto simp: alloc_in_block_def Let_def split: option.splits)
  have bits: "bm_bit bm V (k * BLOCK_BITS + p) \<longleftrightarrow> bit (?ws ! (p div 64)) (p mod 64)" if "p < BLOCK_BITS" for p
    using inside [OF that] block_position [OF that, of k] by (simp add: bm_bit_def)
  have "first_clear bm V (k * BLOCK_BITS) (Suc k * BLOCK_BITS) r (V(?b := store_words 8 ws'))"
  proof (cases r)
    case None
    then have ws: "ws' = ?ws" "\<forall>w \<in> set ?ws. w = - 1" using a alloc_in_block_None by blast+
    have "bm_bit bm V (k * BLOCK_BITS + p)" if "p < BLOCK_BITS" for p
    proof -
      have "p div 64 < 64" using that by (simp add: BLOCK_BITS_def BLOCK_SZ_def less_mult_imp_div_less)
      then have "?ws ! (p div 64) = - 1" using ws(2) by simp
      then show ?thesis using bits [OF that] by simp
    qed
    then show ?thesis using None ws(1) store_bm_words [OF len] by (auto simp: first_clear_def le_iff_add)
  next
    case (Some p)
    obtain q where q: "q < BLOCK_BITS" "p = of_nat (k * BLOCK_BITS + q)" "\<not> bit (?ws ! (q div 64)) (q mod 64)"
      "\<And>j. j < q \<Longrightarrow> bit (?ws ! (j div 64)) (j mod 64)" "ws' = ?ws[q div 64 := set_bit (q mod 64) (?ws ! (q div 64))]"
      using alloc_in_block_Some [of ?ws k p ws'] a Some by auto
    have p: "unat p = k * BLOCK_BITS + q"
      unfolding q(2) unat_of_nat by (rule mod_less) (use ok inside [OF q(1)] in \<open>simp add: bm_ok_def\<close>)
    have "V(?b := store_words 8 ws') = bm_put bm (unat p) True V"
      using inside [OF q(1)] block_position [OF q(1), of k] by (simp add: bm_put_def Let_def p q(5))
    moreover have "bm_bit bm V (k * BLOCK_BITS + j)" if "j < q" for j using bits q(1,4) that by simp
    ultimately show ?thesis using Some bits q(1,3) p by (auto simp: first_clear_def le_iff_add)
  qed
  with modify_cached_pure [OF st b L(1), of 0 bitmap_block "\<lambda>bb s. case alloc_in_block (of_nat k) bb of (pos, bb) \<Rightarrow> Ok (pos, bb, s)" r ws']
  show ?thesis using len a l' by (auto simp: BLOCK_SZ_def fits_def elim!: returns_mono)
qed

text \<open>The rest of the search, from block \<open>k\<close> on.\<close>

lemma bitmap_alloc_loop_ok:
  assumes "st L V s" and "bm_ok ok bm" and "card L < BLOCK_CACHE_SIZE" and "\<forall>i < bm_size bm. bm_block bm i \<notin> L"
    and "n = unat (blocks bm)" and "k \<le> n"
  shows "returns (bitmap_alloc_loop [k..<n] bm dev s)
    (\<lambda>(r, s'). \<exists>V'. st L V' s' \<and> first_clear bm V (k * BLOCK_BITS) (bm_size bm) r V')"
  using assms
proof (induction "n - k" arbitrary: k s)
  case 0
  then show ?case by (auto simp: bm_size_def first_clear_def)
next
  case (Suc m)
  then have k: "k < unat (blocks bm)" and cons: "[k..<n] = k # [Suc k..<n]" by (simp_all add: upt_conv_Cons)
  note prems = Suc.prems
  let ?B = BLOCK_BITS
  have le: "Suc k * ?B \<le> bm_size bm" using k by (metis bm_size_def Suc_leI mult_le_mono1)
  have "returns (bitmap_alloc_loop [Suc k..<n] bm dev s1)
      (\<lambda>(r, s'). \<exists>V'. st L V' s' \<and> first_clear bm V (k * ?B) (bm_size bm) r V')"
    if "st L V s1" "first_clear bm V (k * ?B) (Suc k * ?B) None V" for s1
  proof -
    have "m = n - Suc k" "Suc k \<le> n" using Suc.hyps(2) k prems(5) by simp_all
    from Suc.hyps(1) [OF this(1) that(1) prems(2-5) this(2)] first_clear_join [OF that(2)]
    show ?thesis by (auto simp del: mult_Suc elim!: returns_mono)
  qed
  moreover have "first_clear bm V (k * ?B) (bm_size bm) (Some p) V'"
    if "first_clear bm V (k * ?B) (Suc k * ?B) (Some p) V'" for p V' using that le by (auto simp: first_clear_def)
  ultimately have "returns (if r \<noteq> None then Ok (r, s1) else bitmap_alloc_loop [Suc k..<n] bm dev s1)
      (\<lambda>(r, s'). \<exists>V'. st L V' s' \<and> first_clear bm V (k * ?B) (bm_size bm) r V')"
    if "st L V' s1" "first_clear bm V (k * ?B) (Suc k * ?B) r V'" for r s1 V'
    using that first_clear_None [of bm V _ _ V'] by (cases r) (force simp del: mult_Suc)+
  then show ?case
    using alloc_block_ok [OF prems(1-4) k] unfolding cons by (auto simp del: mult_Suc elim!: returns_mono)
qed

lemma bitmap_alloc_ok:
  assumes "st L V s" and "bm_ok ok bm" and "card L < BLOCK_CACHE_SIZE" and "\<forall>i < bm_size bm. bm_block bm i \<notin> L"
  shows "returns (bitmap_alloc bm dev s) (\<lambda>(r, s'). \<exists>V'. st L V' s' \<and> first_clear bm V 0 (bm_size bm) r V')"
  using bitmap_alloc_loop_ok [OF assms refl, of 0] by (simp add: bitmap_alloc_def)

lemma bitmap_dealloc_ok:
  assumes st: "st L V s" and ok: "bm_ok ok bm" and L: "card L < BLOCK_CACHE_SIZE" "\<forall>i < bm_size bm. bm_block bm i \<notin> L"
    and p: "unat p < bm_size bm"
  shows "bm_bit bm V (unat p) \<Longrightarrow> returns (bitmap_dealloc bm dev p s) (\<lambda>s'. st L (bm_put bm (unat p) False V) s')"
    and "\<not> bm_bit bm V (unat p) \<Longrightarrow> bitmap_dealloc bm dev p s = Panic AssertFailed"
proof -
  obtain bp wp ip where d: "decomposition p = (bp, wp, ip)" using prod_cases3 by blast
  have pos: "bp = of_nat (unat p div BLOCK_BITS)" "unat wp = unat p mod BLOCK_BITS div 64" "unat ip = unat p mod 64"
    using d by (auto simp: decomposition_def Let_def BLOCK_BITS_def BLOCK_SZ_def unat_div unat_mod mod_mod_cancel word_unat_eq_iff)
  then have b: "bp + start_block_id bm = bm_block bm (unat p)" and lt: "unat wp < 64" "unat ip < 64"
    by (simp_all add: bm_block_def BLOCK_BITS_def BLOCK_SZ_def less_mult_imp_div_less)
  let ?b = "bm_block bm (unat p)" and ?f = "\<lambda>bb s. bindr (dealloc_in_block wp ip bb) (\<lambda>bb. Ok ((), bb, s))"
  have ok: "ok ?b" "?b \<notin> L" using ok L(2) p by (simp_all add: bm_ok_def)
  have len: "length (V ?b) = BLOCK_SZ" using view_length ok(1) st by (auto simp: cache_state_def)
  note run = dealloc_in_block [of "bm_words (V ?b)" wp ip, OF _ lt]
  have fit: "fits 0 (size_of bitmap_block)" by simp
  show "returns (bitmap_dealloc bm dev p s) (\<lambda>s'. st L (bm_put bm (unat p) False V) s')" if "bm_bit bm V (unat p)"
    using modify_cached_pure [where f = ?f, OF st ok L(1) fit] len run that
    by (simp add: bitmap_dealloc_def d b bm_bit_def bm_put_def pos(2,3) Let_def split_def) (simp add: BLOCK_SZ_def)
  show "bitmap_dealloc bm dev p s = Panic AssertFailed" if "\<not> bm_bit bm V (unat p)"
    using cached_panic(1) [where f = ?f, OF st ok L(1) fit] len run that
    by (auto simp: bitmap_dealloc_def d b bm_bit_def pos(2,3))
qed

end

section \<open>Properties\<close>

lemma bm_put_undo:
  assumes "bm_ok ok bm" and "i < bm_size bm" and "\<not> bm_bit bm V i" and "length (V (bm_block bm i)) = BLOCK_SZ"
  shows "bm_put bm i False (bm_put bm i True V) = V"
proof -
  let ?ws = "bm_words (V (bm_block bm i))" and ?k = "i mod BLOCK_BITS div 64"
  have "unset_bit (i mod 64) (set_bit (i mod 64) (?ws ! ?k)) = ?ws ! ?k"
    using assms(3) by (intro bit_word_eqI) (auto simp: bm_bit_def bit_set_bit_iff bit_unset_bit_iff)
  moreover have "?k < 64" by (simp add: BLOCK_BITS_def BLOCK_SZ_def less_mult_imp_div_less)
  ultimately show ?thesis
    using store_bm_words [OF assms(4)] by (simp add: bm_put_def Let_def bm_words_store)
qed

definition demo_bitmap :: Bitmap where
  "demo_bitmap = bitmap_new 1 2"

lemma zeroed_bitmap: "V (bm_block bm i) = replicate m 0 \<Longrightarrow> \<not> bm_bit bm V i"
proof -
  have "le_word (replicate k 0) = (0 :: u64)" for k by (rule bit_word_eqI) (auto simp: bit_le_word)
  then have "le_word (take 8 (drop j (replicate m 0))) = (0 :: u64)" for j by (simp add: take_replicate)
  moreover have "i mod BLOCK_BITS div 64 < 64" by (simp add: BLOCK_BITS_def BLOCK_SZ_def less_mult_imp_div_less)
  ultimately show "V (bm_block bm i) = replicate m 0 \<Longrightarrow> \<not> bm_bit bm V i"
    by (simp add: bm_bit_def bm_words_def load_words_def)
qed

lemma demo_bitmap_ok: "bm_ok (bf_ok 20) demo_bitmap" "bm_size demo_bitmap = 8192" "\<not> bm_bit demo_bitmap demo_blocks i"
proof -
  show size: "bm_size demo_bitmap = 8192"
    by (simp add: bm_size_def demo_bitmap_def bitmap_new_def BLOCK_BITS_def BLOCK_SZ_def)
  have "bf_ok 20 (bm_block demo_bitmap i)" if "i < 8192" for i
  proof -
    have "i div 4096 < 2" using that by (simp add: less_mult_imp_div_less)
    then have "i div 4096 = 0 \<or> i div 4096 = 1" by linarith
    then show ?thesis by (auto simp: bf_ok_def bm_block_def demo_bitmap_def bitmap_new_def BLOCK_BITS_def BLOCK_SZ_def)
  qed
  then show "bm_ok (bf_ok 20) demo_bitmap"
    using size by (simp add: bm_ok_def) (simp add: demo_bitmap_def bitmap_new_def)
  show "\<not> bm_bit demo_bitmap demo_blocks i"
    by (cases "unat (bm_block demo_bitmap i) < 20")
      (simp_all add: zeroed_bitmap [where m = 512] zeroed_bitmap [where m = 0] demo_blocks_def)
qed

text \<open>C14: \<open>alloc\<close> always returns, and finds the first clear bit. It answers \<open>None\<close>, having changed nothing,
  only if every bit of the bitmap is set; otherwise it answers the number of the first clear bit,
  sets that bit and no other, and changes no block but the one that holds it.\<close>

theorem bitmap_alloc_first_clear:
  assumes "bf_state n L V s" and "bm_ok (bf_ok n) bm" and "card L < 16" and "\<forall>i < bm_size bm. bm_block bm i \<notin> L"
  shows "returns (bitmap_alloc bm block_file s) (\<lambda>(r, s').
    case r of
      None \<Rightarrow> bf_state n L V s' \<and> (\<forall>i < bm_size bm. bm_bit bm V i)
    | Some p \<Rightarrow> unat p < bm_size bm \<and> \<not> bm_bit bm V (unat p) \<and> (\<forall>i < unat p. bm_bit bm V i) \<and>
        (\<exists>V'. bf_state n L V' s' \<and> (\<forall>i < bm_size bm. bm_bit bm V' i \<longleftrightarrow> i = unat p \<or> bm_bit bm V i) \<and>
          (\<forall>b. b \<noteq> bm_block bm (unat p) \<longrightarrow> V' b = V b)))"
proof -
  have "card L < BLOCK_CACHE_SIZE" using assms(3) by (simp add: BLOCK_CACHE_SIZE_def)
  note run = bf.bitmap_alloc_ok [OF assms(1,2) this assms(4)]
  have "\<exists>V'. bf_state n L V' s' \<and> (\<forall>i < bm_size bm. bm_bit bm V' i \<longleftrightarrow> i = unat p \<or> bm_bit bm V i) \<and>
      (\<forall>b. b \<noteq> bm_block bm (unat p) \<longrightarrow> V' b = V b)"
    if "unat p < bm_size bm" "bf_state n L (bm_put bm (unat p) True V) s'" for p s'
    using that(2) bm_bit_put [OF assms(2) that(1)] bm_put_other
    by (intro exI [of _ "bm_put bm (unat p) True V"]) auto
  then show ?thesis by (intro returns_mono [OF run]) (auto simp: first_clear_def split: option.splits)
qed

theorem bitmap_alloc_first_clear_witness:
  "returns (bitmap_alloc demo_bitmap block_file (manager_new demo_file)) (\<lambda>(r, s'). r = Some 0)"
proof -
  have "unat p = 0" if "\<forall>i < unat p. bm_bit demo_bitmap demo_blocks i" for p :: usize
    using that demo_bitmap_ok(3) by blast
  moreover have "\<not> (\<forall>i < bm_size demo_bitmap. bm_bit demo_bitmap demo_blocks i)"
    using demo_bitmap_ok(2,3) by (metis zero_less_numeral)
  ultimately show ?thesis
    using bitmap_alloc_first_clear [OF demo_state demo_bitmap_ok(1)]
    by (auto elim!: returns_mono split: option.splits simp: unat_eq_0)
qed

text \<open>C15: \<open>dealloc\<close> of a bit that is set clears that bit and no other; of a bit that is clear it panics.
  Giving back the bit that \<open>alloc\<close> has just returned restores every block of the disk.\<close>

theorem bitmap_dealloc_undoes_alloc:
  assumes "bf_state n L V s" and "bm_ok (bf_ok n) bm" and "card L < 16" and "\<forall>i < bm_size bm. bm_block bm i \<notin> L"
    and "unat p < bm_size bm"
  shows "(if bm_bit bm V (unat p)
      then returns (bitmap_dealloc bm block_file p s) (\<lambda>s'. \<exists>V'. bf_state n L V' s' \<and>
        (\<forall>i < bm_size bm. bm_bit bm V' i \<longleftrightarrow> i \<noteq> unat p \<and> bm_bit bm V i))
      else bitmap_dealloc bm block_file p s = Panic AssertFailed) \<and>
    returns (bitmap_alloc bm block_file s) (\<lambda>(r, s1). case r of None \<Rightarrow> True
      | Some q \<Rightarrow> returns (bitmap_dealloc bm block_file q s1) (bf_state n L V))"
proof -
  have c: "card L < BLOCK_CACHE_SIZE" using assms(3) by (simp add: BLOCK_CACHE_SIZE_def)
  have "returns (bitmap_dealloc bm block_file q s1) (bf_state n L V)"
    if "bf_state n L V' s1" "first_clear bm V 0 (bm_size bm) (Some q) V'" for q s1 V'
  proof -
    have q: "unat q < bm_size bm" "\<not> bm_bit bm V (unat q)" "V' = bm_put bm (unat q) True V"
      using that(2) by (auto simp: first_clear_def)
    have "bm_bit bm V' (unat q)" using bm_bit_put [OF assms(2) q(1) q(1)] by (simp add: q(3))
    moreover have "length (V (bm_block bm (unat q))) = BLOCK_SZ"
      using state_length [OF assms(1)] q(1) assms(2) by (simp add: bm_ok_def)
    ultimately show ?thesis
      using bf.bitmap_dealloc_ok(1) [OF that(1) assms(2) c assms(4) q(1)] bm_put_undo [OF assms(2) q(1,2)] by (simp add: q(3))
  qed
  with bf.bitmap_alloc_ok [OF assms(1,2) c assms(4)] have "returns (bitmap_alloc bm block_file s)
      (\<lambda>(r, s1). case r of None \<Rightarrow> True | Some q \<Rightarrow> returns (bitmap_dealloc bm block_file q s1) (bf_state n L V))"
    by (auto elim!: returns_mono split: option.split)
  moreover have "\<exists>V'. bf_state n L V' s' \<and> (\<forall>i < bm_size bm. bm_bit bm V' i \<longleftrightarrow> i \<noteq> unat p \<and> bm_bit bm V i)"
    if "bf_state n L (bm_put bm (unat p) False V) s'" for s'
    using that bm_bit_put [OF assms(2,5)] by (intro exI [of _ "bm_put bm (unat p) False V"]) auto
  ultimately show ?thesis
    using bf.bitmap_dealloc_ok [OF assms(1,2) c assms(4,5)] by (auto elim!: returns_mono)
qed

theorem bitmap_dealloc_undoes_alloc_witness:
  "bitmap_dealloc demo_bitmap block_file 5 (manager_new demo_file) = Panic AssertFailed"
  using bitmap_dealloc_undoes_alloc [OF demo_state demo_bitmap_ok(1), of 5] demo_bitmap_ok by simp

end
