(* ===== verification/LayoutTypes.thy ===== *)
theory LayoutTypes
  imports Layout Bitmap DirEntry
begin

text \<open>
  The structures that \<open>get_ref\<close> and \<open>get_mut\<close> see in the bytes of a block, as typed values. The locale
  \<open>typed_layout\<close> is what a layout promises: any bytes of its size are a well-formed value, a well-formed
  value fills its size, and reading gives back what was written. From it follow the laws of values at
  an offset of a block, for values side by side too. The disk layouts of \<open>layout.rs\<close>, \<open>bitmap.rs\<close> and \<open>lib.rs\<close>
  are instances.
\<close>

locale typed_layout =
  fixes T :: "'a layout" and wf :: "'a \<Rightarrow> bool"
  assumes wf_load: "length bs = size_of T \<Longrightarrow> wf (load T bs)"
    and length_store: "wf x \<Longrightarrow> length bs = size_of T \<Longrightarrow> length (store_in T x bs) = size_of T"
    and load_store: "wf x \<Longrightarrow> length bs = size_of T \<Longrightarrow> load T (store_in T x bs) = x"
begin

lemma get_wf: "unat off + size_of T \<le> length b \<Longrightarrow> wf (get_ref T off b)"
  by (simp add: get_ref_def wf_load)

lemma put_length: "wf x \<Longrightarrow> unat off + size_of T \<le> length b \<Longrightarrow> length (put_ref T off x b) = length b"
  by (simp add: put_ref_def length_store)

lemma get_put: "wf x \<Longrightarrow> unat off + size_of T \<le> length b \<Longrightarrow> get_ref T off (put_ref T off x b) = x"
  by (simp add: get_ref_def put_ref_def length_store load_store)

lemma put_byte:
  assumes "wf x" and "unat off + size_of T \<le> length b" and "i < unat off \<or> unat off + size_of T \<le> i" and "i < length b"
  shows "put_ref T off x b ! i = b ! i"
  using assms length_store [of x "take (size_of T) (drop (unat off) b)"]
  by (auto simp: put_ref_def nth_append)

lemma get_put_other:
  assumes "wf x" and "unat off + size_of T \<le> length b" and "unat off' + size_of U \<le> length b"
    and "unat off' + size_of U \<le> unat off \<or> unat off + size_of T \<le> unat off'"
  shows "get_ref U off' (put_ref T off x b) = get_ref U off' b"
proof -
  have "take (size_of U) (drop (unat off') (put_ref T off x b)) = take (size_of U) (drop (unat off') b)"
    by (rule nth_equalityI) (use assms put_byte [OF assms(1,2)] put_length [OF assms(1,2)] in auto)
  then show ?thesis by (simp add: get_ref_def)
qed

end

interpretation sb: typed_layout super_block "\<lambda>_. True"
proof
  fix sb :: SuperBlock and bs :: "u8 list"
  have "length (sb_fields sb) = 6" by (simp add: sb_fields_def)
  then have "load_words 4 6 (store_words 4 (sb_fields sb)) = sb_fields sb" using load_store_words [of 4 "sb_fields sb"] by simp
  then show "load super_block (store_in super_block sb bs) = sb" by (simp add: super_block_def) (simp add: sb_fields_def Let_def)
qed (simp_all add: super_block_def sb_fields_def)

interpretation ib: typed_layout indirect_block "\<lambda>ws. length ws = 128"
proof
  fix ws bs assume "length (ws :: u32 list) = 128"
  then show "load indirect_block (store_in indirect_block ws bs) = ws"
    using load_store_words [of 4 ws] by (simp add: indirect_block_def word_array_def)
qed (simp_all add: indirect_block_def word_array_def)

interpretation bb: typed_layout bitmap_block "\<lambda>ws. length ws = 64"
proof
  fix ws bs assume "length (ws :: u64 list) = 64"
  then show "load bitmap_block (store_in bitmap_block ws bs) = ws"
    using load_store_words [of 8 ws] by (simp add: bitmap_block_def word_array_def)
qed (simp_all add: bitmap_block_def word_array_def)

interpretation db: typed_layout data_block "\<lambda>b. length b = BLOCK_SZ"
  by unfold_locales (simp_all add: data_block_def)

interpretation dil: typed_layout disk_inode "\<lambda>d. length (direct d) = 28"
proof
  fix d :: DiskInode and bs :: "u8 list"
  assume d: "length (direct d) = 28" and bs: "length bs = size_of disk_inode"
  let ?ws = "di_size d # direct d @ [indirect1 d, indirect2 d]"
  show "length (store_in disk_inode d bs) = size_of disk_inode" using d bs by (simp add: disk_inode_def)
  have app: "load_words 4 31 (store_words 4 ?ws @ xs) = load_words 4 31 (store_words 4 ?ws)" for xs
    unfolding load_words_def
    by (rule map_cong) (use d in \<open>auto simp: take_append drop_append\<close>)
  have "load_words 4 (length ?ws) (store_words 4 ?ws) = ?ws" by (rule load_store_words) simp
  then have "load_words 4 31 (store_words 4 ?ws @ xs) = ?ws" for xs unfolding app using d by simp
  then show "load disk_inode (store_in disk_inode d bs) = d"
    using d by (cases d) (simp add: disk_inode_def nth_append type_byte_def split: DiskInodeType.splits)
qed (simp add: disk_inode_def Let_def)

section \<open>The inodes of a block\<close>

lemma inode_slot:
  assumes "i < 4"
  shows "unat (of_nat (i * 128) :: usize) = i * 128" and "i * 128 + size_of disk_inode \<le> BLOCK_SZ"
proof -
  have "i * 128 < 2 ^ LENGTH(64)" using assms by simp
  then show "unat (of_nat (i * 128) :: usize) = i * 128" by (simp only: unat_of_nat take_bit_nat_eq_self mod_less)
qed (use assms in \<open>simp add: disk_inode_def BLOCK_SZ_def\<close>)

lemma slot_get_put:
  assumes "length b = BLOCK_SZ" and "i < 4" and "j < 4" and "length (direct d) = 28"
  shows "length (put_ref disk_inode (of_nat (i * 128)) d b) = BLOCK_SZ"
    and "get_ref disk_inode (of_nat (j * 128)) (put_ref disk_inode (of_nat (i * 128)) d b) =
      (if j = i then d else get_ref disk_inode (of_nat (j * 128)) b)"
proof -
  note ij = inode_slot [OF assms(2)] inode_slot [OF assms(3)]
  show "length (put_ref disk_inode (of_nat (i * 128)) d b) = BLOCK_SZ"
    using dil.put_length [OF assms(4), of "of_nat (i * 128)" b] ij assms(1) by simp
  show "get_ref disk_inode (of_nat (j * 128)) (put_ref disk_inode (of_nat (i * 128)) d b) =
      (if j = i then d else get_ref disk_inode (of_nat (j * 128)) b)"
  proof (cases "j = i")
    case True
    then show ?thesis using dil.get_put [OF assms(4), of "of_nat (i * 128)" b] ij assms(1) by simp
  next
    case False
    then have "j * 128 + 128 \<le> i * 128 \<or> i * 128 + 128 \<le> j * 128" by linarith
    then show ?thesis
      using dil.get_put_other [OF assms(4), of "of_nat (i * 128)" b "of_nat (j * 128)" disk_inode] ij assms(1) False
      by (simp add: disk_inode_def)
  qed
qed



end
