(* ===== verification/FsInv.thy ===== *)
theory FsInv
  imports Vfs InodeGrow BitmapInv LayoutTypes
begin

text \<open>
  A whole file system (\<open>src/easy-fs/src/efs.rs\<close>, \<open>vfs.rs\<close>) as a map from inode numbers to files. The areas of
  the disk are apart; the blocks of the files in use are data blocks, marked in the data bitmap, and no
  two files share one. Under this invariant an operation on one file changes that file and no other.
\<close>

section \<open>The areas of the disk\<close>

abbreviation ibm_start :: "'w EasyFileSystem \<Rightarrow> nat" where "ibm_start efs \<equiv> unat (start_block_id (inode_bitmap efs))"
abbreviation dbm_start :: "'w EasyFileSystem \<Rightarrow> nat" where "dbm_start efs \<equiv> unat (start_block_id (data_bitmap efs))"
abbreviation ia_start :: "'w EasyFileSystem \<Rightarrow> nat" where "ia_start efs \<equiv> unat (inode_area_start_block efs)"
abbreviation da_start :: "'w EasyFileSystem \<Rightarrow> nat" where "da_start efs \<equiv> unat (data_area_start_block efs)"
abbreviation inodes :: "'w EasyFileSystem \<Rightarrow> nat" where "inodes efs \<equiv> bm_size (inode_bitmap efs)"

text \<open>The areas follow each other on a device of \<open>tot\<close> blocks, \<open>nd\<close> of them for data.\<close>

definition fs_shape :: "'w EasyFileSystem \<Rightarrow> nat \<Rightarrow> nat \<Rightarrow> bool" where
  "fs_shape efs nd tot \<longleftrightarrow>
     0 < ibm_start efs \<and> ibm_start efs + unat (blocks (inode_bitmap efs)) \<le> ia_start efs \<and>
     ia_start efs + inodes efs div 4 \<le> dbm_start efs \<and>
     dbm_start efs + unat (blocks (data_bitmap efs)) \<le> da_start efs \<and> da_start efs + nd \<le> tot \<and> tot < 2 ^ 32 \<and>
     nd \<le> bm_size (data_bitmap efs) \<and> inodes efs \<le> 2 ^ 32"

definition in_data :: "'w EasyFileSystem \<Rightarrow> nat \<Rightarrow> usize \<Rightarrow> bool" where
  "in_data efs nd b \<longleftrightarrow> da_start efs \<le> unat b \<and> unat b < da_start efs + nd"

text \<open>Inode \<open>i\<close> is in this block, at this offset.\<close>

definition inode_block_of :: "'w EasyFileSystem \<Rightarrow> nat \<Rightarrow> usize" where
  "inode_block_of efs i = of_nat (ia_start efs + i div 4)"

definition inode_off :: "nat \<Rightarrow> usize" where
  "inode_off i = of_nat (i mod 4 * 128)"

lemma unat_of_nat_small:
  "n < 2 ^ 64 \<Longrightarrow> unat (of_nat n :: usize) = n" "n < 2 ^ 32 \<Longrightarrow> unat (of_nat n :: u32) = n"
  by (simp_all add: unat_of_nat take_bit_nat_eq_self)

lemma unat_bm_block:
  assumes "p < bm_size bm" and "unat (start_block_id bm) + unat (blocks bm) < 2 ^ 64"
  shows "unat (bm_block bm p) = unat (start_block_id bm) + p div BLOCK_BITS" and "p div BLOCK_BITS < unat (blocks bm)"
proof -
  show lt: "p div BLOCK_BITS < unat (blocks bm)" using assms(1) by (simp add: bm_size_def less_mult_imp_div_less)
  then have "unat (of_nat (p div BLOCK_BITS) :: usize) = p div BLOCK_BITS" using assms(2) by (simp add: unat_of_nat)
  then show "unat (bm_block bm p) = unat (start_block_id bm) + p div BLOCK_BITS"
    using lt assms(2) by (simp add: bm_block_def unat_word_ariths)
qed

lemma shapeD:
  assumes "fs_shape efs nd tot"
  shows "p < inodes efs \<Longrightarrow> unat (bm_block (inode_bitmap efs) p) < ia_start efs"
    and "p < inodes efs \<Longrightarrow> 0 < unat (bm_block (inode_bitmap efs) p)"
    and "i < inodes efs \<Longrightarrow> unat (inode_block_of efs i) = ia_start efs + i div 4 \<and> ia_start efs + i div 4 < dbm_start efs"
    and "p < bm_size (data_bitmap efs) \<Longrightarrow> dbm_start efs \<le> unat (bm_block (data_bitmap efs) p) \<and>
      unat (bm_block (data_bitmap efs) p) < da_start efs"
    and "in_data efs nd b \<Longrightarrow> da_start efs \<le> unat b \<and> unat b < tot"
    and "da_start efs < 2 ^ 32" and "tot < 2 ^ 32" and "nd \<le> bm_size (data_bitmap efs)"
proof -
  note s = assms [unfolded fs_shape_def]
  show "unat (bm_block (inode_bitmap efs) p) < ia_start efs" "0 < unat (bm_block (inode_bitmap efs) p)" if "p < inodes efs" for p
    using unat_bm_block [OF that] s by auto
  show "unat (inode_block_of efs i) = ia_start efs + i div 4 \<and> ia_start efs + i div 4 < dbm_start efs" if "i < inodes efs" for i
  proof -
    have "inodes efs = unat (blocks (inode_bitmap efs)) * 1024 * 4" by (simp add: bm_size_def BLOCK_BITS_def BLOCK_SZ_def)
    then have "inodes efs = inodes efs div 4 * 4" by simp
    then have "i div 4 < inodes efs div 4" using that by (metis less_mult_imp_div_less)
    then have "ia_start efs + i div 4 < dbm_start efs" "dbm_start efs < 2 ^ 64" using s by (linarith, simp)
    then show ?thesis unfolding inode_block_of_def by (subst unat_of_nat_small) simp_all
  qed
  show "dbm_start efs \<le> unat (bm_block (data_bitmap efs) p) \<and> unat (bm_block (data_bitmap efs) p) < da_start efs"
    if "p < bm_size (data_bitmap efs)" using unat_bm_block [OF that] s by auto
  show "da_start efs < 2 ^ 32" "tot < 2 ^ 32" "nd \<le> bm_size (data_bitmap efs)" using s by auto
  show "in_data efs nd b \<Longrightarrow> da_start efs \<le> unat b \<and> unat b < tot" using s by (auto simp: in_data_def)
qed

lemma get_disk_inode_pos_eq:
  assumes "fs_shape efs nd tot" and "i < inodes efs"
  shows "get_disk_inode_pos efs (of_nat i) = (ucast (inode_block_of efs i), inode_off i)" and "usz (ucast (inode_block_of efs i)) = inode_block_of efs i"
proof -
  have per: "inode_size = 128" "BLOCK_SZ div 128 = 4" by (simp_all add: BLOCK_SZ_def inode_size_def disk_inode_def)
  have u: "unat (inode_block_of efs i) = ia_start efs + i div 4" "ia_start efs + i div 4 < 2 ^ 32"
    using shapeD(3) [OF assms] assms(1) by (auto simp: fs_shape_def)
  have i: "unat (of_nat i :: u32) = i" using assms by (intro unat_of_nat_small) (simp add: fs_shape_def)
  have u32: "unat (ucast (inode_block_of efs i) :: u32) = ia_start efs + i div 4" using u by (simp add: unsigned_ucast_eq take_bit_nat_eq_self)
  then show "usz (ucast (inode_block_of efs i)) = inode_block_of efs i" using u by (simp add: word_unat_eq_iff)
  have "unat (inode_area_start_block efs + of_nat i div 4) = ia_start efs + i div 4"
    using u(2) i by (simp add: unat_word_ariths unat_div)
  moreover have "unat (ucast (of_nat i mod 4 :: u32) * 128 :: usize) = unat (inode_off i)"
    using i inode_slot(1) [of "i mod 4"] by (simp add: inode_off_def unat_word_ariths unat_mod unsigned_ucast_eq take_bit_nat_eq_self)
  ultimately show "get_disk_inode_pos efs (of_nat i) = (ucast (inode_block_of efs i), inode_off i)"
    using u32 unfolding get_disk_inode_pos_def per Let_def by (simp add: word_unat_eq_iff)
qed

text \<open>The blocks of the data bitmap.\<close>

definition dbm_blocks :: "'w EasyFileSystem \<Rightarrow> usize set" where
  "dbm_blocks efs = bm_block (data_bitmap efs) ` {0..<bm_size (data_bitmap efs)}"

lemma areas_apart:
  assumes "fs_shape efs nd tot"
  shows "i < inodes efs \<Longrightarrow> inode_block_of efs i \<notin> dbm_blocks efs"
    and "i < inodes efs \<Longrightarrow> in_data efs nd b \<Longrightarrow> inode_block_of efs i \<noteq> b"
    and "in_data efs nd b \<Longrightarrow> b \<notin> dbm_blocks efs"
    and "p < inodes efs \<Longrightarrow> bm_block (inode_bitmap efs) p \<notin> dbm_blocks efs"
    and "p < inodes efs \<Longrightarrow> i < inodes efs \<Longrightarrow> bm_block (inode_bitmap efs) p \<noteq> inode_block_of efs i"
    and "p < inodes efs \<Longrightarrow> in_data efs nd b \<Longrightarrow> bm_block (inode_bitmap efs) p \<noteq> b"
    and "i < inodes efs \<Longrightarrow> j < inodes efs \<Longrightarrow> inode_block_of efs i = inode_block_of efs j \<longleftrightarrow> i div 4 = j div 4"
proof -
  note D = shapeD [OF assms]
  have order: "ia_start efs \<le> dbm_start efs" "dbm_start efs \<le> da_start efs" using assms by (auto simp: fs_shape_def)
  show "inode_block_of efs i \<notin> dbm_blocks efs" if "i < inodes efs" for i
    using D(3) [OF that] D(4) by (fastforce simp: dbm_blocks_def)
  show "inode_block_of efs i \<noteq> b" if "i < inodes efs" "in_data efs nd b" for i b
    using D(3) [OF that(1)] D(5) [OF that(2)] order by auto
  show "b \<notin> dbm_blocks efs" if "in_data efs nd b" for b
    using D(4) D(5) [OF that] by (fastforce simp: dbm_blocks_def)
  show "bm_block (inode_bitmap efs) p \<notin> dbm_blocks efs" if "p < inodes efs" for p
    using D(4) D(1) [OF that] order by (fastforce simp: dbm_blocks_def)
  show "bm_block (inode_bitmap efs) p \<noteq> inode_block_of efs i" if "p < inodes efs" "i < inodes efs" for p i
    using D(1) [OF that(1)] D(3) [OF that(2)] by auto
  show "bm_block (inode_bitmap efs) p \<noteq> b" if "p < inodes efs" "in_data efs nd b" for p b
    using D(1) [OF that(1)] D(5) [OF that(2)] order by auto
  show "inode_block_of efs i = inode_block_of efs j \<longleftrightarrow> i div 4 = j div 4" if "i < inodes efs" "j < inodes efs" for i j
    using D(3) [OF that(1)] D(3) [OF that(2)] by (auto simp: word_unat_eq_iff)
qed

section \<open>The files\<close>

definition disk_inode_at :: "'w EasyFileSystem \<Rightarrow> (usize \<Rightarrow> u8 list) \<Rightarrow> nat \<Rightarrow> DiskInode" where
  "disk_inode_at efs V i = get_ref disk_inode (inode_off i) (V (inode_block_of efs i))"

definition used :: "'w EasyFileSystem \<Rightarrow> (usize \<Rightarrow> u8 list) \<Rightarrow> nat \<Rightarrow> bool" where
  "used efs V i \<longleftrightarrow> i < inodes efs \<and> bm_bit (inode_bitmap efs) V i"

abbreviation blocks_at :: "'w EasyFileSystem \<Rightarrow> (usize \<Rightarrow> u8 list) \<Rightarrow> nat \<Rightarrow> u32 set" where
  "blocks_at efs V i \<equiv> set (file_blocks (disk_inode_at efs V i) V)"

text \<open>A data block is taken when its bit is set.\<close>

definition taken :: "'w EasyFileSystem \<Rightarrow> (usize \<Rightarrow> u8 list) \<Rightarrow> u32 \<Rightarrow> bool" where
  "taken efs V b \<longleftrightarrow> bm_bit (data_bitmap efs) V (unat b - da_start efs)"

definition fs_inv :: "'w EasyFileSystem \<Rightarrow> nat \<Rightarrow> nat \<Rightarrow> (usize \<Rightarrow> u8 list) \<Rightarrow> bool" where
  "fs_inv efs nd tot V \<longleftrightarrow> fs_shape efs nd tot \<and>
     (\<forall>i. used efs V i \<longrightarrow> file_ok (in_data efs nd) (disk_inode_at efs V i) V \<and> (\<forall>b \<in> blocks_at efs V i. taken efs V b)) \<and>
     (\<forall>i j. used efs V i \<longrightarrow> used efs V j \<longrightarrow> i \<noteq> j \<longrightarrow> blocks_at efs V i \<inter> blocks_at efs V j = {})"

text \<open>The abstract file system: the type and the bytes of each file.\<close>

definition fs_files :: "'w EasyFileSystem \<Rightarrow> (usize \<Rightarrow> u8 list) \<Rightarrow> nat \<rightharpoonup> (DiskInodeType \<times> u8 list)" where
  "fs_files efs V i =
     (if used efs V i then Some (type0 (disk_inode_at efs V i), file_bytes (disk_inode_at efs V i) V) else None)"

text \<open>A file depends on its own blocks only.\<close>

lemma file_blocks_mem:
  assumes "file_ok ok d V"
  shows "\<And>b. b \<in> set (file_blocks d V) \<Longrightarrow> ok (usz b)" and "p < unat (di_size d) \<Longrightarrow> inode_block d V (p div BLOCK_SZ) \<in> set (file_blocks d V)"
proof -
  note D = inode_okD [OF assms [unfolded file_ok_def]]
  show "\<And>b. b \<in> set (file_blocks d V) \<Longrightarrow> ok (usz b)" using D(7) by (simp add: file_blocks_def)
  assume "p < unat (di_size d)"
  then have "p div BLOCK_SZ < nblocks (unat (di_size d))" using nblocks_enough [of "unat (di_size d)"] by (simp add: less_mult_imp_div_less)
  then show "inode_block d V (p div BLOCK_SZ) \<in> set (file_blocks d V)" using D(3) by (simp add: file_blocks_def)
qed

lemma file_cong:
  assumes "file_ok ok d V" and same: "\<And>b. b \<in> set (file_blocks d V) \<Longrightarrow> V' (usz b) = V (usz b)"
  shows "file_ok ok d V'" and "file_blocks d V' = file_blocks d V" and "file_bytes d V' = file_bytes d V"
proof -
  let ?n = "nblocks (unat (di_size d))"
  note D = inode_okD [OF assms(1) [unfolded file_ok_def]]
  have idx: "V' (usz b) = V (usz b)" if "b \<in> set (index_blocks d V ?n)" for b
    using same D(4) [OF that] by (simp add: file_blocks_def)
  note C = inode_block_cong [where V = V and V' = V' and d = d and n = ?n, OF idx D(2)]
  show "file_blocks d V' = file_blocks d V" using C(3) by (simp add: file_blocks_def)
  then show "file_ok ok d V'" using assms(1) by (simp add: file_ok_def inode_ok_def file_blocks_def)
  have "file_byte d V' p = file_byte d V p" if "p < unat (di_size d)" for p
  proof -
    have "p div BLOCK_SZ < ?n" using that nblocks_enough [of "unat (di_size d)"] by (simp add: less_mult_imp_div_less)
    then show ?thesis using C(1) same [OF file_blocks_mem(2) [OF assms(1) that]] by (simp add: file_byte_def)
  qed
  then show "file_bytes d V' = file_bytes d V" by (simp add: file_bytes_def)
qed

lemma fs_invD:
  assumes "fs_inv efs nd tot V"
  shows "fs_shape efs nd tot" and "used efs V i \<Longrightarrow> file_ok (in_data efs nd) (disk_inode_at efs V i) V"
    and "used efs V i \<Longrightarrow> b \<in> blocks_at efs V i \<Longrightarrow> taken efs V b"
    and "used efs V i \<Longrightarrow> used efs V j \<Longrightarrow> i \<noteq> j \<Longrightarrow> b \<in> blocks_at efs V i \<Longrightarrow> b \<notin> blocks_at efs V j"
    and "used efs V i \<Longrightarrow> b \<in> blocks_at efs V i \<Longrightarrow> in_data efs nd (usz b)"
  using assms file_blocks_mem(1) unfolding fs_inv_def by blast+

text \<open>The disk \<open>V'\<close> differs from \<open>V\<close> by an operation on the file of inode \<open>i\<close>, which is now \<open>d'\<close>: its slot has been
  written, blocks may have been taken and given back, and only blocks of the file have been written.\<close>

definition file_changed ::
  "'w EasyFileSystem \<Rightarrow> nat \<Rightarrow> nat \<Rightarrow> DiskInode \<Rightarrow> (usize \<Rightarrow> u8 list) \<Rightarrow> (usize \<Rightarrow> u8 list) \<Rightarrow> bool" where
  "file_changed efs nd i d' V V' \<longleftrightarrow>
     V' (inode_block_of efs i) = put_ref disk_inode (inode_off i) d' (V (inode_block_of efs i)) \<and>
     file_ok (in_data efs nd) d' V' \<and>
     (\<forall>b. b \<noteq> inode_block_of efs i \<longrightarrow> b \<notin> dbm_blocks efs \<longrightarrow> b \<notin> usz ` (blocks_at efs V i \<union> set (file_blocks d' V')) \<longrightarrow> V' b = V b) \<and>
     (\<forall>b \<in> set (file_blocks d' V'). taken efs V' b \<and> (b \<in> blocks_at efs V i \<or> \<not> taken efs V b)) \<and>
     (\<forall>b. in_data efs nd (usz b) \<longrightarrow> taken efs V b \<longrightarrow> b \<notin> blocks_at efs V i \<longrightarrow> taken efs V' b)"

lemma file_changedD:
  assumes "file_changed efs nd i d' V V'"
  shows "V' (inode_block_of efs i) = put_ref disk_inode (inode_off i) d' (V (inode_block_of efs i))"
    and "file_ok (in_data efs nd) d' V'"
    and "b \<noteq> inode_block_of efs i \<Longrightarrow> b \<notin> dbm_blocks efs \<Longrightarrow> b \<notin> usz ` (blocks_at efs V i \<union> set (file_blocks d' V')) \<Longrightarrow> V' b = V b"
    and "c \<in> set (file_blocks d' V') \<Longrightarrow> taken efs V' c" and "c \<in> set (file_blocks d' V') \<Longrightarrow> taken efs V c \<Longrightarrow> c \<in> blocks_at efs V i"
    and "in_data efs nd (usz c) \<Longrightarrow> taken efs V c \<Longrightarrow> c \<notin> blocks_at efs V i \<Longrightarrow> taken efs V' c"
  using assms by (auto simp: file_changed_def)

lemma file_changed_inodes:
  assumes inv: "fs_inv efs nd tot V" and u: "used efs V i" and len: "length (V (inode_block_of efs i)) = BLOCK_SZ"
    and ch: "file_changed efs nd i d' V V'"
  shows "used efs V' j = used efs V j" and "used efs V j \<Longrightarrow> disk_inode_at efs V' j = (if j = i then d' else disk_inode_at efs V j)"
proof -
  note S = areas_apart [OF fs_invD(1) [OF inv]]
  have dat: "in_data efs nd (usz b)" if "b \<in> blocks_at efs V i \<union> set (file_blocks d' V')" for b
    using that fs_invD(5) [OF inv u] file_blocks_mem(1) ch by (auto simp: file_changed_def)
  have frame: "V' c = V c" if "c \<noteq> inode_block_of efs i" "c \<notin> dbm_blocks efs" "\<And>b. in_data efs nd b \<Longrightarrow> c \<noteq> b" for c
    by (rule file_changedD(3) [OF ch that(1,2)]) (use that(3) dat in blast)
  have i: "i < inodes efs" using u by (simp add: used_def)
  have "bm_bit (inode_bitmap efs) V' p = bm_bit (inode_bitmap efs) V p" if "p < inodes efs" for p
    using frame [OF S(5) [OF that i] S(4) [OF that] S(6) [OF that]] by (simp add: bm_bit_def)
  then show "used efs V' j = used efs V j" by (auto simp: used_def)
  assume j: "used efs V j"
  then have j: "j < inodes efs" by (simp add: used_def)
  show "disk_inode_at efs V' j = (if j = i then d' else disk_inode_at efs V j)"
  proof (cases "inode_block_of efs j = inode_block_of efs i")
    case True
    have d: "length (direct d') = 28" using ch by (simp add: file_changed_def file_ok_def inode_ok_def)
    have "j = i \<longleftrightarrow> j mod 4 = i mod 4" using True S(7) [OF j i] by (metis div_mult_mod_eq)
    then show ?thesis
      using slot_get_put(2) [OF len _ _ d, of "i mod 4" "j mod 4"] ch True
      by (simp add: disk_inode_at_def file_changed_def inode_off_def del: of_nat_mult)
  next
    case False
    then show ?thesis using frame [OF False S(1) [OF j] S(2) [OF j]] by (auto simp: disk_inode_at_def)
  qed
qed

lemma file_changed_others:
  assumes inv: "fs_inv efs nd tot V" and u: "used efs V i" and ch: "file_changed efs nd i d' V V'"
    and j: "used efs V j" "j \<noteq> i" and b: "b \<in> blocks_at efs V j"
  shows "V' (usz b) = V (usz b)" and "b \<notin> set (file_blocks d' V')" and "taken efs V' b"
proof -
  note S = areas_apart [OF fs_invD(1) [OF inv]] and C = file_changedD [OF ch]
  have dat: "in_data efs nd (usz b)" and t: "taken efs V b" and ni: "b \<notin> blocks_at efs V i"
    using fs_invD(5) [OF inv j(1) b] fs_invD(3) [OF inv j(1) b] fs_invD(4) [OF inv j(1) u j(2) b] by auto
  show n: "b \<notin> set (file_blocks d' V')" using C(5) t ni by blast
  show "taken efs V' b" by (rule C(6) [OF dat t ni])
  have i: "i < inodes efs" using u by (simp add: used_def)
  show "V' (usz b) = V (usz b)"
    by (rule C(3)) (use S(2) [OF i dat] S(3) [OF dat] n ni in \<open>auto simp: usz_image\<close>)
qed

lemma fs_update:
  assumes inv: "fs_inv efs nd tot V" and u: "used efs V i" and len: "length (V (inode_block_of efs i)) = BLOCK_SZ"
    and ch: "file_changed efs nd i d' V V'"
  shows "fs_inv efs nd tot V'" and "fs_files efs V' = (fs_files efs V)(i \<mapsto> (type0 d', file_bytes d' V'))"
proof -
  note I = file_changed_inodes [OF inv u len ch] and C = file_changedD [OF ch]
  have di: "disk_inode_at efs V' i = d'" using I(2) [OF u] by simp
  have oth: "disk_inode_at efs V' j = disk_inode_at efs V j" "file_ok (in_data efs nd) (disk_inode_at efs V j) V'"
      "file_blocks (disk_inode_at efs V j) V' = file_blocks (disk_inode_at efs V j) V"
      "file_bytes (disk_inode_at efs V j) V' = file_bytes (disk_inode_at efs V j) V" if j: "used efs V j" "j \<noteq> i" for j
    using I(2) [OF j(1)] j(2) file_cong [OF fs_invD(2) [OF inv j(1)] file_changed_others(1) [OF inv u ch j]] by simp_all
  have one: "file_ok (in_data efs nd) (disk_inode_at efs V' j) V' \<and> (\<forall>b \<in> blocks_at efs V' j. taken efs V' b)" if "used efs V j" for j
  proof (cases "j = i")
    case True
    then show ?thesis using di C(2,4) by simp
  next
    case False
    then show ?thesis using oth [OF that False] file_changed_others(3) [OF inv u ch that False] by simp
  qed
  have two: "blocks_at efs V' j \<inter> blocks_at efs V' k = {}" if "used efs V j" "used efs V k" "j \<noteq> k" for j k
  proof -
    have new: "blocks_at efs V' j \<inter> blocks_at efs V' i = {}" if "used efs V j" "j \<noteq> i" for j
      using oth [OF that] di file_changed_others(2) [OF inv u ch that] by auto
    show ?thesis
    proof (cases "j = i \<or> k = i")
      case True
      then show ?thesis using new that by auto
    next
      case False
      then show ?thesis using oth [OF that(1)] oth [OF that(2)] fs_invD(4) [OF inv that] by auto
    qed
  qed
  show "fs_inv efs nd tot V'" unfolding fs_inv_def I(1) using fs_invD(1) [OF inv] one two by simp
  show "fs_files efs V' = (fs_files efs V)(i \<mapsto> (type0 d', file_bytes d' V'))"
  proof
    fix j show "fs_files efs V' j = ((fs_files efs V)(i \<mapsto> (type0 d', file_bytes d' V'))) j"
      using di oth [of j] u by (auto simp: fs_files_def I(1))
  qed
qed

section \<open>Taking blocks\<close>

lemma bm_ok_areas:
  assumes "fs_shape efs nd tot" and "\<And>b. unat b < tot \<Longrightarrow> ok b"
  shows "bm_ok ok (data_bitmap efs)" and "bm_ok ok (inode_bitmap efs)"
proof -
  note D = shapeD [OF assms(1)] and s = assms(1) [unfolded fs_shape_def]
  have size: "bm_size bm \<le> 2 ^ 64" if "unat (blocks bm) \<le> 2 ^ 32" for bm
    using that by (simp add: bm_size_def BLOCK_BITS_def BLOCK_SZ_def)
  have "ok (bm_block (data_bitmap efs) p)" if "p < bm_size (data_bitmap efs)" for p
    by (rule assms(2)) (use D(4) [OF that] s in linarith)
  moreover have "dbm_start efs + unat (blocks (data_bitmap efs)) \<le> 2 ^ 32" using s by linarith
  ultimately show "bm_ok ok (data_bitmap efs)" using size [of "data_bitmap efs"] by (simp add: bm_ok_def)
  have "ok (bm_block (inode_bitmap efs) p)" if "p < inodes efs" for p
    by (rule assms(2)) (use D(1) [OF that] s in linarith)
  moreover have "ibm_start efs + unat (blocks (inode_bitmap efs)) \<le> 2 ^ 32" using s by linarith
  ultimately show "bm_ok ok (inode_bitmap efs)" using size [of "inode_bitmap efs"] by (simp add: bm_ok_def)
qed

text \<open>The data blocks that are free, by their numbers in the bitmap.\<close>

definition free_bits :: "'w EasyFileSystem \<Rightarrow> nat \<Rightarrow> (usize \<Rightarrow> u8 list) \<Rightarrow> nat set" where
  "free_bits efs nd V = {p. p < nd \<and> \<not> bm_bit (data_bitmap efs) V p}"

text \<open>\<open>V'\<close> is \<open>V\<close> with the blocks \<open>bs\<close>, which were free, taken.\<close>

definition took :: "'w EasyFileSystem \<Rightarrow> nat \<Rightarrow> u32 list \<Rightarrow> (usize \<Rightarrow> u8 list) \<Rightarrow> (usize \<Rightarrow> u8 list) \<Rightarrow> bool" where
  "took efs nd bs V V' \<longleftrightarrow> distinct bs \<and> (\<forall>b \<in> set bs. in_data efs nd (usz b) \<and> \<not> taken efs V b) \<and>
     (\<forall>b. in_data efs nd (usz b) \<longrightarrow> (taken efs V' b \<longleftrightarrow> taken efs V b \<or> b \<in> set bs)) \<and>
     (\<forall>c. c \<notin> dbm_blocks efs \<longrightarrow> V' c = V c)"

lemma took_one:
  assumes shape: "fs_shape efs nd tot" and ok: "bm_ok ok (data_bitmap efs)"
    and p: "p < nd" "\<not> bm_bit (data_bitmap efs) V p" and b: "unat b = da_start efs + p"
  shows "took efs nd [b] V (bm_put (data_bitmap efs) p True V)"
    and "free_bits efs nd (bm_put (data_bitmap efs) p True V) = free_bits efs nd V - {p}"
proof -
  have nd: "nd \<le> bm_size (data_bitmap efs)" using shape by (simp add: fs_shape_def)
  have put: "bm_bit (data_bitmap efs) (bm_put (data_bitmap efs) p True V) q \<longleftrightarrow> q = p \<or> bm_bit (data_bitmap efs) V q" if "q < nd" for q
    using bm_bit_put [OF ok, of p q True V] that p(1) nd by auto
  then show "free_bits efs nd (bm_put (data_bitmap efs) p True V) = free_bits efs nd V - {p}" by (auto simp: free_bits_def)
  have "taken efs (bm_put (data_bitmap efs) p True V) c \<longleftrightarrow> taken efs V c \<or> c = b" if "in_data efs nd (usz c)" for c
  proof -
    have "unat c - da_start efs < nd" "unat c - da_start efs = p \<longleftrightarrow> c = b"
      using that b by (auto simp: in_data_def word_unat_eq_iff)
    then show ?thesis using put by (auto simp: taken_def)
  qed
  moreover have "bm_block (data_bitmap efs) p \<in> dbm_blocks efs" using p(1) nd by (auto simp: dbm_blocks_def)
  then have "bm_put (data_bitmap efs) p True V c = V c" if "c \<notin> dbm_blocks efs" for c using that by (intro bm_put_other) auto
  ultimately show "took efs nd [b] V (bm_put (data_bitmap efs) p True V)"
    using p b by (auto simp: took_def taken_def in_data_def)
qed

lemma took_append:
  assumes "took efs nd xs V V1" and "took efs nd ys V1 V2"
  shows "took efs nd (xs @ ys) V V2"
  using assms unfolding took_def by auto

context device_contract
begin

lemma alloc_data_ok:
  assumes st: "st L V s" and L: "card L < BLOCK_CACHE_SIZE" "dbm_blocks efs \<inter> L = {}" and shape: "fs_shape efs nd tot"
    and dev: "efs_device efs = dev" "\<And>b. unat b < tot \<Longrightarrow> ok b" and free: "free_bits efs nd V \<noteq> {}"
  shows "returns (alloc_data efs s) (\<lambda>(b, s'). \<exists>V'. st L V' s' \<and> took efs nd [b] V V' \<and> card (free_bits efs nd V') = card (free_bits efs nd V) - 1)"
proof -
  note ok = bm_ok_areas(1) [OF shape dev(2)]
  have nd: "nd \<le> bm_size (data_bitmap efs)" and da: "da_start efs + nd < 2 ^ 32" using shape by (auto simp: fs_shape_def)
  have "returns (bitmap_alloc (data_bitmap efs) dev s) (\<lambda>(r, s'). \<exists>V'. st L V' s' \<and> first_clear (data_bitmap efs) V 0 (bm_size (data_bitmap efs)) r V')"
    by (rule bitmap_alloc_ok [OF st ok L(1)]) (use L(2) in \<open>auto simp: dbm_blocks_def disjoint_iff\<close>)
  then obtain r s' V' where run: "bitmap_alloc (data_bitmap efs) dev s = Ok (r, s')" and h: "st L V' s'"
      "first_clear (data_bitmap efs) V 0 (bm_size (data_bitmap efs)) r V'" by (auto simp: returns_def)
  obtain q where q: "q < nd" "\<not> bm_bit (data_bitmap efs) V q" using free by (auto simp: free_bits_def)
  then obtain p where r: "r = Some p" and p: "\<not> bm_bit (data_bitmap efs) V (unat p)" "V' = bm_put (data_bitmap efs) (unat p) True V"
      "\<And>i. i < unat p \<Longrightarrow> bm_bit (data_bitmap efs) V i"
    using h(2) nd by (cases r) (auto simp: first_clear_def)
  have lt: "unat p < nd" using p(3) [of q] q by (meson linorder_not_le order_le_less_trans)
  let ?b = "ucast p + data_area_start_block efs"
  have b: "unat ?b = da_start efs + unat p" using lt da by (simp add: unat_word_ariths unsigned_ucast_eq take_bit_nat_eq_self)
  note T = took_one [OF shape ok lt p(1) b]
  have "card (free_bits efs nd V') = card (free_bits efs nd V) - 1"
  proof -
    have "unat p \<in> free_bits efs nd V" using lt p(1) by (simp add: free_bits_def)
    then show ?thesis unfolding p(2) by (simp add: T(2))
  qed
  then show ?thesis using run r h(1) T(1) p(2) dev(1) by (auto simp: alloc_data_def)
qed

lemma alloc_blocks_ok:
  assumes "st L V s" and L: "card L < BLOCK_CACHE_SIZE" "dbm_blocks efs \<inter> L = {}" and shape: "fs_shape efs nd tot"
    and dev: "efs_device efs = dev" "\<And>b. unat b < tot \<Longrightarrow> ok b" and "n \<le> card (free_bits efs nd V)"
  shows "returns (alloc_blocks n efs s) (\<lambda>(v, s'). \<exists>V'. st L V' s' \<and> length v = n \<and> took efs nd v V V' \<and>
    card (free_bits efs nd V') + n = card (free_bits efs nd V))"
  using assms(1,7)
proof (induction n arbitrary: V s)
  case 0
  then show ?case by (auto simp: took_def)
next
  case (Suc n)
  have "free_bits efs nd V \<noteq> {}" using Suc.prems(2) by auto
  from alloc_data_ok [OF Suc.prems(1) L shape dev this] obtain b s1 V1 where
    b: "alloc_data efs s = Ok (b, s1)" "st L V1 s1" "took efs nd [b] V V1" "card (free_bits efs nd V1) = card (free_bits efs nd V) - 1"
    by (auto simp: returns_def)
  have "n \<le> card (free_bits efs nd V1)" using Suc.prems(2) b(4) by simp
  from Suc.IH [OF b(2) this] obtain v s2 V2 where v: "alloc_blocks n efs s1 = Ok (v, s2)" "st L V2 s2" "length v = n" "took efs nd v V1 V2"
      "card (free_bits efs nd V2) + n = card (free_bits efs nd V1)" by (auto simp: returns_def)
  then show ?case using b(1,4) took_append [OF b(3) v(4)] Suc.prems(2) by auto
qed

end

section \<open>Steps on one file\<close>

text \<open>The inode \<open>d\<close> of a file has become \<open>d'\<close>, in memory, and the disk \<open>V'\<close>: like \<open>file_changed\<close>, before the
  slot is written.\<close>

definition file_step ::
  "'w EasyFileSystem \<Rightarrow> nat \<Rightarrow> DiskInode \<Rightarrow> (usize \<Rightarrow> u8 list) \<Rightarrow> DiskInode \<Rightarrow> (usize \<Rightarrow> u8 list) \<Rightarrow> bool" where
  "file_step efs nd d V d' V' \<longleftrightarrow> file_ok (in_data efs nd) d' V' \<and>
     (\<forall>c. c \<notin> dbm_blocks efs \<longrightarrow> c \<notin> usz ` (set (file_blocks d V) \<union> set (file_blocks d' V')) \<longrightarrow> V' c = V c) \<and>
     (\<forall>b \<in> set (file_blocks d' V'). taken efs V' b \<and> (b \<in> set (file_blocks d V) \<or> \<not> taken efs V b)) \<and>
     (\<forall>b. in_data efs nd (usz b) \<longrightarrow> taken efs V b \<longrightarrow> b \<notin> set (file_blocks d V) \<longrightarrow> taken efs V' b)"

lemma file_stepD:
  assumes "file_step efs nd d V d' V'"
  shows "file_ok (in_data efs nd) d' V'"
    and "c \<notin> dbm_blocks efs \<Longrightarrow> c \<notin> usz ` (set (file_blocks d V) \<union> set (file_blocks d' V')) \<Longrightarrow> V' c = V c"
    and "b \<in> set (file_blocks d' V') \<Longrightarrow> taken efs V' b" and "b \<in> set (file_blocks d' V') \<Longrightarrow> b \<in> set (file_blocks d V) \<or> \<not> taken efs V b"
    and "in_data efs nd (usz b) \<Longrightarrow> taken efs V b \<Longrightarrow> b \<notin> set (file_blocks d V) \<Longrightarrow> taken efs V' b"
    and "b \<in> set (file_blocks d' V') \<Longrightarrow> in_data efs nd (usz b)"
  using assms file_blocks_mem(1) unfolding file_step_def by blast+

lemma file_stepI:
  assumes "file_ok (in_data efs nd) d' V'"
    and "\<And>c. c \<notin> dbm_blocks efs \<Longrightarrow> c \<notin> usz ` (set (file_blocks d V) \<union> set (file_blocks d' V')) \<Longrightarrow> V' c = V c"
    and "\<And>b. b \<in> set (file_blocks d' V') \<Longrightarrow> taken efs V' b" and "\<And>b. b \<in> set (file_blocks d' V') \<Longrightarrow> b \<in> set (file_blocks d V) \<or> \<not> taken efs V b"
    and "\<And>b. in_data efs nd (usz b) \<Longrightarrow> taken efs V b \<Longrightarrow> b \<notin> set (file_blocks d V) \<Longrightarrow> taken efs V' b"
  shows "file_step efs nd d V d' V'"
  using assms unfolding file_step_def by blast

lemma file_ok_mono:
  assumes "file_ok A d V" and "\<And>b. b \<in> set (file_blocks d V) \<Longrightarrow> B (usz b)"
  shows "file_ok B d V"
  using assms by (simp add: file_ok_def inode_ok_def file_blocks_def)

lemma taken_cong: "(\<And>c. c \<in> dbm_blocks efs \<Longrightarrow> V' c = V c) \<Longrightarrow> unat b - da_start efs < bm_size (data_bitmap efs) \<Longrightarrow> taken efs V' b = taken efs V b"
  by (simp add: taken_def bm_bit_def dbm_blocks_def)

lemma in_data_bit:
  assumes "fs_shape efs nd tot" and "in_data efs nd (usz b)"
  shows "unat b - da_start efs < bm_size (data_bitmap efs)"
  using assms by (auto simp: fs_shape_def in_data_def)

lemma free_bits_cong:
  assumes "fs_shape efs nd tot" and "\<And>c. c \<in> dbm_blocks efs \<Longrightarrow> V' c = V c"
  shows "free_bits efs nd V' = free_bits efs nd V"
  using assms by (auto simp: free_bits_def bm_bit_def dbm_blocks_def fs_shape_def)

lemma file_step_changed:
  assumes shape: "fs_shape efs nd tot" and i: "i < inodes efs" and step: "file_step efs nd (disk_inode_at efs V i) V d' V'"
    and old: "\<And>b. b \<in> blocks_at efs V i \<Longrightarrow> in_data efs nd (usz b)"
    and V'': "V'' = V'(inode_block_of efs i := put_ref disk_inode (inode_off i) d' (V' (inode_block_of efs i)))"
  shows "file_changed efs nd i d' V V''"
proof -
  note S = areas_apart [OF shape]
  note F = file_stepD [OF step]
  have slot: "V'' (inode_block_of efs i) = put_ref disk_inode (inode_off i) d' (V' (inode_block_of efs i))" using V'' by simp
  have oth: "V'' c = V' c" if "c \<noteq> inode_block_of efs i" for c using V'' that by simp
  have same: "V'' (usz b) = V' (usz b)" if "b \<in> set (file_blocks d' V')" for b
    by (rule oth) (use S(2) [OF i F(6) [OF that]] in simp)
  have C: "file_ok (in_data efs nd) d' V''" "file_blocks d' V'' = file_blocks d' V'"
    by (rule file_cong [OF F(1) same], assumption)+
  have tk: "taken efs V'' b = taken efs V' b" if "in_data efs nd (usz b)" for b
    by (rule taken_cong [OF _ in_data_bit [OF shape that]]) (rule oth, use S(1) [OF i] in blast)
  have "inode_block_of efs i \<notin> usz ` (blocks_at efs V i \<union> set (file_blocks d' V'))"
    using S(2) [OF i] old F(6) by blast
  from F(2) [OF S(1) [OF i] this] have s1: "V'' (inode_block_of efs i) = put_ref disk_inode (inode_off i) d' (V (inode_block_of efs i))"
    using slot by simp
  have s2: "V'' b = V b" if "b \<noteq> inode_block_of efs i" "b \<notin> dbm_blocks efs" "b \<notin> usz ` (blocks_at efs V i \<union> set (file_blocks d' V'))" for b
    using oth [OF that(1)] F(2) [OF that(2,3)] by simp
  have s3: "taken efs V'' b \<and> (b \<in> blocks_at efs V i \<or> \<not> taken efs V b)" if "b \<in> set (file_blocks d' V')" for b
    using tk [OF F(6) [OF that]] F(3,4) [OF that] by simp
  have s4: "taken efs V'' b" if "in_data efs nd (usz b)" "taken efs V b" "b \<notin> blocks_at efs V i" for b
    using tk [OF that(1)] F(5) [OF that] by simp
  show ?thesis unfolding file_changed_def C(2)
    using s1 C(1) s2 s3 s4 by (intro conjI allI ballI impI) simp_all
qed

lemma file_step_write:
  assumes shape: "fs_shape efs nd tot" and step: "file_step efs nd d V d' V1" and w: "overwrote ok d' off bs V1 V2"
  shows "file_step efs nd d V d' V2" and "free_bits efs nd V2 = free_bits efs nd V1"
proof -
  note F = file_stepD [OF step]
  have W: "file_blocks d' V2 = file_blocks d' V1" "\<And>b. b \<notin> usz ` set (file_blocks d' V1) \<Longrightarrow> V2 b = V1 b" "file_ok ok d' V2"
    using w by (simp_all add: overwrote_def)
  have tk: "taken efs V2 b = taken efs V1 b" if "in_data efs nd (usz b)" for b
    by (rule taken_cong [OF _ in_data_bit [OF shape that]]) (rule W(2), use areas_apart(3) [OF shape] F(6) in blast)
  show "free_bits efs nd V2 = free_bits efs nd V1"
    by (rule free_bits_cong [OF shape]) (rule W(2), use areas_apart(3) [OF shape] F(6) in blast)
  show "file_step efs nd d V d' V2"
  proof (rule file_stepI; (unfold W(1))?)
    show "file_ok (in_data efs nd) d' V2" by (rule file_ok_mono [OF W(3)]) (use F(6) W(1) in simp)
    show "V2 c = V c" if "c \<notin> dbm_blocks efs" "c \<notin> usz ` (set (file_blocks d V) \<union> set (file_blocks d' V1))" for c
      using W(2) [of c] F(2) [OF that] that(2) by auto
    show "taken efs V2 b" if "b \<in> set (file_blocks d' V1)" for b using tk [OF F(6) [OF that]] F(3) [OF that] by simp
    show "taken efs V2 b" if "in_data efs nd (usz b)" "taken efs V b" "b \<notin> set (file_blocks d V)" for b
      using tk [OF that(1)] F(5) [OF that] by simp
  qed (rule F(4))
qed

text \<open>Taking blocks and growing the file by them.\<close>

lemma file_step_enlarged:
  assumes shape: "fs_shape efs nd tot" and ok: "file_ok (in_data efs nd) d V" and tk: "\<And>b. b \<in> set (file_blocks d V) \<Longrightarrow> taken efs V b"
    and t: "took efs nd v V V1" and e: "enlarged A d V1 v d' V2"
  shows "file_step efs nd d V d' V2" and "take (unat (di_size d)) (file_bytes d' V2) = file_bytes d V"
    and "set (file_blocks d' V2) = set (file_blocks d V) \<union> set v" and "free_bits efs nd V2 = free_bits efs nd V1"
proof -
  have same: "V1 (usz b) = V (usz b)" if "b \<in> set (file_blocks d V)" for b
    using t areas_apart(3) [OF shape file_blocks_mem(1) [OF ok that]] by (simp add: took_def)
  note C = file_cong [where V' = V1, OF ok same]
  have E: "file_ok A d' V2" "alloc_order d' V2 = alloc_order d V1 @ v" "take (unat (di_size d)) (file_bytes d' V2) = file_bytes d V1"
    "\<And>b. b \<notin> usz ` set (alloc_order d' V2) \<Longrightarrow> V2 b = V1 b" using e by (simp_all add: enlarged_def)
  note b1 = alloc_order_blocks(1) [OF E(1)] alloc_order_blocks(1) [OF C(1)]
  show bl: "set (file_blocks d' V2) = set (file_blocks d V) \<union> set v" using b1 E(2) C(2) by auto
  show "take (unat (di_size d)) (file_bytes d' V2) = file_bytes d V" using E(3) C(3) by simp
  have dat: "in_data efs nd (usz b)" if "b \<in> set (file_blocks d' V2)" for b
    using that file_blocks_mem(1) [OF ok] t unfolding bl by (auto simp: took_def)
  have tk2: "taken efs V2 b = taken efs V1 b" if "in_data efs nd (usz b)" for b
    by (rule taken_cong [OF _ in_data_bit [OF shape that]]) (rule E(4), use areas_apart(3) [OF shape] dat b1(1) in blast)
  show "free_bits efs nd V2 = free_bits efs nd V1"
    by (rule free_bits_cong [OF shape]) (rule E(4), use areas_apart(3) [OF shape] dat b1(1) in blast)
  show "file_step efs nd d V d' V2"
  proof (rule file_stepI)
    show "file_ok (in_data efs nd) d' V2" by (rule file_ok_mono [where B = "in_data efs nd", OF E(1) dat])
    show "V2 c = V c" if "c \<notin> dbm_blocks efs" "c \<notin> usz ` (set (file_blocks d V) \<union> set (file_blocks d' V2))" for c
    proof -
      have "c \<notin> usz ` set (alloc_order d' V2)" using that(2) b1(1) by blast
      then show ?thesis using E(4) t that(1) by (simp add: took_def)
    qed
    show "taken efs V2 b" if "b \<in> set (file_blocks d' V2)" for b
      using tk2 [OF dat [OF that]] that t dat [OF that] tk unfolding bl by (auto simp: took_def)
    show "b \<in> set (file_blocks d V) \<or> \<not> taken efs V b" if "b \<in> set (file_blocks d' V2)" for b
      using that t unfolding bl by (auto simp: took_def)
    show "taken efs V2 b" if "in_data efs nd (usz b)" "taken efs V b" "b \<notin> set (file_blocks d V)" for b
      using tk2 [OF that(1)] that t by (auto simp: took_def)
  qed
qed

end
