(* ===== verification/FsOps.thy ===== *)
theory FsOps
  imports FsInv
begin

text \<open>
  The operations on the bytes of a file (\<open>read_at\<close>, \<open>write_at\<close> and \<open>clear\<close> of \<open>src/easy-fs/src/vfs.rs\<close>) on a file
  system that satisfies the invariant: each changes its own file as a function on its bytes would, keeps
  every other file, keeps the invariant, and takes and gives back exactly the blocks it needs.
\<close>

section \<open>Writing a file\<close>

lemma file_step_refl:
  assumes "file_ok (in_data efs nd) d V" and "\<And>b. b \<in> set (file_blocks d V) \<Longrightarrow> taken efs V b"
  shows "file_step efs nd d V d V"
  using assms by (simp add: file_step_def)

lemma usable_new:
  assumes ok: "file_ok (in_data efs nd) d V" and tk: "\<And>b. b \<in> set (file_blocks d V) \<Longrightarrow> taken efs V b" and t: "took efs nd v V V1"
    and shape: "fs_shape efs nd tot" and dev: "\<And>b. unat b < tot \<Longrightarrow> ok b" and L: "\<And>b. in_data efs nd b \<Longrightarrow> b \<notin> L"
  shows "file_ok ok d V1" and "usable ok L (alloc_order d V1 @ v)"
proof -
  have same: "V1 (usz b) = V (usz b)" if "b \<in> set (file_blocks d V)" for b
    using t areas_apart(3) [OF shape file_blocks_mem(1) [OF ok that]] by (simp add: took_def)
  have C: "file_ok (in_data efs nd) d V1" "file_blocks d V1 = file_blocks d V" by (rule file_cong [OF ok same], assumption)+
  have dat: "in_data efs nd (usz b)" if "b \<in> set (alloc_order d V1 @ v)" for b
    using that alloc_order_blocks(1) [OF C(1)] file_blocks_mem(1) [OF C(1)] t by (auto simp: took_def)
  have dok: "ok b" if "in_data efs nd b" for b using dev shapeD(5) [OF shape that] by blast
  show "file_ok ok d V1" by (rule file_ok_mono [OF C(1)]) (use file_blocks_mem(1) [OF C(1)] dok in blast)
  have "distinct (alloc_order d V1 @ v)"
    using alloc_order_blocks(1,2) [OF C(1)] t tk C(2) by (auto simp: took_def)
  then show "usable ok L (alloc_order d V1 @ v)" using dat dok L by (auto simp: usable_def)
qed

context device_contract
begin

lemma vfs_increase_ok:
  assumes st: "st L V s" and L: "card L + 1 < BLOCK_CACHE_SIZE" "dbm_blocks efs \<inter> L = {}" "\<And>b. in_data efs nd b \<Longrightarrow> b \<notin> L"
    and shape: "fs_shape efs nd tot" and dev: "efs_device efs = dev" "\<And>b. unat b < tot \<Longrightarrow> ok b" and ino: "i_fs ino = efs" "i_device ino = dev"
    and d: "file_ok (in_data efs nd) d V" and tk: "\<And>b. b \<in> set (file_blocks d V) \<Longrightarrow> taken efs V b"
    and fits: "nblocks (unat new_size) \<le> MAX_BLOCKS"
    and space: "unat (total_blocks new_size) \<le> unat (total_blocks (di_size d)) + card (free_bits efs nd V)"
  shows "returns (vfs_increase_size ino new_size d s) (\<lambda>(d', s'). \<exists>V'. st L V' s' \<and> file_step efs nd d V d' V' \<and>
    di_size d' = max (di_size d) new_size \<and> type0 d' = type0 d \<and> take (unat (di_size d)) (file_bytes d' V') = file_bytes d V \<and>
    card (free_bits efs nd V') + unat (total_blocks (di_size d')) = card (free_bits efs nd V) + unat (total_blocks (di_size d)))"
proof (cases "new_size < di_size d")
  case True
  then show ?thesis using st file_step_refl [OF d tk] by (auto simp: vfs_increase_size_def max_def)
next
  case False
  then have le: "di_size d \<le> new_size" by simp
  let ?k = "total_blocks new_size - total_blocks (di_size d)"
  have need: "blocks_num_needed d new_size = Ok ?k" using le by (simp add: blocks_num_needed_def assertr_def)
  have k: "unat (total_blocks new_size) = unat (total_blocks (di_size d)) + unat ?k"
    using blocks_num_needed_Ok [OF need fits] total_blocks_ok(2) [OF fits]
      total_blocks_ok(2) [of "di_size d"] nblocks_mono [of "unat (di_size d)" "unat new_size"] fits le
    by (simp add: word_le_nat_alt)
  then have "unat ?k \<le> card (free_bits efs nd V)" using space by simp
  from alloc_blocks_ok [OF st _ L(2) shape dev this] L(1) obtain v s1 V1 where
    v: "alloc_blocks (unat ?k) efs s = Ok (v, s1)" "st L V1 s1" "length v = unat ?k" "took efs nd v V V1"
    "card (free_bits efs nd V1) + unat ?k = card (free_bits efs nd V)"
    by (auto simp: returns_def)
  note U = usable_new [OF d tk v(4) shape dev(2) L(3)]
  from increase_file_ok [OF v(2) L(1) U(1) need v(3) fits U(2)] obtain d' s2 V2 where
    i: "increase_size new_size v dev d s1 = Ok (d', s2)" "st L V2 s2" "di_size d' = new_size" "enlarged ok d V1 v d' V2"
    by (auto simp: returns_def)
  note F = file_step_enlarged [OF shape d tk v(4) i(4)]
  show ?thesis using False need v(1,5) i F(1,2,4) le ino k by (auto simp: vfs_increase_size_def enlarged_def max_def)
qed

end

text \<open>The handle of inode \<open>i\<close>.\<close>

definition inode_handle :: "'w EasyFileSystem \<Rightarrow> nat \<Rightarrow> 'w Inode" where
  "inode_handle efs i = inode_new (ucast (inode_block_of efs i)) (inode_off i) efs (efs_device efs)"

lemma inode_handle_fields:
  assumes "fs_shape efs nd tot" and "i < inodes efs"
  shows "i_block_id (inode_handle efs i) = inode_block_of efs i" and "i_block_offset (inode_handle efs i) = inode_off i"
    and "i_fs (inode_handle efs i) = efs" and "i_device (inode_handle efs i) = efs_device efs"
  using get_disk_inode_pos_eq(2) [OF assms] by (simp_all add: inode_handle_def inode_new_def)

lemma inode_off_fits: "fits (inode_off i) (size_of disk_inode)" "unat (inode_off i) + size_of disk_inode \<le> BLOCK_SZ"
  using inode_slot [of "i mod 4"] by (simp_all add: fits_def inode_off_def disk_inode_def)

text \<open>Writing at an offset inside the file or at its end, as a function on the bytes of the file.\<close>

definition write_bytes :: "u8 list \<Rightarrow> nat \<Rightarrow> u8 list \<Rightarrow> u8 list" where
  "write_bytes old off buf = take off old @ buf @ drop (off + length buf) old"

lemma write_bytes_grown:
  assumes "take (length old) new = old" and "length new = max (length old) (off + length buf)" and "off \<le> length old"
  shows "overwrite new off buf = write_bytes old off buf"
proof -
  have "take off new = take off old" using assms(1,3) by (metis min.absorb1 take_take)
  moreover have "drop (off + length buf) new = drop (off + length buf) old"
  proof (cases "off + length buf < length old")
    case True
    then have "new = old" using assms(1,2) by simp
    then show ?thesis by simp
  qed (use assms(2) in simp)
  ultimately show ?thesis by (simp add: overwrite_def write_bytes_def)
qed

context device_contract
begin

lemma vfs_write_closure:
  assumes st: "st {inode_block_of efs i} V s" and inv: "fs_inv efs nd tot V" and u: "used efs V i"
    and dev: "efs_device efs = dev" "\<And>b. unat b < tot \<Longrightarrow> ok b"
    and off: "unat off \<le> unat (di_size (disk_inode_at efs V i))" and buf: "buf \<noteq> []"
    and fits: "unat off + length buf < 2 ^ 32" "nblocks (unat off + length buf) \<le> MAX_BLOCKS"
    and space: "unat (total_blocks (of_nat (unat off + length buf))) \<le> unat (total_blocks (di_size (disk_inode_at efs V i))) + card (free_bits efs nd V)"
  shows "returns (bindr (vfs_increase_size (inode_handle efs i) (ucast (off + of_nat (length buf))) (disk_inode_at efs V i) s) (\<lambda>(d, s).
      bindr (di_write_at d off buf dev s) (\<lambda>(n, s). Ok (n, d, s))))
    (\<lambda>(n, d', s'). \<exists>V'. st {inode_block_of efs i} V' s' \<and> n = length buf \<and> type0 d' = type0 (disk_inode_at efs V i) \<and>
       file_step efs nd (disk_inode_at efs V i) V d' V' \<and>
       file_bytes d' V' = write_bytes (file_bytes (disk_inode_at efs V i) V) (unat off) buf \<and>
       card (free_bits efs nd V') + unat (total_blocks (of_nat (length (write_bytes (file_bytes (disk_inode_at efs V i) V) (unat off) buf)))) =
         card (free_bits efs nd V) + unat (total_blocks (di_size (disk_inode_at efs V i))))"
proof -
  let ?L = "{inode_block_of efs i}" and ?d = "disk_inode_at efs V i" and ?n = "ucast (off + of_nat (length buf)) :: u32"
  note shape = fs_invD(1) [OF inv]
  have i: "i < inodes efs" using u by (simp add: used_def)
  note H = inode_handle_fields [OF shape i] and S = areas_apart [OF shape]
  have n: "unat ?n = unat off + length buf" "?n = of_nat (unat off + length buf)"
  proof -
    have "unat (of_nat (length buf) :: usize) = length buf" by (rule unat_of_nat_small) (use fits(1) in simp)
    then have "unat (off + of_nat (length buf)) = unat off + length buf" using fits(1) by (simp add: unat_word_ariths)
    then show 1: "unat ?n = unat off + length buf" using fits(1) by (simp add: unsigned_ucast_eq take_bit_nat_eq_self)
    show "?n = of_nat (unat off + length buf)" unfolding word_unat_eq_iff 1 using unat_of_nat_small(2) [OF fits(1)] by simp
  qed
  have L: "card ?L + 1 < BLOCK_CACHE_SIZE" "dbm_blocks efs \<inter> ?L = {}" "\<And>b. in_data efs nd b \<Longrightarrow> b \<notin> ?L"
    using S(1) [OF i] S(2) [OF i] by (auto simp: BLOCK_CACHE_SIZE_def)
  have "returns (vfs_increase_size (inode_handle efs i) ?n ?d s) (\<lambda>(d', s'). \<exists>V'. st ?L V' s' \<and> file_step efs nd ?d V d' V' \<and>
      di_size d' = max (di_size ?d) ?n \<and> type0 d' = type0 ?d \<and> take (unat (di_size ?d)) (file_bytes d' V') = file_bytes ?d V \<and>
      card (free_bits efs nd V') + unat (total_blocks (di_size d')) = card (free_bits efs nd V) + unat (total_blocks (di_size ?d)))"
    by (rule vfs_increase_ok [OF st L shape dev H(3) _ fs_invD(2) [OF inv u] fs_invD(3) [OF inv u]])
      (use H(4) dev fits(2) space n in simp_all)
  then obtain d' s1 V1 where run: "vfs_increase_size (inode_handle efs i) ?n ?d s = Ok (d', s1)" and h: "st ?L V1 s1" "file_step efs nd ?d V d' V1"
      "di_size d' = max (di_size ?d) ?n" "type0 d' = type0 ?d" "take (unat (di_size ?d)) (file_bytes d' V1) = file_bytes ?d V"
      "card (free_bits efs nd V1) + unat (total_blocks (di_size d')) = card (free_bits efs nd V) + unat (total_blocks (di_size ?d))"
    by (auto simp: returns_def)
  note F = file_stepD [OF h(2)]
  have size: "unat (di_size d') = max (unat (di_size ?d)) (unat off + length buf)" using h(3) n(1) by (simp add: max_def word_le_nat_alt)
  have "returns (di_write_at d' off buf dev s1) (\<lambda>(m, s').
      let data = take (unat (di_size d') - unat off) buf in m = length data \<and> (\<exists>V'. st ?L V' s' \<and> overwrote ok d' (unat off) data V1 V'))"
  proof (rule di_write_at_file [OF h(1)])
    show "file_ok ok d' V1" by (rule file_ok_mono [OF F(1)]) (use F(6) shapeD(5) [OF shape] dev(2) in blast)
    show "usz b \<notin> ?L" if "b \<in> set (file_blocks d' V1)" for b using L(3) [OF F(6) [OF that]] .
  qed (use size fits length_greater_0_conv [of buf] buf L(1) in \<open>simp_all add: max_def\<close>)
  then obtain s2 V2 where w: "di_write_at d' off buf dev s1 = Ok (length buf, s2)" "st ?L V2 s2" "overwrote ok d' (unat off) buf V1 V2"
    using size by (auto simp: returns_def)
  have fb: "file_bytes d' V2 = write_bytes (file_bytes ?d V) (unat off) buf"
    using w(3) write_bytes_grown [of "file_bytes ?d V" "file_bytes d' V1" "unat off" buf] h(5) size off by (simp add: overwrote_def)
  have "of_nat (length (file_bytes d' V2)) = di_size d'" by simp
  from this [unfolded fb] show ?thesis using fb run w h(4,6) file_step_write [OF shape h(2) w(3)] by auto
qed

text \<open>An operation that locks the inode's block, changes the file and stores the inode again.\<close>

lemma modify_inode_ok:
  assumes st: "st {} V s" and inv: "fs_inv efs nd tot V" and u: "used efs V i"
    and dev: "efs_device efs = dev" "\<And>b. unat b < tot \<Longrightarrow> ok b"
    and closure: "\<And>s1. st {inode_block_of efs i} V s1 \<Longrightarrow> returns (f (disk_inode_at efs V i) s1)
      (\<lambda>(v, d', s2). \<exists>V'. st {inode_block_of efs i} V' s2 \<and> file_step efs nd (disk_inode_at efs V i) V d' V' \<and> P v d' (file_bytes d' V') (free_bits efs nd V'))"
  shows "returns (modify_disk_inode (inode_handle efs i) f s) (\<lambda>(v, s'). \<exists>V' d'. st {} V' s' \<and> fs_inv efs nd tot V' \<and>
    P v d' (file_bytes d' V') (free_bits efs nd V') \<and> fs_files efs V' = (fs_files efs V)(i \<mapsto> (type0 d', file_bytes d' V')) \<and> file_changed efs nd i d' V V')"
proof -
  note shape = fs_invD(1) [OF inv]
  have i: "i < inodes efs" using u by (simp add: used_def)
  let ?b = "inode_block_of efs i"
  note H = inode_handle_fields [OF shape i]
  have okb: "ok ?b" by (rule dev(2)) (use shapeD(3) [OF shape i] shape in \<open>simp add: fs_shape_def\<close>)
  have len: "length (V ?b) = BLOCK_SZ" using st_length [OF st okb] .
  have fin: "st {?b} V' s2 \<Longrightarrow> file_step efs nd (disk_inode_at efs V i) V d' V' \<Longrightarrow> P v d' (file_bytes d' V') (free_bits efs nd V') \<Longrightarrow>
      length (put_ref disk_inode (inode_off i) d' (V' ?b)) = BLOCK_SZ \<and>
      (let W = V'(?b := put_ref disk_inode (inode_off i) d' (V' ?b)) in \<exists>d'. fs_inv efs nd tot W \<and> P v d' (file_bytes d' W) (free_bits efs nd W) \<and>
        fs_files efs W = (fs_files efs V)(i \<mapsto> (type0 d', file_bytes d' W)) \<and> file_changed efs nd i d' V W)" for v d' s2 V'
  proof -
    assume h: "st {?b} V' s2" "file_step efs nd (disk_inode_at efs V i) V d' V'" "P v d' (file_bytes d' V') (free_bits efs nd V')"
    let ?W = "V'(?b := put_ref disk_inode (inode_off i) d' (V' ?b))"
    note F = file_stepD [OF h(2)]
    have ch: "file_changed efs nd i d' V ?W" by (rule file_step_changed [OF shape i h(2) fs_invD(5) [OF inv u] refl])
    have same: "?W (usz b) = V' (usz b)" if "b \<in> set (file_blocks d' V')" for b
      using areas_apart(2) [OF shape i F(6) [OF that]] by simp
    have "file_bytes d' ?W = file_bytes d' V'" by (rule file_cong [OF F(1) same], assumption)
    moreover have "free_bits efs nd ?W = free_bits efs nd V'"
      by (rule free_bits_cong [OF shape]) (use areas_apart(1) [OF shape i] in auto)
    moreover have "length (put_ref disk_inode (inode_off i) d' (V' ?b)) = BLOCK_SZ"
      using dil.put_length [of d' "inode_off i" "V' ?b"] F(1) inode_off_fits(2) [of i] st_length [OF h(1) okb]
      by (simp add: file_ok_def inode_ok_def)
    ultimately show ?thesis using ch fs_update [OF inv u len ch] h(3) unfolding Let_def by (intro conjI exI [of _ d']) simp_all
  qed
  have "returns (modify_cached dev ?b disk_inode (inode_off i) f s) (\<lambda>(v, s'). \<exists>V'. st {} V' s' \<and>
      (\<exists>d'. fs_inv efs nd tot V' \<and> P v d' (file_bytes d' V') (free_bits efs nd V') \<and> fs_files efs V' = (fs_files efs V)(i \<mapsto> (type0 d', file_bytes d' V')) \<and>
       file_changed efs nd i d' V V'))"
  proof (rule modify_cached_rule [OF st okb _ _ inode_off_fits(1)])
    fix s1 assume "st (insert ?b {}) V s1"
    from closure [OF this] show "returns (f (get_ref disk_inode (inode_off i) (V ?b)) s1) (\<lambda>(v, x, s2). \<exists>V'. st (insert ?b {}) V' s2 \<and>
        length (put_ref disk_inode (inode_off i) x (V' ?b)) = BLOCK_SZ \<and>
        (\<exists>d'. fs_inv efs nd tot (V'(?b := put_ref disk_inode (inode_off i) x (V' ?b))) \<and>
          P v d' (file_bytes d' (V'(?b := put_ref disk_inode (inode_off i) x (V' ?b)))) (free_bits efs nd (V'(?b := put_ref disk_inode (inode_off i) x (V' ?b)))) \<and>
          fs_files efs (V'(?b := put_ref disk_inode (inode_off i) x (V' ?b))) = (fs_files efs V)(i \<mapsto> (type0 d', file_bytes d' (V'(?b := put_ref disk_inode (inode_off i) x (V' ?b))))) \<and>
          file_changed efs nd i d' V (V'(?b := put_ref disk_inode (inode_off i) x (V' ?b)))))"
      unfolding disk_inode_at_def [symmetric] by (rule returns_mono) (use fin in \<open>fastforce simp: Let_def\<close>)
  qed (simp_all add: BLOCK_CACHE_SIZE_def)
  then show ?thesis using H dev(1) by (auto simp: modify_disk_inode_def elim!: returns_mono)
qed

lemma vfs_write_ok:
  assumes st: "st {} V s" and inv: "fs_inv efs nd tot V" and entry: "fs_files efs V i = Some (ty, old)"
    and dev: "efs_device efs = dev" "\<And>b. unat b < tot \<Longrightarrow> ok b" and off: "unat off \<le> length old" and buf: "buf \<noteq> []"
    and fits: "unat off + length buf < 2 ^ 32" "nblocks (unat off + length buf) \<le> MAX_BLOCKS"
    and space: "unat (total_blocks (of_nat (unat off + length buf))) \<le> unat (total_blocks (of_nat (length old))) + card (free_bits efs nd V)"
  shows "returns (vfs_write_at (inode_handle efs i) off buf s) (\<lambda>(n, s'). n = length buf \<and> (\<exists>V'. st {} V' s' \<and> fs_inv efs nd tot V' \<and>
    fs_files efs V' = (fs_files efs V)(i \<mapsto> (ty, write_bytes old (unat off) buf)) \<and> (\<forall>b. ok b \<longrightarrow> blk (disk s') b = V' b) \<and>
    card (free_bits efs nd V') + unat (total_blocks (of_nat (length (write_bytes old (unat off) buf)))) =
      card (free_bits efs nd V) + unat (total_blocks (of_nat (length old)))))"
proof -
  have u: "used efs V i" and d: "ty = type0 (disk_inode_at efs V i)" "old = file_bytes (disk_inode_at efs V i) V"
    using entry by (auto simp: fs_files_def split: if_splits)
  have len: "length old = unat (di_size (disk_inode_at efs V i))" using d(2) by simp
  have pre: "unat off \<le> unat (di_size (disk_inode_at efs V i))"
    "unat (total_blocks (of_nat (unat off + length buf))) \<le> unat (total_blocks (di_size (disk_inode_at efs V i))) + card (free_bits efs nd V)"
    using off space len by simp_all
  have H: "i_device (inode_handle efs i) = dev" using dev(1) by (simp add: inode_handle_def inode_new_def)
  let ?space = "\<lambda>F. card F + unat (total_blocks (of_nat (length (write_bytes old (unat off) buf)))) = card (free_bits efs nd V) + unat (total_blocks (of_nat (length old)))"
  let ?f = "\<lambda>d s. bindr (vfs_increase_size (inode_handle efs i) (ucast (off + of_nat (length buf))) d s) (\<lambda>(d, s).
      bindr (di_write_at d off buf dev s) (\<lambda>(n, s). Ok (n, d, s)))"
  have "returns (modify_disk_inode (inode_handle efs i) ?f s) (\<lambda>(v, s'). \<exists>V' d'. st {} V' s' \<and> fs_inv efs nd tot V' \<and>
      (v = length buf \<and> type0 d' = ty \<and> file_bytes d' V' = write_bytes old (unat off) buf \<and> ?space (free_bits efs nd V')) \<and>
      fs_files efs V' = (fs_files efs V)(i \<mapsto> (type0 d', file_bytes d' V')) \<and> file_changed efs nd i d' V V')"
  proof (rule modify_inode_ok [OF st inv u dev, where P = "\<lambda>v d' bs F. v = length buf \<and> type0 d' = ty \<and> bs = write_bytes old (unat off) buf \<and> ?space F"])
    fix s1 assume s1: "st {inode_block_of efs i} V s1"
    show "returns (?f (disk_inode_at efs V i) s1) (\<lambda>(v, d', s2). \<exists>V'. st {inode_block_of efs i} V' s2 \<and>
        file_step efs nd (disk_inode_at efs V i) V d' V' \<and> v = length buf \<and> type0 d' = ty \<and> file_bytes d' V' = write_bytes old (unat off) buf \<and> ?space (free_bits efs nd V'))"
      using vfs_write_closure [OF s1 inv u dev pre(1) buf fits pre(2)] d len by (auto elim!: returns_mono)
  qed
  then obtain n s1 V' where run: "modify_disk_inode (inode_handle efs i) ?f s = Ok (n, s1)" and h: "st {} V' s1" "fs_inv efs nd tot V'" "n = length buf"
      "fs_files efs V' = (fs_files efs V)(i \<mapsto> (ty, write_bytes old (unat off) buf))" "?space (free_bits efs nd V')"
    by (auto simp: returns_def)
  then show ?thesis using sync_all_ok [OF h(1)] unfolding vfs_write_at_def H by (auto simp: returns_def)
qed

lemma vfs_read_ok:
  assumes st: "st {} V s" and inv: "fs_inv efs nd tot V" and entry: "fs_files efs V i = Some (ty, bytes)"
    and dev: "efs_device efs = dev" "\<And>b. unat b < tot \<Longrightarrow> ok b" and buf: "unat off + length buf < 2 ^ 64"
  shows "returns (vfs_read_at (inode_handle efs i) off buf s) (\<lambda>((n, buf'), s').
    let data = take (length buf) (drop (unat off) bytes) in n = length data \<and> buf' = overwrite buf 0 data \<and> st {} V s')"
proof -
  have u: "used efs V i" and d: "bytes = file_bytes (disk_inode_at efs V i) V" and i: "i < inodes efs"
    using entry by (auto simp: fs_files_def used_def split: if_splits)
  note shape = fs_invD(1) [OF inv]
  let ?b = "inode_block_of efs i" and ?data = "take (length buf) (drop (unat off) bytes)"
  note H = inode_handle_fields [OF shape i]
  have okb: "ok ?b" by (rule dev(2)) (use shapeD(3) [OF shape i] shape in \<open>simp add: fs_shape_def\<close>)
  have "returns (read_cached dev ?b disk_inode (inode_off i)
       (\<lambda>d s. bindr (di_read_at d off buf dev s) (\<lambda>(n, buf, s). Ok ((n, buf), s))) s)
     (\<lambda>(v, s'). \<exists>V'. st {} V' s' \<and> (v = (length ?data, overwrite buf 0 ?data) \<and> V' = V))"
  proof (rule read_cached_rule [OF st okb _ _ inode_off_fits(1)])
    fix s1 assume s1: "st (insert ?b {}) V s1"
    have "returns (di_read_at (disk_inode_at efs V i) off buf dev s1) (\<lambda>(m, buf', s').
        let data = take (length buf) (drop (unat off) (file_bytes (disk_inode_at efs V i) V)) in
        m = length data \<and> buf' = overwrite buf 0 data \<and> st {?b} V s')"
    proof (rule di_read_at_ok [OF s1])
      show "file_ok ok (disk_inode_at efs V i) V"
        by (rule file_ok_mono [OF fs_invD(2) [OF inv u]]) (use fs_invD(5) [OF inv u] shapeD(5) [OF shape] dev(2) in blast)
      show "usz b \<notin> insert ?b {}" if "b \<in> set (file_blocks (disk_inode_at efs V i) V)" for b
        using areas_apart(2) [OF shape i fs_invD(5) [OF inv u that]] by auto
    qed (use buf in \<open>simp_all add: BLOCK_CACHE_SIZE_def\<close>)
    then show "returns (bindr (di_read_at (get_ref disk_inode (inode_off i) (V ?b)) off buf dev s1) (\<lambda>(n, buf, s). Ok ((n, buf), s)))
        (\<lambda>(v, s2). \<exists>V'. st (insert ?b {}) V' s2 \<and> v = (length ?data, overwrite buf 0 ?data) \<and> V' = V)"
      unfolding disk_inode_at_def [symmetric] d [symmetric] by (auto simp: Let_def elim!: returns_mono)
  qed (simp_all add: BLOCK_CACHE_SIZE_def)
  then show ?thesis using H dev(1) by (auto simp: vfs_read_at_def read_disk_inode_def Let_def elim!: returns_mono)
qed

end

section \<open>Clearing a file\<close>

text \<open>\<open>V'\<close> is \<open>V\<close> with the blocks \<open>bs\<close> given back, zeroed.\<close>

definition freed :: "'w EasyFileSystem \<Rightarrow> nat \<Rightarrow> u32 list \<Rightarrow> (usize \<Rightarrow> u8 list) \<Rightarrow> (usize \<Rightarrow> u8 list) \<Rightarrow> bool" where
  "freed efs nd bs V V' \<longleftrightarrow>
     (\<forall>b. in_data efs nd (usz b) \<longrightarrow> (taken efs V' b \<longleftrightarrow> taken efs V b \<and> b \<notin> set bs)) \<and>
     (\<forall>c. c \<notin> dbm_blocks efs \<longrightarrow> V' c = (if c \<in> usz ` set bs then replicate BLOCK_SZ 0 else V c))"

lemma freed_one:
  assumes shape: "fs_shape efs nd tot" and ok: "bm_ok ok (data_bitmap efs)" and b: "in_data efs nd (usz b)"
  shows "freed efs nd [b] V (bm_put (data_bitmap efs) (unat b - da_start efs) False (V(usz b := replicate BLOCK_SZ 0)))"
proof -
  let ?p = "unat b - da_start efs" and ?V = "V(usz b := replicate BLOCK_SZ 0)"
  note bit = in_data_bit [OF shape]
  have "taken efs (bm_put (data_bitmap efs) ?p False ?V) c \<longleftrightarrow> taken efs V c \<and> c \<noteq> b" if c: "in_data efs nd (usz c)" for c
  proof -
    have "taken efs ?V c = taken efs V c"
      by (rule taken_cong [OF _ bit [OF c]]) (use areas_apart(3) [OF shape b] in auto)
    moreover have "unat c - da_start efs = ?p \<longleftrightarrow> c = b" using b c by (auto simp: in_data_def word_unat_eq_iff)
    ultimately show ?thesis using bm_bit_put [OF ok bit [OF b] bit [OF c], of False ?V] by (simp add: taken_def)
  qed
  moreover have "bm_block (data_bitmap efs) ?p \<in> dbm_blocks efs" using bit [OF b] by (auto simp: dbm_blocks_def)
  then have "bm_put (data_bitmap efs) ?p False ?V c = ?V c" if "c \<notin> dbm_blocks efs" for c using that by (intro bm_put_other) auto
  ultimately show ?thesis by (auto simp: freed_def)
qed

lemma freed_append:
  assumes "freed efs nd xs V V1" and "freed efs nd ys V1 V2"
  shows "freed efs nd (xs @ ys) V V2"
  using assms unfolding freed_def by (auto simp: image_Un)

lemma cleared_file:
  assumes "file_ok ok d V"
  shows "file_ok A (cleared d n) V'" and "file_blocks (cleared d n) V' = []" and "file_bytes (cleared d n) V' = []" and "type0 (cleared d n) = type0 d"
proof -
  have "length (direct d) = 28" using assms by (simp add: file_ok_def inode_ok_def)
  moreover have "nblocks 0 = 0" by (simp add: nblocks_def BLOCK_SZ_def)
  ultimately show "file_ok A (cleared d n) V'" "file_blocks (cleared d n) V' = []" "file_bytes (cleared d n) V' = []" "type0 (cleared d n) = type0 d"
    by (simp_all add: cleared_def file_ok_def inode_ok_def file_blocks_def inode_blocks_def index_blocks_def file_bytes_def)
qed

lemma file_step_cleared:
  assumes ok: "file_ok (in_data efs nd) d V" and f: "freed efs nd (alloc_order d V) V V'"
  shows "file_step efs nd d V (cleared d n) V'"
proof (rule file_stepI; (unfold cleared_file(2) [OF ok])?)
  note b = alloc_order_blocks(1) [OF ok]
  show "file_ok (in_data efs nd) (cleared d n) V'" by (rule cleared_file(1) [OF ok])
  show "V' c = V c" if "c \<notin> dbm_blocks efs" "c \<notin> usz ` (set (file_blocks d V) \<union> set [])" for c
    using f that b by (auto simp: freed_def)
  show "taken efs V' b" if "in_data efs nd (usz b)" "taken efs V b" "b \<notin> set (file_blocks d V)" for b
    using f that b by (auto simp: freed_def)
qed simp_all

context device_contract
begin

lemma clear_block_ok:
  assumes "st L V s" and "ok b" and "b \<notin> L" and "card L < BLOCK_CACHE_SIZE"
  shows "returns (clear_block dev b s) (\<lambda>s'. st L (V(b := replicate BLOCK_SZ 0)) s')"
  using modify_cached_pure [OF assms, of 0 data_block "\<lambda>blk s. Ok ((), map (\<lambda>_. 0) blk, s)" "()" "map (\<lambda>_. 0) (V b)"]
    st_length [OF assms(1,2)]
  by (auto simp: clear_block_def map_replicate_const elim!: returns_mono)

lemma dealloc_data_ok:
  assumes st: "st L V s" and L: "card L < BLOCK_CACHE_SIZE" "dbm_blocks efs \<inter> L = {}" "usz b \<notin> L" and shape: "fs_shape efs nd tot"
    and dev: "efs_device efs = dev" "\<And>b. unat b < tot \<Longrightarrow> ok b" and b: "in_data efs nd (usz b)" "taken efs V b"
  shows "returns (dealloc_data efs b s) (\<lambda>s'. \<exists>V'. st L V' s' \<and> freed efs nd [b] V V')"
proof -
  note ok = bm_ok_areas(1) [OF shape dev(2)] and bit = in_data_bit [OF shape b(1)]
  have okb: "ok (usz b)" using shapeD(5) [OF shape b(1)] dev(2) by blast
  let ?V = "V(usz b := replicate BLOCK_SZ 0)" and ?p = "usz (b - data_area_start_block efs)"
  have p: "unat ?p = unat b - da_start efs" using b(1) by (simp add: in_data_def unat_sub word_le_nat_alt)
  obtain s1 where s1: "clear_block dev (usz b) s = Ok s1" "st L ?V s1"
    using clear_block_ok [OF st okb L(3,1)] by (auto simp: returns_def)
  have "taken efs ?V b = taken efs V b" by (rule taken_cong [OF _ bit]) (use areas_apart(3) [OF shape b(1)] in auto)
  then have "taken efs ?V b" using b(2) by simp
  then have "returns (bitmap_dealloc (data_bitmap efs) dev ?p s1) (\<lambda>s'. st L (bm_put (data_bitmap efs) (unat ?p) False ?V) s')"
    using bit p L by (intro bitmap_dealloc_ok(1) [OF s1(2) ok]) (auto simp: dbm_blocks_def disjoint_iff taken_def)
  then show ?thesis using s1(1) freed_one [where V = V, OF shape ok b(1)] p dev(1) by (auto simp: dealloc_data_def elim!: returns_mono)
qed

lemma dealloc_blocks_ok:
  assumes "st L V s" and L: "card L < BLOCK_CACHE_SIZE" "dbm_blocks efs \<inter> L = {}" "\<And>b. in_data efs nd b \<Longrightarrow> b \<notin> L" and shape: "fs_shape efs nd tot"
    and dev: "efs_device efs = dev" "\<And>b. unat b < tot \<Longrightarrow> ok b" and "distinct bs" and "\<And>b. b \<in> set bs \<Longrightarrow> in_data efs nd (usz b) \<and> taken efs V b"
  shows "returns (for_each (dealloc_data efs) bs s) (\<lambda>s'. \<exists>V'. st L V' s' \<and> freed efs nd bs V V')"
  using assms(1,8,9)
proof (induction bs arbitrary: V s)
  case Nil
  then show ?case by (auto simp: freed_def)
next
  case (Cons b bs)
  have b: "in_data efs nd (usz b)" "taken efs V b" using Cons.prems(3) by simp_all
  obtain s1 V1 where s1: "dealloc_data efs b s = Ok s1" "st L V1 s1" "freed efs nd [b] V V1"
    using dealloc_data_ok [OF Cons.prems(1) L(1,2) L(3) [OF b(1)] shape dev b] by (auto simp: returns_def)
  have "in_data efs nd (usz c) \<and> taken efs V1 c" if "c \<in> set bs" for c
    using Cons.prems(2,3) that s1(3) by (auto simp: freed_def)
  from Cons.IH [OF s1(2) _ this] Cons.prems(2) show ?case
    using s1(1) freed_append [OF s1(3)] by (fastforce simp: returns_def)
qed

end

lemma freed_free_bits:
  assumes shape: "fs_shape efs nd tot" and f: "freed efs nd bs V V'" and bs: "distinct bs"
    "\<And>b. b \<in> set bs \<Longrightarrow> in_data efs nd (usz b) \<and> taken efs V b"
  shows "card (free_bits efs nd V') = card (free_bits efs nd V) + length bs"
proof -
  let ?bit = "\<lambda>b. unat b - da_start efs"
  have "free_bits efs nd V' = free_bits efs nd V \<union> ?bit ` set bs"
  proof (rule set_eqI)
    fix p
    show "p \<in> free_bits efs nd V' \<longleftrightarrow> p \<in> free_bits efs nd V \<union> ?bit ` set bs"
    proof (cases "p < nd")
      case True
      define b :: u32 where "b = of_nat (da_start efs + p)"
      have u: "unat b = da_start efs + p" unfolding b_def by (rule unat_of_nat_small) (use True shape in \<open>simp add: fs_shape_def\<close>)
      then have d: "in_data efs nd (usz b)" "?bit b = p" using True by (simp_all add: in_data_def)
      have "c = b" if "c \<in> set bs" "p = ?bit c" for c using bs(2) [OF that(1)] that(2) u by (simp add: in_data_def word_unat_eq_iff)
      then have "p \<in> ?bit ` set bs \<longleftrightarrow> b \<in> set bs" using d(2) by blast
      then show ?thesis using f d True by (auto simp: freed_def free_bits_def taken_def)
    next
      case False
      then show ?thesis using bs(2) by (force simp: free_bits_def in_data_def)
    qed
  qed
  moreover have "free_bits efs nd V \<inter> ?bit ` set bs = {}" using bs(2) by (auto simp: free_bits_def taken_def)
  moreover have "inj_on ?bit (set bs)"
  proof (rule inj_onI)
    fix x y assume "x \<in> set bs" "y \<in> set bs" "?bit x = ?bit y"
    then show "x = y" using bs(2) [of x] bs(2) [of y] by (auto simp: in_data_def word_unat_eq_iff)
  qed
  moreover have "finite (free_bits efs nd V)" by (simp add: free_bits_def)
  ultimately show ?thesis using bs(1) by (simp add: card_Un_disjoint card_image distinct_card)
qed

context device_contract
begin

lemma vfs_clear_closure:
  assumes st: "st {inode_block_of efs i} V s" and inv: "fs_inv efs nd tot V" and u: "used efs V i"
    and dev: "efs_device efs = dev" "\<And>b. unat b < tot \<Longrightarrow> ok b"
  shows "returns (bindr (clear_size dev (disk_inode_at efs V i) s) (\<lambda>(v, d', s).
      bindr (assertr (length v = unat (total_blocks (di_size (disk_inode_at efs V i))))) (\<lambda>_.
      bindr (for_each (dealloc_data efs) v s) (\<lambda>s. Ok ((), d', s)))))
    (\<lambda>(_, d', s'). \<exists>V'. st {inode_block_of efs i} V' s' \<and> file_step efs nd (disk_inode_at efs V i) V d' V' \<and>
      type0 d' = type0 (disk_inode_at efs V i) \<and> file_bytes d' V' = [] \<and>
      card (free_bits efs nd V') = card (free_bits efs nd V) + unat (total_blocks (di_size (disk_inode_at efs V i))))"
proof -
  let ?L = "{inode_block_of efs i}" and ?d = "disk_inode_at efs V i"
  note shape = fs_invD(1) [OF inv]
  have i: "i < inodes efs" using u by (simp add: used_def)
  note S = areas_apart [OF shape] and d = fs_invD(2) [OF inv u]
  have L: "card ?L + 1 < BLOCK_CACHE_SIZE" "card ?L < BLOCK_CACHE_SIZE" "dbm_blocks efs \<inter> ?L = {}" "\<And>b. in_data efs nd b \<Longrightarrow> b \<notin> ?L"
    using S(1) [OF i] S(2) [OF i] by (auto simp: BLOCK_CACHE_SIZE_def)
  have dok: "file_ok ok ?d V" by (rule file_ok_mono [OF d]) (use fs_invD(5) [OF inv u] shapeD(5) [OF shape] dev(2) in blast)
  obtain s1 where s1: "clear_size dev ?d s = Ok (alloc_order ?d V, cleared ?d (nblocks (unat (di_size ?d))), s1)" "st ?L V s1"
    using clear_file_ok [OF st L(1) dok] L(4) fs_invD(5) [OF inv u] by (auto simp: returns_def)
  note B = alloc_order_blocks [OF d]
  have mem: "in_data efs nd (usz b) \<and> taken efs V b" if "b \<in> set (alloc_order ?d V)" for b
    using that fs_invD(3,5) [OF inv u] B(1) by blast
  obtain s2 V2 where s2: "for_each (dealloc_data efs) (alloc_order ?d V) s1 = Ok s2" "st ?L V2 s2" "freed efs nd (alloc_order ?d V) V V2"
    using dealloc_blocks_ok [OF s1(2) L(2,3,4) shape dev B(2) mem] by (auto simp: returns_def)
  show ?thesis
    using s1(1) s2 B(3) file_step_cleared [OF d s2(3)] cleared_file(3,4) [OF d] freed_free_bits [OF shape s2(3) B(2) mem] by auto
qed

lemma vfs_clear_ok:
  assumes st: "st {} V s" and inv: "fs_inv efs nd tot V" and entry: "fs_files efs V i = Some (ty, old)"
    and dev: "efs_device efs = dev" "\<And>b. unat b < tot \<Longrightarrow> ok b"
  shows "returns (vfs_clear (inode_handle efs i) s) (\<lambda>s'. \<exists>V'. st {} V' s' \<and> fs_inv efs nd tot V' \<and>
    fs_files efs V' = (fs_files efs V)(i \<mapsto> (ty, [])) \<and> (\<forall>b. ok b \<longrightarrow> blk (disk s') b = V' b) \<and>
    card (free_bits efs nd V') = card (free_bits efs nd V) + unat (total_blocks (of_nat (length old))))"
proof -
  have u: "used efs V i" and d: "ty = type0 (disk_inode_at efs V i)" "old = file_bytes (disk_inode_at efs V i) V"
    using entry by (auto simp: fs_files_def split: if_splits)
  have len: "of_nat (length old) = di_size (disk_inode_at efs V i)" using d(2) by simp
  let ?f = "\<lambda>d s. bindr (clear_size dev d s) (\<lambda>(v, d', s).
      bindr (assertr (length v = unat (total_blocks (di_size d)))) (\<lambda>_. bindr (for_each (dealloc_data efs) v s) (\<lambda>s. Ok ((), d', s))))"
  let ?space = "\<lambda>F. card F = card (free_bits efs nd V) + unat (total_blocks (of_nat (length old)))"
  have H: "i_device (inode_handle efs i) = dev" "i_fs (inode_handle efs i) = efs" using dev(1) by (simp_all add: inode_handle_def inode_new_def)
  have "returns (modify_disk_inode (inode_handle efs i) ?f s) (\<lambda>(v, s'). \<exists>V' d'. st {} V' s' \<and> fs_inv efs nd tot V' \<and>
      (type0 d' = ty \<and> file_bytes d' V' = [] \<and> ?space (free_bits efs nd V')) \<and>
      fs_files efs V' = (fs_files efs V)(i \<mapsto> (type0 d', file_bytes d' V')) \<and> file_changed efs nd i d' V V')"
  proof (rule modify_inode_ok [OF st inv u dev, where P = "\<lambda>_ d' bs F. type0 d' = ty \<and> bs = [] \<and> ?space F"])
    fix s1 assume s1: "st {inode_block_of efs i} V s1"
    show "returns (?f (disk_inode_at efs V i) s1) (\<lambda>(v, d', s2). \<exists>V'. st {inode_block_of efs i} V' s2 \<and>
        file_step efs nd (disk_inode_at efs V i) V d' V' \<and> type0 d' = ty \<and> file_bytes d' V' = [] \<and> ?space (free_bits efs nd V'))"
      using vfs_clear_closure [OF s1 inv u dev] d(1) len by (auto elim!: returns_mono)
  qed
  then obtain s1 V' where run: "modify_disk_inode (inode_handle efs i) ?f s = Ok ((), s1)" and h: "st {} V' s1" "fs_inv efs nd tot V'"
      "fs_files efs V' = (fs_files efs V)(i \<mapsto> (ty, []))" "?space (free_bits efs nd V')"
    by (auto simp: returns_def)
  then show ?thesis using sync_all_ok [OF h(1)] unfolding vfs_clear_def H by (auto simp: returns_def)
qed

end

end
