(* ===== verification/FsMake.thy ===== *)
theory FsMake
  imports FsOps
begin

text \<open>
  Making files and file systems (\<open>create\<close>, \<open>open\<close> and \<open>alloc_inode\<close> of \<open>src/easy-fs/src/efs.rs\<close>). Taking a free
  inode and initialising it adds an empty file; formatting a device gives a file system with an empty
  root directory, and opening it again finds the same areas.
\<close>

section \<open>A new file\<close>

definition empty_inode :: "DiskInode \<Rightarrow> bool" where
  "empty_inode d \<longleftrightarrow> di_size d = 0 \<and> length (direct d) = 28"

lemma empty_inode_file:
  assumes "empty_inode d"
  shows "file_ok A d V" and "file_blocks d V = []" and "file_bytes d V = []"
  using assms by (simp_all add: empty_inode_def file_ok_def inode_ok_def file_blocks_def inode_blocks_def index_blocks_def
      file_bytes_def nblocks_def BLOCK_SZ_def)

text \<open>\<open>V'\<close> is \<open>V\<close> with inode \<open>i\<close>, which was free, taken and holding \<open>d\<close>.\<close>

definition inode_added :: "'w EasyFileSystem \<Rightarrow> nat \<Rightarrow> DiskInode \<Rightarrow> (usize \<Rightarrow> u8 list) \<Rightarrow> (usize \<Rightarrow> u8 list) \<Rightarrow> bool" where
  "inode_added efs i d V V' \<longleftrightarrow> i < inodes efs \<and> \<not> bm_bit (inode_bitmap efs) V i \<and>
     V' = (bm_put (inode_bitmap efs) i True V)
       (inode_block_of efs i := put_ref disk_inode (inode_off i) d (V (inode_block_of efs i)))"

lemma inode_added_views:
  assumes shape: "fs_shape efs nd tot" and ok: "bm_ok ok (inode_bitmap efs)" and len: "length (V (inode_block_of efs i)) = BLOCK_SZ"
    and a: "inode_added efs i d V V'" and d: "length (direct d) = 28"
  shows "used efs V' j \<longleftrightarrow> used efs V j \<or> j = i"
    and "j < inodes efs \<Longrightarrow> disk_inode_at efs V' j = (if j = i then d else disk_inode_at efs V j)"
    and "c \<noteq> inode_block_of efs i \<Longrightarrow> (\<And>p. p < inodes efs \<Longrightarrow> c \<noteq> bm_block (inode_bitmap efs) p) \<Longrightarrow> V' c = V c"
proof -
  note S = areas_apart [OF shape]
  have i: "i < inodes efs" and V': "V' = (bm_put (inode_bitmap efs) i True V)
       (inode_block_of efs i := put_ref disk_inode (inode_off i) d (V (inode_block_of efs i)))"
    using a by (simp_all add: inode_added_def)
  have bit: "bm_bit (inode_bitmap efs) V' p \<longleftrightarrow> p = i \<or> bm_bit (inode_bitmap efs) V p" if p: "p < inodes efs" for p
  proof -
    have "V' (bm_block (inode_bitmap efs) p) = bm_put (inode_bitmap efs) i True V (bm_block (inode_bitmap efs) p)"
      using S(5) [OF p i] by (simp add: V')
    then have "bm_bit (inode_bitmap efs) V' p = bm_bit (inode_bitmap efs) (bm_put (inode_bitmap efs) i True V) p" by (simp add: bm_bit_def)
    then show ?thesis using bm_bit_put [OF ok i p, of True V] by auto
  qed
  then show "used efs V' j \<longleftrightarrow> used efs V j \<or> j = i" using i by (auto simp: used_def)
  show oth: "V' c = V c" if "c \<noteq> inode_block_of efs i" "\<And>p. p < inodes efs \<Longrightarrow> c \<noteq> bm_block (inode_bitmap efs) p" for c
    using that(1) bm_put_other [of c "inode_bitmap efs" i True V] that(2) [OF i] by (simp add: V')
  show "disk_inode_at efs V' j = (if j = i then d else disk_inode_at efs V j)" if j: "j < inodes efs"
  proof (cases "inode_block_of efs j = inode_block_of efs i")
    case True
    have "j = i \<longleftrightarrow> j mod 4 = i mod 4" using True S(7) [OF j i] by (metis div_mult_mod_eq)
    then show ?thesis
      using slot_get_put(2) [OF len _ _ d, of "i mod 4" "j mod 4"] True
      by (simp add: V' disk_inode_at_def inode_off_def del: of_nat_mult)
  next
    case False
    have "bm_block (inode_bitmap efs) p \<noteq> inode_block_of efs j" if "p < inodes efs" for p by (rule S(5) [OF that j])
    then have "V' (inode_block_of efs j) = V (inode_block_of efs j)" using oth [OF False] by metis
    then show ?thesis using False by (auto simp: disk_inode_at_def)
  qed
qed

lemma fs_add:
  assumes inv: "fs_inv efs nd tot V" and ok: "bm_ok ok (inode_bitmap efs)" and len: "length (V (inode_block_of efs i)) = BLOCK_SZ"
    and a: "inode_added efs i d V V'" and d: "empty_inode d"
  shows "fs_inv efs nd tot V'" and "fs_files efs V' = (fs_files efs V)(i \<mapsto> (type0 d, []))" and "free_bits efs nd V' = free_bits efs nd V"
proof -
  note shape = fs_invD(1) [OF inv]
  note S = areas_apart [OF shape]
  have d28: "length (direct d) = 28" using d by (simp add: empty_inode_def)
  note A = inode_added_views [OF shape ok len a d28]
  have i: "i < inodes efs" and new: "\<not> used efs V i" using a by (simp_all add: inode_added_def used_def)
  have dat: "V' (usz b) = V (usz b)" if "in_data efs nd (usz b)" for b
    by (rule A(3)) (use S(2) [OF i that] S(6) [OF _ that] in fastforce)+
  have dbm: "V' c = V c" if "c \<in> dbm_blocks efs" for c
    by (rule A(3)) (use S(1) [OF i] S(4) that in blast)+
  show "free_bits efs nd V' = free_bits efs nd V" by (rule free_bits_cong [OF shape dbm])
  have di: "disk_inode_at efs V' i = d" using A(2) [OF i] by simp
  have oth: "disk_inode_at efs V' j = disk_inode_at efs V j" "file_ok (in_data efs nd) (disk_inode_at efs V j) V'"
      "file_blocks (disk_inode_at efs V j) V' = file_blocks (disk_inode_at efs V j) V"
      "file_bytes (disk_inode_at efs V j) V' = file_bytes (disk_inode_at efs V j) V" if j: "used efs V j" for j
  proof -
    have "j \<noteq> i" "j < inodes efs" using j new by (auto simp: used_def)
    then show "disk_inode_at efs V' j = disk_inode_at efs V j" using A(2) by simp
    have same: "V' (usz b) = V (usz b)" if "b \<in> blocks_at efs V j" for b by (rule dat [OF fs_invD(5) [OF inv j that]])
    show "file_ok (in_data efs nd) (disk_inode_at efs V j) V'" "file_blocks (disk_inode_at efs V j) V' = file_blocks (disk_inode_at efs V j) V"
      "file_bytes (disk_inode_at efs V j) V' = file_bytes (disk_inode_at efs V j) V"
      by (rule file_cong [OF fs_invD(2) [OF inv j] same], assumption)+
  qed
  have tk: "taken efs V' b = taken efs V b" if "in_data efs nd (usz b)" for b
    by (rule taken_cong [OF dbm in_data_bit [OF shape that]])
  have one: "file_ok (in_data efs nd) (disk_inode_at efs V' j) V' \<and> (\<forall>b \<in> blocks_at efs V' j. taken efs V' b)" if "used efs V j \<or> j = i" for j
  proof (cases "j = i")
    case True
    then show ?thesis using di empty_inode_file [OF d] by simp
  next
    case False
    then have j: "used efs V j" using that by simp
    show ?thesis unfolding oth(1) [OF j] oth(3) [OF j] using oth(2) [OF j] tk fs_invD(3,5) [OF inv j] by blast
  qed
  have two: "blocks_at efs V' j \<inter> blocks_at efs V' k = {}" if "used efs V j \<or> j = i" "used efs V k \<or> k = i" "j \<noteq> k" for j k
  proof (cases "j = i \<or> k = i")
    case True
    then show ?thesis using di empty_inode_file(2) [OF d] by auto
  next
    case False
    then have jk: "used efs V j" "used efs V k" using that by auto
    show ?thesis unfolding oth(1) [OF jk(1)] oth(3) [OF jk(1)] oth(1) [OF jk(2)] oth(3) [OF jk(2)]
      using fs_invD(4) [OF inv jk that(3)] by blast
  qed
  show "fs_inv efs nd tot V'" unfolding fs_inv_def A(1) using shape one two by blast
  show "fs_files efs V' = (fs_files efs V)(i \<mapsto> (type0 d, []))"
  proof
    fix j show "fs_files efs V' j = ((fs_files efs V)(i \<mapsto> (type0 d, []))) j"
    proof (cases "j = i")
      case True
      then show ?thesis using di empty_inode_file(3) [OF d] by (simp add: fs_files_def A(1))
    next
      case False
      then show ?thesis using oth(1,4) [of j] by (simp add: fs_files_def A(1))
    qed
  qed
qed

end
