(* ===== verification/Pid.thy ===== *)
theory Pid
  imports IdAllocator MemorySet
begin

text \<open>
  \<open>src/os/src/task/pid.rs\<close>: process identifiers and the kernel stacks that go with them. The
  allocator keeps the contract of \<open>IdAllocator\<close>, so two live handles never carry the same pid; the
  kernel stacks of two pids lie apart, with an unmapped page between neighbours.
\<close>

section \<open>The allocator\<close>

record PidAllocator =
  pid_current :: usize
  pid_recycled :: "usize list"

datatype PidHandle = PidHandle (pid_val: usize)

definition pa_new :: PidAllocator where
  "pa_new = \<lparr>pid_current = 0, pid_recycled = []\<rparr>"

definition pid_alloc :: "PidAllocator \<Rightarrow> PidHandle \<times> PidAllocator" where
  "pid_alloc pa =
     (if pid_recycled pa \<noteq> [] then
        (PidHandle (last (pid_recycled pa)), pa\<lparr>pid_recycled := butlast (pid_recycled pa)\<rparr>)
      else (PidHandle (pid_current pa + 1 - 1), pa\<lparr>pid_current := pid_current pa + 1\<rparr>))"

definition pid_dealloc :: "PidAllocator \<Rightarrow> usize \<Rightarrow> PidAllocator res" where
  "pid_dealloc pa pid =
     bindr (assertr (pid < pid_current pa)) (\<lambda>_.
     bindr (assertr (\<not> (\<exists>ppid \<in> set (pid_recycled pa). ppid = pid))) (\<lambda>_.
       Ok (pa\<lparr>pid_recycled := pid_recycled pa @ [pid]\<rparr>)))"

text \<open>\<open>Drop for PidHandle\<close>\<close>

definition drop_pid :: "PidHandle \<Rightarrow> PidAllocator \<Rightarrow> PidAllocator res" where
  "drop_pid h pa = pid_dealloc pa (pid_val h)"

section \<open>Kernel stacks\<close>

definition kernel_stack_position :: "usize \<Rightarrow> usize \<times> usize" where
  "kernel_stack_position app_id =
     (let stack_top = TRAMPOLINE - app_id * (KERNEL_STACK_SIZE + PAGE_SIZE); stack_bottom = stack_top - KERNEL_STACK_SIZE in
      (stack_bottom, stack_top))"

datatype KernelStack = KernelStack (ks_pid: usize)

text \<open>The answer of \<open>insert_framed_area\<close> is ignored.\<close>

definition ks_new :: "PidHandle \<Rightarrow> MemorySet \<Rightarrow> mm \<Rightarrow> (KernelStack \<times> MemorySet \<times> mm) res" where
  "ks_new h kernel_space k =
     (case kernel_stack_position (pid_val h) of (kernel_stack_bottom, kernel_stack_top) \<Rightarrow>
      bindr (insert_framed_area (VirtAddr kernel_stack_bottom) (VirtAddr kernel_stack_top) (MP_R OR MP_W) kernel_space k)
        (\<lambda>(_, kernel_space, k). Ok (KernelStack (pid_val h), kernel_space, k)))"

definition ks_get_top :: "KernelStack \<Rightarrow> usize" where
  "ks_get_top ks = snd (kernel_stack_position (ks_pid ks))"

text \<open>\<open>Drop for KernelStack\<close>\<close>

definition drop_ks :: "KernelStack \<Rightarrow> MemorySet \<Rightarrow> mm \<Rightarrow> (MemorySet \<times> mm) res" where
  "drop_ks ks kernel_space k =
     bindr (vpn_from_va (VirtAddr (fst (kernel_stack_position (ks_pid ks))))) (\<lambda>vpn.
       remove_area_with_start_vpn vpn kernel_space k)"

section \<open>The allocator keeps its contract\<close>

definition pid_inv :: "PidAllocator \<Rightarrow> bool" where
  "pid_inv pa \<longleftrightarrow> distinct (pid_recycled pa) \<and> (\<forall>p \<in> set (pid_recycled pa). p < pid_current pa)"

definition pid_live :: "PidAllocator \<Rightarrow> usize set" where
  "pid_live pa = {p. p < pid_current pa \<and> p \<notin> set (pid_recycled pa)}"

text \<open>The counter is not about to wrap around.\<close>

definition pid_room :: "PidAllocator \<Rightarrow> bool" where
  "pid_room pa \<longleftrightarrow> pid_recycled pa \<noteq> [] \<or> pid_current pa \<noteq> - 1"

definition pid_alloc_opt :: "PidAllocator \<Rightarrow> usize option \<times> PidAllocator" where
  "pid_alloc_opt pa = (case pid_alloc pa of (h, pa) \<Rightarrow> (Some (pid_val h), pa))"

lemma pid_alloc_contract:
  assumes "pid_inv pa" and "pid_room pa" and "pid_alloc pa = (h, pa')"
  shows "pid_val h \<notin> pid_live pa \<and> pid_live pa' = insert (pid_val h) (pid_live pa) \<and> pid_inv pa'"
proof (cases "pid_recycled pa = []")
  case True
  have c: "pid_current pa < - 1"
    using assms(2) True by (simp add: pid_room_def word_order.not_eq_extremum)
  have h: "pid_val h = pid_current pa" "pa' = pa\<lparr>pid_current := pid_current pa + 1\<rparr>"
    using assms(3) True by (auto simp: pid_alloc_def)
  show ?thesis
    unfolding h using True c by (auto simp: pid_live_def pid_inv_def bump_less_iff)
next
  case False
  have h: "pid_val h = last (pid_recycled pa)" "pa' = pa\<lparr>pid_recycled := butlast (pid_recycled pa)\<rparr>"
    using assms(3) False by (auto simp: pid_alloc_def)
  note l = distinct_butlast_last [OF False]
  have d: "distinct (pid_recycled pa)" using assms(1) by (simp add: pid_inv_def)
  have "last (pid_recycled pa) < pid_current pa" using assms(1) False by (simp add: pid_inv_def)
  then show ?thesis
    unfolding h using l(1) [OF d] l(3) [OF d] l(2) [OF d] assms(1)
    by (auto simp: pid_live_def pid_inv_def)
qed

lemma pid_dealloc_contract:
  assumes "pid_inv pa"
  shows "pid_dealloc pa i = (if i \<in> pid_live pa then Ok (pa\<lparr>pid_recycled := pid_recycled pa @ [i]\<rparr>) else Panic AssertFailed)"
  by (auto simp: pid_dealloc_def pid_live_def assertr_def)

interpretation pid: id_allocator pid_alloc_opt pid_dealloc pid_live pid_inv pid_room
proof (unfold_locales, goal_cases)
  case (5 s i)
  then show ?case by (auto simp: pid_dealloc_contract pid_inv_def pid_live_def)
qed (use pid_alloc_contract in \<open>fastforce simp: pid_alloc_opt_def pid_dealloc_contract split: prod.splits\<close>)+

text \<open>C22: whatever the order in which processes are created and dropped, two live handles never carry
  the same pid, and dropping a live handle never panics.\<close>

theorem pids_never_shared:
  assumes "client_run pid_alloc_opt pid_dealloc pid_room (pa_new, []) (pa, H)"
  shows "distinct H \<and> (\<forall>i. i \<in> set H \<longrightarrow> (\<exists>pa'. pid_dealloc pa i = Ok pa'))"
proof -
  have "pid_inv pa_new" by (simp add: pid_inv_def pa_new_def)
  then show ?thesis using pid.client_handles_distinct [OF assms] pid.client_drop_ok [OF assms] by blast
qed

text \<open>Two processes are created, the first is dropped, a third gets its pid.\<close>

theorem pids_never_shared_witness:
  "\<exists>pa. client_run pid_alloc_opt pid_dealloc pid_room (pa_new, []) (pa, [0, 1]) \<and> distinct [0 :: usize, 1]"
proof -
  note defs = pid_alloc_opt_def pid_alloc_def pid_dealloc_def pid_room_def pa_new_def
  let ?run = "client_run pid_alloc_opt pid_dealloc pid_room"
  have "?run (pa_new, []) (\<lparr>pid_current = 1, pid_recycled = []\<rparr>, [0])"
    by (rule run_step [OF run_refl], rule step_alloc) (simp_all add: defs)
  then have "?run (pa_new, []) (\<lparr>pid_current = 2, pid_recycled = []\<rparr>, [1, 0])"
    by (rule run_step, intro step_alloc) (simp_all add: defs)
  then have "?run (pa_new, []) (\<lparr>pid_current = 2, pid_recycled = [0]\<rparr>, remove1 0 [1, 0])"
    by (rule run_step, intro step_drop) (simp_all add: defs)
  then have "?run (pa_new, []) (\<lparr>pid_current = 2, pid_recycled = []\<rparr>, 0 # remove1 0 [1, 0])"
    by (rule run_step, intro step_alloc) (simp_all add: defs)
  then have r: "?run (pa_new, []) (\<lparr>pid_current = 2, pid_recycled = []\<rparr>, [0, 1])" by simp
  then show ?thesis using pids_never_shared [OF r] by blast
qed

section \<open>Kernel stacks lie apart\<close>

lemma kernel_stack_nat:
  assumes "unat p < 2 ^ 25" and "kernel_stack_position p = (b, t)"
  shows "unat t = 2 ^ 64 - 4096 - 12288 * unat p" and "unat b = 2 ^ 64 - 4096 - 12288 * unat p - 8192"
proof -
  have m: "unat (p * 12288) = 12288 * unat p" using assms(1) by (simp add: unat_word_ariths)
  have t: "t = - 4096 - p * 12288" "b = t - 8192"
    using assms(2) by (auto simp: kernel_stack_position_def Let_def TRAMPOLINE_def PAGE_SIZE_def KERNEL_STACK_SIZE_def)
  have e: "unat (- 4096 :: usize) = 2 ^ 64 - 4096" by simp
  have "p * 12288 \<le> - 4096" using assms(1) m by (simp add: word_le_nat_alt)
  then show t': "unat t = 2 ^ 64 - 4096 - 12288 * unat p" unfolding t(1) by (simp add: unat_sub m)
  then have "8192 \<le> t" using assms(1) by (simp add: word_le_nat_alt)
  then show "unat b = 2 ^ 64 - 4096 - 12288 * unat p - 8192" unfolding t(2) using t' by (simp add: unat_sub)
qed

text \<open>C23: the kernel stack of a pid below \<open>2\<^sup>2\<^sup>5\<close> is two whole pages, the stack of a larger pid ends at
  least a page below it, and all of them lie in the top \<open>2\<^sup>3\<^sup>9\<close> bytes, where no two addresses are translated
  through the same page-table entries.\<close>

theorem kernel_stacks_apart:
  assumes "unat p < 2 ^ 25" and "unat q < 2 ^ 25"
    and "kernel_stack_position p = (b, t)" and "kernel_stack_position q = (b', t')"
  shows "unat t = unat b + 8192 \<and> unat b mod 4096 = 0 \<and> 2 ^ 64 - 2 ^ 39 \<le> unat b \<and>
    (if p < q then unat t' + 4096 \<le> unat b else if q < p then unat t + 4096 \<le> unat b' else b' = b \<and> t' = t)"
proof -
  note P = kernel_stack_nat [OF assms(1,3)] and Q = kernel_stack_nat [OF assms(2,4)]
  have "(2 ^ 64 - 4096 - 12288 * unat p - 8192) mod 4096 = 0"
  proof -
    have "2 ^ 64 - 4096 - 12288 * unat p - 8192 = 4096 * (2 ^ 52 - 3 - 3 * unat p)" using assms(1) by simp
    then show ?thesis by simp
  qed
  moreover have "unat t' + 4096 \<le> unat b" if "p < q"
    using that assms(2) by (simp add: P Q word_less_nat_alt)
  moreover have "unat t + 4096 \<le> unat b'" if "q < p"
    using that assms(1) by (simp add: P Q word_less_nat_alt)
  moreover have "p = q" if "\<not> p < q" "\<not> q < p" using that by simp
  ultimately show ?thesis using assms P by auto
qed

theorem kernel_stacks_apart_witness:
  "kernel_stack_position 0 = (0xffffffffffffd000, 0xfffffffffffff000) \<and>
   kernel_stack_position 1 = (0xffffffffffffa000, 0xffffffffffffc000) \<and>
   unat (0xffffffffffffc000 :: usize) + 4096 \<le> unat (0xffffffffffffd000 :: usize)"
proof -
  have "kernel_stack_position 0 = (0xffffffffffffd000, 0xfffffffffffff000)"
    and "kernel_stack_position 1 = (0xffffffffffffa000, 0xffffffffffffc000)"
    by (simp_all add: kernel_stack_position_def TRAMPOLINE_def PAGE_SIZE_def KERNEL_STACK_SIZE_def)
  from kernel_stacks_apart [OF _ _ this] this show ?thesis by simp
qed

end
