(* ===== verification/TrapContext.thy ===== *)
theory TrapContext
  imports PhysMem
begin

text \<open>
  \<open>src/os/src/trap/context.rs\<close> and the register saves of \<open>trap.S\<close>: the trap context of a process,
  37 machine words at the start of a frame of its own. The kernel reaches it through the physical
  address of that frame (\<open>get_trap_cx\<close>), so a field is eight bytes of physical memory.
\<close>

record TrapContext =
  x_regs :: "usize list"
  sstatus :: usize
  sepc :: usize
  kernel_satp :: usize
  kernel_sp :: usize
  trap_handler_va :: usize

definition tc_words :: "TrapContext \<Rightarrow> usize list" where
  "tc_words c = x_regs c @ [sstatus c, sepc c, kernel_satp c, kernel_sp c, trap_handler_va c]"

definition set_sp :: "usize \<Rightarrow> TrapContext \<Rightarrow> TrapContext" where
  "set_sp sp c = c\<lparr>x_regs := (x_regs c)[2 := sp]\<rparr>"

text \<open>\<open>status\<close> is what \<open>sstatus::read()\<close> gives, with the previous privilege set to user.\<close>

definition app_init_context :: "usize \<Rightarrow> usize \<Rightarrow> usize \<Rightarrow> usize \<Rightarrow> usize \<Rightarrow> usize \<Rightarrow> TrapContext" where
  "app_init_context status entry sp ksatp ksp handler =
     set_sp sp \<lparr>x_regs = replicate 32 0, sstatus = status, sepc = entry, kernel_satp = ksatp,
       kernel_sp = ksp, trap_handler_va = handler\<rparr>"

section \<open>In memory\<close>

text \<open>The places of the fields, in words.\<close>

definition REG_A0 :: nat where "REG_A0 = 10"
definition REG_A7 :: nat where "REG_A7 = 17"
definition SEPC :: nat where "SEPC = 33"
definition KERNEL_SP :: nat where "KERNEL_SP = 35"

definition tc_addr :: "PhysPageNum \<Rightarrow> nat \<Rightarrow> usize" where
  "tc_addr ppn i = pa_val (pa_from_ppn ppn) + of_nat (8 * i)"

definition tc_get :: "PhysPageNum \<Rightarrow> nat \<Rightarrow> phys_mem \<Rightarrow> usize" where
  "tc_get ppn i m = read_u64 m (tc_addr ppn i)"

definition tc_set :: "PhysPageNum \<Rightarrow> nat \<Rightarrow> usize \<Rightarrow> phys_mem \<Rightarrow> phys_mem" where
  "tc_set ppn i w m = write_u64 m (tc_addr ppn i) w"

text \<open>\<open>*trap_cx = cx\<close>\<close>

definition tc_write :: "PhysPageNum \<Rightarrow> TrapContext \<Rightarrow> phys_mem \<Rightarrow> phys_mem" where
  "tc_write ppn c m = write_bytes m (pa_val (pa_from_ppn ppn)) (store_words 8 (tc_words c))"

text \<open>\<open>__alltraps\<close>: the registers of the process but \<open>x0\<close> and \<open>x4\<close>, its \<open>sstatus\<close> and its \<open>sepc\<close>.\<close>

definition save_context :: "PhysPageNum \<Rightarrow> usize list \<Rightarrow> usize \<Rightarrow> usize \<Rightarrow> phys_mem \<Rightarrow> phys_mem" where
  "save_context ppn regs status pc m =
     tc_set ppn SEPC pc (tc_set ppn 32 status
       (foldr (\<lambda>i. tc_set ppn i (regs ! i)) (filter (\<lambda>i. i \<noteq> 4) [1..<32]) m))"

section \<open>Fields do not overlap\<close>

lemma unat_tc_addr:
  assumes "frame_ok p" and "i < 512"
  shows "unat (tc_addr p i) = unat (ppn_val p) * 4096 + 8 * i"
  using unat_frame_addr [OF assms(1), of "of_nat (8 * i)"] assms(2)
  by (simp add: tc_addr_def unat_of_nat del: of_nat_mult)

lemma tc_addr_slot: "i < 512 \<Longrightarrow> tc_addr p i = pa_val (pte_slot p (of_nat i))"
  by (simp add: tc_addr_def pte_slot_def)

lemma tc_get_set:
  assumes "frame_ok p" and "i < 512" and "j < 512"
  shows "tc_get p j (tc_set p i w m) = (if j = i then w else tc_get p j m)"
proof -
  have "(of_nat i :: usize) = of_nat j \<longleftrightarrow> i = j" using assms(2,3) by (simp add: word_of_nat_eq_iff take_bit_nat_eq_self)
  then show ?thesis
    using read_slot_other [OF assms(1) _ assms(1), of "of_nat i" "of_nat j" m w] assms
    by (simp add: tc_get_def tc_set_def tc_addr_slot unat_of_nat)
qed

lemma tc_set_other_frame: "frame_ok p \<Longrightarrow> i < 512 \<Longrightarrow> frame_of a \<noteq> p \<Longrightarrow> tc_set p i w m a = m a"
  using write_slot_other_frame [of p "of_nat i" a m w] by (simp add: tc_set_def tc_addr_slot unat_of_nat)

text \<open>Every word of a context that was written is read back.\<close>

lemma tc_get_write:
  assumes "length (x_regs c) = 32" and "i < 37"
  shows "tc_get p i (tc_write p c m) = tc_words c ! i"
proof -
  have n: "length (tc_words c) = 37" using assms(1) by (simp add: tc_words_def)
  have "read_bytes (tc_write p c m) (tc_addr p i) 8 = take 8 (drop (8 * i) (store_words 8 (tc_words c)))"
    unfolding tc_write_def tc_addr_def by (rule read_write_bytes_slice) (use assms(2) n in simp_all)
  then show ?thesis
    using assms(2) n by (simp add: tc_get_def read_u64_def store_words_slice le_word_le_bytes)
qed

end
