(* ===== verification/Task.thy ===== *)
theory Task
  imports Pid TrapContext
begin

text \<open>
  \<open>src/os/src/task/task.rs\<close> and \<open>context.rs\<close>: the control block of a process, with the accessors of its
  inner part. Blocks live in a heap of their own (theory \<open>Kernel\<close>); an \<open>Arc\<close> or \<open>Weak\<close> to a block is
  its number there, and an \<open>Arc\<close> to an open file is \<open>OSFile\<close> with the number of the file.

  \<open>__switch\<close> saves the registers of the kernel thread it leaves, and a later \<open>__switch\<close> continues there.
  Only four places call it, so where a thread will continue is kept as a value, \<open>resume\<close>, beside the
  context that a new task starts with.
\<close>

section \<open>Data\<close>

type_synonym tid = nat

datatype TaskStatus = UnInit | Ready | Running | Zombie

record TaskContext =
  ra :: usize
  task_sp :: usize
  s_regs :: "usize list"

definition zero_init :: TaskContext where
  "zero_init = \<lparr>ra = 0, task_sp = 0, s_regs = replicate 12 0\<rparr>"

text \<open>\<open>trap_return\<close> is the address of that function.\<close>

definition goto_trap_return :: "usize \<Rightarrow> usize \<Rightarrow> TaskContext" where
  "goto_trap_return trap_return kstack_ptr = \<lparr>ra = trap_return, task_sp = kstack_ptr, s_regs = replicate 12 0\<rparr>"

datatype File = Stdin | Stdout | OSFile nat

text \<open>Where a task continues: in user mode (\<open>None\<close>), in \<open>trap_return\<close> (a new task, and one that a timer
  interrupt stopped), behind the call in \<open>sys_yield\<close>, or in the loop of \<open>Stdin::read\<close>, whose buffer
  starts at a physical address.\<close>

datatype resume_point = TrapReturn | YieldReturn | StdinRead usize

record TaskControlBlock =
  task_pid :: PidHandle
  kernel_stack :: KernelStack
  trap_cx_ppn :: PhysPageNum
  base_size :: usize
  task_cx :: TaskContext
  task_status :: TaskStatus
  task_begin_time :: usize
  task_syscall_times :: "u32 list"
  task_priority :: usize
  task_stride :: usize
  memory_set :: MemorySet
  parent :: "tid option"
  children :: "tid list"
  exit_code :: i32
  fd_table :: "File option list"
  resume :: "resume_point option"

section \<open>Access to the inner part\<close>

definition get_user_token :: "TaskControlBlock \<Rightarrow> usize" where
  "get_user_token t = ms_token (memory_set t)"

definition update_stride :: "TaskControlBlock \<Rightarrow> TaskControlBlock res" where
  "update_stride t =
     (if task_priority t = 0 then Panic DivideByZero
      else Ok (t\<lparr>task_stride := task_stride t + BIG_STRIDE div task_priority t\<rparr>))"

definition is_zombie :: "TaskControlBlock \<Rightarrow> bool" where
  "is_zombie t \<longleftrightarrow> task_status t = Zombie"

definition alloc_fd :: "TaskControlBlock \<Rightarrow> nat \<times> TaskControlBlock" where
  "alloc_fd t =
     (case find_index (\<lambda>fd. fd = None) (fd_table t) of
        Some fd \<Rightarrow> (fd, t)
      | None \<Rightarrow> (length (fd_table t @ [None]) - 1, t\<lparr>fd_table := fd_table t @ [None]\<rparr>))"

definition getpid :: "TaskControlBlock \<Rightarrow> usize" where
  "getpid t = pid_val (task_pid t)"

text \<open>The block that \<open>new\<close>, \<open>fork\<close> and \<open>spawn\<close> build from what differs between them.\<close>

definition standard_fds :: "File option list" where
  "standard_fds = [Some Stdin, Some Stdout, Some Stdout]"

definition tcb_initial ::
  "usize \<Rightarrow> PidHandle \<Rightarrow> KernelStack \<Rightarrow> PhysPageNum \<Rightarrow> usize \<Rightarrow> MemorySet \<Rightarrow> tid option \<Rightarrow> File option list \<Rightarrow> TaskControlBlock" where
  "tcb_initial trap_return h ks cx_ppn base ms par fds =
     \<lparr>task_pid = h, kernel_stack = ks, trap_cx_ppn = cx_ppn, base_size = base,
      task_cx = goto_trap_return trap_return (ks_get_top ks), task_status = Ready, task_begin_time = 0,
      task_syscall_times = replicate MAX_SYSCALL_NUM 0, task_priority = 16, task_stride = 0,
      memory_set = ms, parent = par, children = [], exit_code = 0, fd_table = fds, resume = Some TrapReturn\<rparr>"

end
