(* ===== verification/UserBuffer.thy ===== *)
theory UserBuffer
  imports PageTableRefine
begin

text \<open>
  The part of \<open>src/os/src/mm/page_table.rs\<close> through which the kernel reaches the memory of a process:
  \<open>translated_byte_buffer\<close>, \<open>translated_str\<close>, \<open>translated_refmut\<close> and \<open>UserBuffer\<close>. A
  \<open>&'static mut [u8]\<close> into physical memory is its address and its length. The two loops walk the
  address space of the process and can run for ever where the address wraps around, so they carry
  fuel: one more than the number of pages, and the number of bytes, that there are.
\<close>

section \<open>Buffers\<close>

type_synonym user_slice = "usize \<times> nat"

text \<open>\<open>&mut ppn.get_bytes_array()[a..b]\<close>\<close>

definition frame_slice :: "PhysPageNum \<Rightarrow> nat \<Rightarrow> nat \<Rightarrow> user_slice res" where
  "frame_slice ppn a b =
     (if a \<le> b \<and> b \<le> 4096 then Ok (pa_val (pa_from_ppn ppn) + of_nat a, b - a) else Panic IndexOutOfBounds)"

fun byte_buffer_loop :: "nat \<Rightarrow> PageTable \<Rightarrow> usize \<Rightarrow> usize \<Rightarrow> phys_mem \<Rightarrow> user_slice list res" where
  "byte_buffer_loop 0 pt start end m = Panic Diverges"
| "byte_buffer_loop (Suc fuel) pt start end m =
     (if start < end then
        let start_va = VirtAddr start; vpn = va_floor start_va in
        bindr (unwrap (translate pt vpn m)) (\<lambda>pte.
        let ppn = pte_ppn pte; vpn = vpn_step vpn;
            end_va = VirtAddr (min (va_val (va_from_vpn vpn)) end) in
        bindr (frame_slice ppn (unat (va_page_offset start_va))
                 (if va_page_offset end_va = 0 then 4096 else unat (va_page_offset end_va))) (\<lambda>b.
        bindr (byte_buffer_loop fuel pt (va_val end_va) end m) (\<lambda>v. Ok (b # v))))
      else Ok [])"

definition translated_byte_buffer :: "usize \<Rightarrow> usize \<Rightarrow> usize \<Rightarrow> phys_mem \<Rightarrow> user_slice list res" where
  "translated_byte_buffer tok ptr len m = byte_buffer_loop (2 ^ 52 + 1) (pt_from_token tok) ptr (ptr + len) m"

text \<open>\<open>String::push(ch as char)\<close>: a byte is a code point below 256, two bytes long in UTF-8 from 128 on.\<close>

definition push_char :: "u8 \<Rightarrow> u8 list \<Rightarrow> u8 list" where
  "push_char ch str =
     str @ (if ch < 128 then [ch] else [0xC0 OR drop_bit 6 ch, 0x80 OR (ch AND 0x3F)])"

fun str_loop :: "nat \<Rightarrow> PageTable \<Rightarrow> usize \<Rightarrow> u8 list \<Rightarrow> phys_mem \<Rightarrow> u8 list res" where
  "str_loop 0 pt va str m = Panic Diverges"
| "str_loop (Suc fuel) pt va str m =
     bindr (unwrap (translate_va pt (VirtAddr va) m)) (\<lambda>pa.
     let ch = m (pa_val pa) in
     if ch = 0 then Ok str else str_loop fuel pt (va + 1) (push_char ch str) m)"

definition translated_str :: "usize \<Rightarrow> usize \<Rightarrow> phys_mem \<Rightarrow> u8 list res" where
  "translated_str tok ptr m = str_loop (2 ^ 64) (pt_from_token tok) ptr [] m"

definition translated_ref :: "usize \<Rightarrow> usize \<Rightarrow> phys_mem \<Rightarrow> PhysAddr res" where
  "translated_ref tok ptr m = unwrap (translate_va (pt_from_token tok) (VirtAddr ptr) m)"

definition translated_refmut :: "usize \<Rightarrow> usize \<Rightarrow> phys_mem \<Rightarrow> PhysAddr res" where
  "translated_refmut tok ptr m = unwrap (translate_va (pt_from_token tok) (VirtAddr ptr) m)"

section \<open>User buffers and their iterator\<close>

record UserBuffer =
  buffers :: "user_slice list"

definition ub_new :: "user_slice list \<Rightarrow> UserBuffer" where
  "ub_new bs = \<lparr>buffers = bs\<rparr>"

fun ub_len_loop :: "user_slice list \<Rightarrow> usize \<Rightarrow> usize" where
  "ub_len_loop [] tot = tot"
| "ub_len_loop ((_, n) # bs) tot = ub_len_loop bs (tot + of_nat n)"

definition ub_len :: "UserBuffer \<Rightarrow> usize" where
  "ub_len ub = ub_len_loop (buffers ub) 0"

record UserBufferIterator =
  it_buffers :: "user_slice list"
  current_buffer :: nat
  current_idx :: nat

definition ub_into_iter :: "UserBuffer \<Rightarrow> UserBufferIterator" where
  "ub_into_iter ub = \<lparr>it_buffers = buffers ub, current_buffer = 0, current_idx = 0\<rparr>"

text \<open>The reference \<open>&mut self.buffers[current_buffer][current_idx]\<close> is the address of that byte.\<close>

definition ub_next :: "UserBufferIterator \<Rightarrow> (usize option \<times> UserBufferIterator) res" where
  "ub_next it =
     (if length (it_buffers it) \<le> current_buffer it then Ok (None, it)
      else case it_buffers it ! current_buffer it of (a, n) \<Rightarrow>
        if \<not> current_idx it < n then Panic IndexOutOfBounds
        else
          let r = a + of_nat (current_idx it) in
          if current_idx it + 1 = n
          then Ok (Some r, it\<lparr>current_idx := 0, current_buffer := current_buffer it + 1\<rparr>)
          else Ok (Some r, it\<lparr>current_idx := current_idx it + 1\<rparr>))"

section \<open>Translation reads the abstract map\<close>

text \<open>\<open>translate\<close> finds the entry of every mapped page. It also answers with the invalid leaf of a page
  that is not mapped, where the upper levels of the table are there.\<close>

lemma translate_lookup:
  "pt_lookup m pt v = (case translate pt v m of Some e \<Rightarrow> if pte_is_valid e then Some e else None | None \<Rightarrow> None)"
  by (simp add: pt_lookup_def translate_def find_pte_def indexes_eq Let_def)

lemma lookup_translate: "pt_lookup m pt v \<noteq> None \<Longrightarrow> translate pt v m \<noteq> None"
  by (cases "translate pt v m") (simp_all add: translate_lookup)

lemma translate_root: "root_ppn pt' = root_ppn pt \<Longrightarrow> translate pt' v m = translate pt v m"
  by (simp add: translate_def find_pte_def)

text \<open>A token carries the root frame of its table.\<close>

lemma from_token_root:
  assumes "frame_ok (root_ppn pt)"
  shows "root_ppn (pt_from_token (token pt)) = root_ppn pt"
proof -
  have "take_bit 44 (push_bit 60 8 OR ppn_val (root_ppn pt)) = ppn_val (root_ppn pt)"
    by (rule bit_word_eqI) (auto simp: bit_take_bit_iff bit_or_iff bit_push_bit_iff dest: frame_ok_bits [OF assms])
  then show ?thesis by (simp add: pt_from_token_def token_def and_mask_44 ppn_eq_conv)
qed

text \<open>The physical address that a user address stands for.\<close>

definition user_addr :: "PageTable \<Rightarrow> phys_mem \<Rightarrow> usize \<Rightarrow> usize option" where
  "user_addr pt m a = map_option (\<lambda>e. pa_val (pa_from_ppn (pte_ppn e)) + va_page_offset (VirtAddr a)) (translate pt (va_floor (VirtAddr a)) m)"

lemma translate_va_user_addr: "translate_va pt (VirtAddr a) m = map_option PhysAddr (user_addr pt m a)"
  by (cases "find_pte pt (va_floor (VirtAddr a)) m") (simp_all add: translate_va_def user_addr_def translate_def Let_def)

definition slice_addrs :: "user_slice list \<Rightarrow> usize list" where
  "slice_addrs v = concat (map (\<lambda>(a, n). map (\<lambda>i. a + of_nat i) [0..<n]) v)"

lemma slice_addrs_simps [simp]:
  "slice_addrs [] = []" "slice_addrs ((a, n) # v) = map (\<lambda>i. a + of_nat i) [0..<n] @ slice_addrs v"
  by (simp_all add: slice_addrs_def)

section \<open>Walking a buffer\<close>

text \<open>One round of the loop, on natural numbers.\<close>

lemma page_round:
  assumes "s < e" and "unat e \<le> 2 ^ 64 - 4096"
  defines "nx \<equiv> min (va_val (va_from_vpn (vpn_step (va_floor (VirtAddr s))))) e"
  shows "unat nx = min ((unat s div 4096 + 1) * 4096) (unat e)"
    and "(if va_page_offset (VirtAddr nx) = 0 then 4096 else unat (va_page_offset (VirtAddr nx))) = unat s mod 4096 + (unat nx - unat s)"
    and "unat s mod 4096 + (unat nx - unat s) \<le> 4096" and "unat s < unat nx" "unat nx \<le> unat e"
proof -
  have se: "unat s < unat e" using assms(1) by (simp add: word_less_nat_alt)
  have d: "unat s div 4096 + 1 < 2 ^ 52" using se assms(2) by simp
  have "unat (vpn_val (vpn_step (va_floor (VirtAddr s)))) = unat s div 4096 + 1"
    using d by (simp add: vpn_step_def unat_word_ariths unat_floor)
  then have "unat (va_val (va_from_vpn (vpn_step (va_floor (VirtAddr s))))) = (unat s div 4096 + 1) * 4096"
    using d by (simp add: unat_va_from_vpn)
  then show n: "unat nx = min ((unat s div 4096 + 1) * 4096) (unat e)"
    by (simp add: nx_def min_def word_le_nat_alt)
  obtain q r where q: "unat s div 4096 = q" "unat s mod 4096 = r" "unat s = q * 4096 + r" "r < 4096"
    by (metis div_mult_mod_eq mod_less_divisor zero_less_numeral)
  have n': "unat nx = min ((q + 1) * 4096) (unat e)" using n by (simp add: q(1))
  show less: "unat s < unat nx" "unat nx \<le> unat e" using n' se q(3,4) by auto
  have top: "unat nx \<le> (q + 1) * 4096" using n' by simp
  then show "unat s mod 4096 + (unat nx - unat s) \<le> 4096" unfolding q(2) using q(3,4) by simp
  have o: "va_page_offset (VirtAddr nx) = 0 \<longleftrightarrow> unat nx mod 4096 = 0"
    by (simp add: unat_eq_0 [symmetric] unat_page_offset)
  show "(if va_page_offset (VirtAddr nx) = 0 then 4096 else unat (va_page_offset (VirtAddr nx))) = unat s mod 4096 + (unat nx - unat s)"
  proof (cases "unat nx = (q + 1) * 4096")
    case True
    then show ?thesis using q by (simp add: o unat_page_offset)
  next
    case False
    with top have "unat nx < (q + 1) * 4096" by simp
    then obtain k where "unat nx = q * 4096 + k" "r < k" "k < 4096"
      using less(1) q(3) by (intro that [of "unat nx - q * 4096"]) simp_all
    then show ?thesis using q by (simp add: o unat_page_offset)
  qed
qed

lemma same_page:
  assumes "unat s mod 4096 + i < 4096" and "unat s + i < 2 ^ 64"
  shows "va_floor (VirtAddr (s + of_nat i)) = va_floor (VirtAddr s)"
    and "va_page_offset (VirtAddr (s + of_nat i)) = of_nat (unat s mod 4096 + i)"
proof -
  have a: "unat (s + of_nat i) = unat s + i" using assms(2) by (simp add: unat_word_ariths unat_of_nat)
  have "unat s = unat s div 4096 * 4096 + unat s mod 4096" by simp
  then have "unat s + i = unat s div 4096 * 4096 + (unat s mod 4096 + i)" by linarith
  then have n: "(unat s + i) div 4096 = unat s div 4096" "(unat s + i) mod 4096 = unat s mod 4096 + i"
    using assms(1) div_mult_self3 [of 4096 "unat s div 4096" "unat s mod 4096 + i"]
      mod_mult_self3 [of "unat s div 4096" 4096 "unat s mod 4096 + i"] by (simp_all only: div_less mod_less add_0_right)
  show "va_floor (VirtAddr (s + of_nat i)) = va_floor (VirtAddr s)"
    by (rule unat_vpn_inject [THEN iffD1]) (simp add: unat_floor a n(1))
  show "va_page_offset (VirtAddr (s + of_nat i)) = of_nat (unat s mod 4096 + i)"
    unfolding word_unat_eq_iff using assms(1) by (simp add: unat_page_offset a n(2) unat_of_nat del: of_nat_add)
qed

lemma byte_buffer_loop_ok:
  assumes "unat e \<le> 2 ^ 64 - 4096" and "s \<le> e" and "0 < fuel" and "s < e \<Longrightarrow> (unat e + 4095) div 4096 < unat s div 4096 + fuel"
    and "\<forall>a. s \<le> a \<and> a < e \<longrightarrow> translate pt (va_floor (VirtAddr a)) m \<noteq> None"
  shows "returns (byte_buffer_loop fuel pt s e m) (\<lambda>v.
    map Some (slice_addrs v) = map (\<lambda>i. user_addr pt m (s + of_nat i)) [0..<unat e - unat s] \<and> (\<forall>b \<in> set v. 0 < snd b))"
  using assms
proof (induction fuel arbitrary: s)
  case 0
  then show ?case by simp
next
  case (Suc fuel)
  show ?case
  proof (cases "s < e")
    case True
    define nx where "nx = min (va_val (va_from_vpn (vpn_step (va_floor (VirtAddr s))))) e"
    note r = page_round [OF True Suc.prems(1), folded nx_def]
    obtain pte where pte: "translate pt (va_floor (VirtAddr s)) m = Some pte" using Suc.prems(5) True by blast
    let ?a = "pa_val (pa_from_ppn (pte_ppn pte)) + of_nat (unat s mod 4096)" and ?n = "unat nx - unat s"
    let ?u = "\<lambda>s n. map (\<lambda>i. user_addr pt m (s + of_nat i)) [0..<n]"
    have "returns (byte_buffer_loop fuel pt nx e m) (\<lambda>v. map Some (slice_addrs v) = ?u nx (unat e - unat nx) \<and> (\<forall>b \<in> set v. 0 < snd b))"
    proof (rule Suc.IH [OF Suc.prems(1)])
      show "nx \<le> e" by (simp add: nx_def)
      have "(unat s + 4096) div 4096 \<le> (unat e + 4095) div 4096" using True by (intro div_le_mono) (simp add: word_less_nat_alt)
      then show "0 < fuel" using Suc.prems(4) [OF True] by simp
      show "(unat e + 4095) div 4096 < unat nx div 4096 + fuel" if "nx < e"
        using that r(1) Suc.prems(4) [OF True] by (simp add: word_less_nat_alt min_def split: if_splits)
      show "\<forall>a. nx \<le> a \<and> a < e \<longrightarrow> translate pt (va_floor (VirtAddr a)) m \<noteq> None"
        using Suc.prems(5) r(4) by (auto simp: word_less_nat_alt word_le_nat_alt)
    qed
    moreover have "map Some (map (\<lambda>i. ?a + of_nat i) [0..<?n]) = ?u s ?n"
      using r(3,4,5) Suc.prems(1) by (auto simp: user_addr_def same_page pte add.assoc)
    moreover have "?u s (unat e - unat s) = ?u s ?n @ ?u nx (unat e - unat nx)"
    proof -
      have "nx = s + of_nat ?n" using r(4) by (simp add: word_unat_eq_iff unat_word_ariths unat_of_nat)
      then have "nx + of_nat i = s + of_nat ?n + of_nat i" for i by simp
      then have eq: "nx + of_nat i = s + of_nat (i + ?n)" for i by (simp only: of_nat_add ac_simps)
      have "?u nx (unat e - unat nx) = map (\<lambda>i. user_addr pt m (s + of_nat i)) [?n..<unat e - unat nx + ?n]"
        unfolding map_add_upt [of ?n "unat e - unat nx", symmetric] map_map comp_def by (simp only: eq)
      moreover have "unat e - unat nx + ?n = unat e - unat s" using r(4,5) by simp
      ultimately show ?thesis using upt_add_eq_append [of 0 ?n "unat e - unat nx"] by (simp add: add.commute)
    qed
    moreover have "frame_slice (pte_ppn pte) (unat (va_page_offset (VirtAddr s)))
        (if va_page_offset (VirtAddr nx) = 0 then 4096 else unat (va_page_offset (VirtAddr nx))) = Ok (?a, ?n)"
      unfolding r(2) by (simp only: frame_slice_def unat_page_offset VirtAddr.sel if_P [OF conjI [OF le_add1 r(3)]] add_diff_cancel_left')
    ultimately show ?thesis using True pte r(4) by (auto simp: Let_def nx_def [symmetric] elim!: returns_mono)
  next
    case False
    then show ?thesis using Suc.prems(2) by simp
  qed
qed

text \<open>C21: the kernel's view of a user buffer. For a buffer that lies in mapped pages of a process and
  does not reach the last page of the address space, \<open>translated_byte_buffer\<close> returns, and the bytes
  of its slices, in order, are exactly the physical bytes behind the addresses of the buffer; no
  slice is empty.\<close>

theorem translated_byte_buffer_covers:
  assumes "pt_inv k pt" and "unat ptr + unat len \<le> 2 ^ 64 - 4096"
    and "\<And>a. ptr \<le> a \<Longrightarrow> a < ptr + len \<Longrightarrow> pt_lookup (mem k) pt (va_floor (VirtAddr a)) \<noteq> None"
  shows "returns (translated_byte_buffer (token pt) ptr len (mem k)) (\<lambda>v.
    map Some (slice_addrs v) = map (\<lambda>i. user_addr pt (mem k) (ptr + of_nat i)) [0..<unat len] \<and> (\<forall>b \<in> set v. 0 < snd b))"
proof -
  let ?pt = "pt_from_token (token pt)"
  have root: "root_ppn ?pt = root_ppn pt"
    by (rule from_token_root) (use assms(1) in \<open>auto simp: pt_inv_def placed_def\<close>)
  have e: "unat (ptr + len) = unat ptr + unat len" using assms(2) by (simp add: unat_word_ariths)
  have "\<forall>a. ptr \<le> a \<and> a < ptr + len \<longrightarrow> translate ?pt (va_floor (VirtAddr a)) (mem k) \<noteq> None"
    using assms(3) lookup_translate unfolding translate_root [OF root] by blast
  moreover have "(unat (ptr + len) + 4095) div 4096 < unat ptr div 4096 + (2 ^ 52 + 1)"
    using assms(2) e by (simp add: less_Suc_eq_le trans_le_add2 div_le_mono)
  ultimately show ?thesis
    using byte_buffer_loop_ok [of "ptr + len" ptr "2 ^ 52 + 1" ?pt "mem k"] assms(2) e
    by (simp add: translated_byte_buffer_def word_le_nat_alt user_addr_def translate_root [OF root])
qed

text \<open>Sixteen bytes in a page that maps to frame 42.\<close>

theorem translated_byte_buffer_covers_witness:
  "\<exists>pt k. pt_map demo_pt (VirtPageNum 5) (PhysPageNum 42) PTE_R demo_k = Ok (0, pt, k) \<and>
     returns (translated_byte_buffer (token pt) 0x5010 16 (mem k)) (\<lambda>v. slice_addrs v = map (\<lambda>i. 0x2A010 + of_nat i) [0..<16])"
proof -
  have i: "pt_inv demo_k demo_pt" "2 \<le> free_frames demo_k" using demo_inv by (auto simp: demo_free)
  then obtain r pt k where m: "pt_map demo_pt (VirtPageNum 5) (PhysPageNum 42) PTE_R demo_k = Ok (r, pt, k)"
    using pt_map_total pt_inv_mm by blast
  have p: "pt_inv k pt" "r = 0" "pt_lookup (mem k) pt (VirtPageNum 5) = Some (pte_new (PhysPageNum 42) (PTE_R OR PTE_V))"
    using pt_map_Ok [OF i(1) m] demo_inv [of "VirtPageNum 5"] by (auto simp: pt_evolves_def)
  have page: "va_floor (VirtAddr a) = VirtPageNum 5" if "0x5010 \<le> a" "a < 0x5020" for a
  proof (rule unat_vpn_inject [THEN iffD1])
    show "unat (vpn_val (va_floor (VirtAddr a))) = unat (vpn_val (VirtPageNum 5))"
      using that by (simp add: unat_floor word_le_nat_alt word_less_nat_alt div_nat_eqI)
  qed
  obtain e where e: "translate pt (VirtPageNum 5) (mem k) = Some e" "e = pte_new (PhysPageNum 42) (PTE_R OR PTE_V)"
    using p(3) by (auto simp: translate_lookup split: option.splits if_splits)
  have "pte_ppn e = PhysPageNum 42" unfolding e(2) by (rule pte_new_ppn) (simp add: frame_ok_def)
  then have "user_addr pt (mem k) (0x5010 + of_nat i) = Some (0x2A010 + of_nat i)" if "i < 16" for i
    using that same_page [of "0x5010" i] page [of "0x5010"] e(1)
    by (simp add: user_addr_def pa_from_ppn_def PAGE_SIZE_BITS_def add.assoc [symmetric])
  then have "map (\<lambda>i. user_addr pt (mem k) (0x5010 + of_nat i)) [0..<16] = map Some (map (\<lambda>i. 0x2A010 + of_nat i) [0..<16])"
    by simp
  moreover have "returns (translated_byte_buffer (token pt) 0x5010 16 (mem k)) (\<lambda>v.
      map Some (slice_addrs v) = map (\<lambda>i. user_addr pt (mem k) (0x5010 + of_nat i)) [0..<unat (16 :: usize)] \<and> (\<forall>b \<in> set v. 0 < snd b))"
    by (rule translated_byte_buffer_covers [OF p(1)]) (use page p(3) in auto)
  ultimately have "returns (translated_byte_buffer (token pt) 0x5010 16 (mem k)) (\<lambda>v. slice_addrs v = map (\<lambda>i. 0x2A010 + of_nat i) [0..<16])"
    by (simp add: inj_map_eq_map [OF inj_Some] del: map_map) (auto elim!: returns_mono)
  then show ?thesis using m p(2) by blast
qed

end
