(* ===== verification/Kernel.thy ===== *)
theory Kernel
  imports Task Vfs UserBuffer
begin

text \<open>
  The state of the kernel and \<open>src/os/src/task\<close>: the task manager with its stride scheduler
  (\<open>manager.rs\<close>), the processor (\<open>processor.rs\<close>), suspending and ending the current task (\<open>mod.rs\<close>),
  and the operations that make tasks and change their program (\<open>task.rs\<close>).

  The statics of the source are the fields of one record. Control blocks lie in a heap \<open>tcbs\<close>; a
  block whose last \<open>Arc\<close> goes is freed (\<open>release\<close>), its pid, kernel stack and address space with it.
  The strong count of a block is the number of places that hold it: the ready queue, the processor,
  the static \<open>INITPROC\<close> and the lists of children. Local variables hold further ones, but a call
  that never returns (\<open>exit_current_and_run_next\<close>) gives up its own before it switches.

  A call that switches to another task ends, in the model, in the state in which that task is
  current and about to continue at its resume point. The time register is an argument.
\<close>

section \<open>State\<close>

text \<open>What the kernel is linked with: the ELF parser, the addresses of the trampoline page, of
  \<open>trap_handler\<close> and of \<open>trap_return\<close>, the \<open>sstatus\<close> of a user program, and the memory layout of a
  \<open>TaskInfo\<close>, which the compiler chooses.\<close>

record params =
  parse_elf :: "u8 list \<Rightarrow> ElfFile option"
  tramp_pa :: usize
  trap_handler_addr :: usize
  trap_return_addr :: usize
  user_sstatus :: usize
  task_info_bytes :: "TaskStatus \<Rightarrow> u32 list \<Rightarrow> usize \<Rightarrow> u8 list"

record 'w OSInode =
  readable :: bool
  writable :: bool
  os_offset :: usize
  os_inode :: "'w Inode"

record 'w kernel =
  kmm :: mm
  KERNEL_SPACE :: MemorySet
  PID_ALLOCATOR :: PidAllocator
  tcbs :: "TaskControlBlock option list"
  ready_queue :: "tid list"
  current :: "tid option"
  idle_task_cx :: TaskContext
  INITPROC :: "tid option"
  files :: "'w OSInode list"
  fs :: "'w store"
  ROOT_INODE :: "'w Inode"
  console :: "u8 list"
  mtimecmp :: usize

section \<open>The heap of control blocks\<close>

definition get_task :: "tid \<Rightarrow> 'w kernel \<Rightarrow> TaskControlBlock res" where
  "get_task t k = (if t < length (tcbs k) then unwrap (tcbs k ! t) else Panic UnwrapNone)"

definition put_task :: "tid \<Rightarrow> TaskControlBlock \<Rightarrow> 'w kernel \<Rightarrow> 'w kernel" where
  "put_task t b k = k\<lparr>tcbs := (tcbs k)[t := Some b]\<rparr>"

definition modify_task :: "tid \<Rightarrow> (TaskControlBlock \<Rightarrow> TaskControlBlock) \<Rightarrow> 'w kernel \<Rightarrow> 'w kernel res" where
  "modify_task t f k = bindr (get_task t k) (\<lambda>b. Ok (put_task t (f b) k))"

text \<open>\<open>Arc::new\<close>\<close>

definition alloc_task :: "TaskControlBlock \<Rightarrow> 'w kernel \<Rightarrow> tid \<times> 'w kernel" where
  "alloc_task b k = (length (tcbs k), k\<lparr>tcbs := tcbs k @ [Some b]\<rparr>)"

definition child_refs :: "tid \<Rightarrow> TaskControlBlock option \<Rightarrow> nat" where
  "child_refs t b = (case b of None \<Rightarrow> 0 | Some b \<Rightarrow> count_list (children b) t)"

definition strong_count :: "tid \<Rightarrow> 'w kernel \<Rightarrow> nat" where
  "strong_count t k = count_list (ready_queue k) t + of_bool (current k = Some t) + of_bool (INITPROC k = Some t)
     + sum_list (map (child_refs t) (tcbs k))"

text \<open>The fields of a block are dropped in order; the \<open>Arc\<close>s of its children remain to be released.\<close>

definition free_task :: "tid \<Rightarrow> 'w kernel \<Rightarrow> (tid list \<times> 'w kernel) res" where
  "free_task t k =
     bindr (get_task t k) (\<lambda>b.
     bindr (drop_pid (task_pid b) (PID_ALLOCATOR k)) (\<lambda>pa.
     bindr (drop_ks (kernel_stack b) (KERNEL_SPACE k) (kmm k)) (\<lambda>(ks, m).
     bindr (drop_memory_set (memory_set b) m) (\<lambda>m.
       Ok (children b, k\<lparr>PID_ALLOCATOR := pa, KERNEL_SPACE := ks, kmm := m, tcbs := (tcbs k)[t := None]\<rparr>)))))"

definition live_tasks :: "'w kernel \<Rightarrow> nat" where
  "live_tasks k = length (filter (\<lambda>b. b \<noteq> None) (tcbs k))"

lemma live_tasks_update_None:
  assumes "t < length bs" and "bs ! t \<noteq> None"
  shows "length (filter (\<lambda>b. b \<noteq> None) (bs[t := None])) < length (filter (\<lambda>b. b \<noteq> None) bs)"
  using assms by (induction bs arbitrary: t) (auto split: nat.split)

lemma free_task_live: "free_task t k = Ok (cs, k') \<Longrightarrow> live_tasks k' < live_tasks k"
  using live_tasks_update_None [of t "tcbs k"] by (auto simp: free_task_def get_task_def live_tasks_def split: if_splits)

text \<open>Dropping the \<open>Arc\<close>s in a list. An \<open>Arc\<close> further on in the list still counts.\<close>

function release :: "tid list \<Rightarrow> 'w kernel \<Rightarrow> 'w kernel res" where
  "release [] k = Ok k"
| "release (t # ts) k =
     (if strong_count t k + count_list ts t = 0
      then bindr (free_task t k) (\<lambda>(cs, k). release (cs @ ts) k)
      else release ts k)"
  by pat_completeness auto
termination
  by (relation "measures [\<lambda>(ts, k). live_tasks k, \<lambda>(ts, k). length ts]") (auto dest: free_task_live)

section \<open>Time\<close>

definition TICKS_PER_SEC :: usize where "TICKS_PER_SEC = 100"
definition MICRO_PER_SEC :: usize where "MICRO_PER_SEC = 1000000"

definition get_time_us :: "usize \<Rightarrow> usize" where
  "get_time_us now = now div (CLOCK_FREQ div MICRO_PER_SEC)"

definition set_next_trigger :: "usize \<Rightarrow> 'w kernel \<Rightarrow> 'w kernel" where
  "set_next_trigger now k = k\<lparr>mtimecmp := now + CLOCK_FREQ div TICKS_PER_SEC\<rparr>"

text \<open>The milliseconds of \<open>run_tasks\<close> and \<open>sys_task_info\<close>.\<close>

definition milliseconds :: "usize \<Rightarrow> usize" where
  "milliseconds us = ((us div 1000000) AND 0xffff) * 1000 + (us mod 1000000) div 1000"

section \<open>The task manager\<close>

definition add_task :: "tid \<Rightarrow> 'w kernel \<Rightarrow> 'w kernel" where
  "add_task t k = k\<lparr>ready_queue := ready_queue k @ [t]\<rparr>"

fun fetch_loop :: "(nat \<times> tid) list \<Rightarrow> usize \<Rightarrow> nat \<Rightarrow> 'w kernel \<Rightarrow> nat res" where
  "fetch_loop [] min_stride best k = Ok best"
| "fetch_loop ((idx, t) # ts) min_stride best k =
     bindr (get_task t k) (\<lambda>b.
       if task_stride b < min_stride then fetch_loop ts (task_stride b) idx k
       else fetch_loop ts min_stride best k)"

definition fetch_task :: "'w kernel \<Rightarrow> (tid \<times> 'w kernel) res" where
  "fetch_task k =
     bindr (fetch_loop (enumerate 0 (ready_queue k)) 0xffffffffffffffff 0 k) (\<lambda>best.
     bindr (indexr (ready_queue k) best) (\<lambda>t.
     bindr (get_task t k) (\<lambda>b.
     bindr (update_stride b) (\<lambda>b.
       Ok (t, (put_task t b k)\<lparr>ready_queue := remove_nth best (ready_queue k)\<rparr>)))))"

section \<open>The processor\<close>

text \<open>One round of the loop of \<open>run_tasks\<close>, up to the switch.\<close>

definition run_tasks :: "usize \<Rightarrow> 'w kernel \<Rightarrow> 'w kernel res" where
  "run_tasks now k =
     bindr (fetch_task k) (\<lambda>(t, k).
     bindr (modify_task t (\<lambda>b.
              let b = b\<lparr>task_status := Running\<rparr> in
              if task_begin_time b = 0 then b\<lparr>task_begin_time := milliseconds (get_time_us now)\<rparr> else b) k) (\<lambda>k.
       Ok (k\<lparr>current := Some t\<rparr>)))"

definition current_block :: "'w kernel \<Rightarrow> (tid \<times> TaskControlBlock) res" where
  "current_block k = bindr (unwrap (current k)) (\<lambda>t. bindr (get_task t k) (\<lambda>b. Ok (t, b)))"

definition current_user_token :: "'w kernel \<Rightarrow> usize res" where
  "current_user_token k = bindr (current_block k) (\<lambda>(_, b). Ok (get_user_token b))"

definition current_trap_cx :: "'w kernel \<Rightarrow> PhysPageNum res" where
  "current_trap_cx k = bindr (current_block k) (\<lambda>(_, b). Ok (trap_cx_ppn b))"

definition current_begin_time :: "'w kernel \<Rightarrow> usize res" where
  "current_begin_time k = bindr (current_block k) (\<lambda>(_, b). Ok (task_begin_time b))"

definition current_syscall_times :: "'w kernel \<Rightarrow> u32 list res" where
  "current_syscall_times k = bindr (current_block k) (\<lambda>(_, b). Ok (task_syscall_times b))"

definition update_current_syscall_times :: "usize \<Rightarrow> 'w kernel \<Rightarrow> 'w kernel res" where
  "update_current_syscall_times syscall_id k =
     bindr (current_block k) (\<lambda>(t, b).
     bindr (indexr (task_syscall_times b) (unat syscall_id)) (\<lambda>n.
       Ok (put_task t (b\<lparr>task_syscall_times := (task_syscall_times b)[unat syscall_id := n + 1]\<rparr>) k)))"

definition set_current_priority :: "usize \<Rightarrow> 'w kernel \<Rightarrow> 'w kernel res" where
  "set_current_priority priority k =
     bindr (current_block k) (\<lambda>(t, b). Ok (put_task t (b\<lparr>task_priority := priority\<rparr>) k))"

definition insert_current_memory_set :: "VirtAddr \<Rightarrow> VirtAddr \<Rightarrow> MapPermission \<Rightarrow> 'w kernel \<Rightarrow> (isize \<times> 'w kernel) res" where
  "insert_current_memory_set start_va end_va permission k =
     bindr (current_block k) (\<lambda>(t, b).
     bindr (insert_framed_area start_va end_va permission (memory_set b) (kmm k)) (\<lambda>(r, ms, m).
       Ok (r, (put_task t (b\<lparr>memory_set := ms\<rparr>) k)\<lparr>kmm := m\<rparr>)))"

definition remove_current_memory_set :: "VirtAddr \<Rightarrow> VirtAddr \<Rightarrow> 'w kernel \<Rightarrow> (isize \<times> 'w kernel) res" where
  "remove_current_memory_set start_va end_va k =
     bindr (current_block k) (\<lambda>(t, b).
     bindr (remove_framed_area start_va end_va (memory_set b) (kmm k)) (\<lambda>(r, ms, m).
       Ok (r, (put_task t (b\<lparr>memory_set := ms\<rparr>) k)\<lparr>kmm := m\<rparr>)))"

section \<open>Suspending and ending the current task\<close>

text \<open>\<open>schedule\<close> switches to the idle loop, which runs another round of \<open>run_tasks\<close>.\<close>

definition suspend_current_and_run_next :: "resume_point \<Rightarrow> usize \<Rightarrow> 'w kernel \<Rightarrow> 'w kernel res" where
  "suspend_current_and_run_next r now k =
     bindr (unwrap (current k)) (\<lambda>t.
     bindr (modify_task t (\<lambda>b. b\<lparr>task_status := Ready, resume := Some r\<rparr>) (k\<lparr>current := None\<rparr>)) (\<lambda>k.
       run_tasks now (add_task t k)))"

text \<open>The loop over the children of the task that ends.\<close>

definition reparent :: "tid \<Rightarrow> tid \<Rightarrow> 'w kernel \<Rightarrow> 'w kernel res" where
  "reparent initproc c k =
     bindr (modify_task c (\<lambda>b. b\<lparr>parent := Some initproc\<rparr>) k)
       (modify_task initproc (\<lambda>b. b\<lparr>children := children b @ [c]\<rparr>))"

text \<open>The control block of the task is borrowed while \<open>INITPROC\<close> is, so \<open>INITPROC\<close> itself cannot end.\<close>

definition exit_current_and_run_next :: "i32 \<Rightarrow> usize \<Rightarrow> 'w kernel \<Rightarrow> 'w kernel res" where
  "exit_current_and_run_next code now k =
     bindr (unwrap (current k)) (\<lambda>t.
     bindr (modify_task t (\<lambda>b. b\<lparr>task_status := Zombie, exit_code := code\<rparr>) (k\<lparr>current := None\<rparr>)) (\<lambda>k.
     bindr (unwrap (INITPROC k)) (\<lambda>initproc.
     if t = initproc then Panic AlreadyBorrowed
     else
       bindr (get_task t k) (\<lambda>b.
       bindr (for_each (reparent initproc) (children b) k) (\<lambda>k.
       bindr (recycle_data_pages (memory_set b) (kmm k)) (\<lambda>(ms, m).
       bindr (modify_task t (\<lambda>b. b\<lparr>children := [], memory_set := ms\<rparr>) (k\<lparr>kmm := m\<rparr>)) (\<lambda>k.
       bindr (release [t] k) (run_tasks now))))))))"

section \<open>Making tasks\<close>

text \<open>\<open>memory_set.translate(VirtAddr::from(TRAP_CONTEXT).into()).unwrap().ppn()\<close>\<close>

definition trap_cx_frame :: "MemorySet \<Rightarrow> phys_mem \<Rightarrow> PhysPageNum res" where
  "trap_cx_frame ms m =
     bindr (vpn_from_va (VirtAddr TRAP_CONTEXT)) (\<lambda>vpn.
     bindr (unwrap (ms_translate ms vpn m)) (\<lambda>e. Ok (pte_ppn e)))"

definition pid_and_stack :: "'w kernel \<Rightarrow> (PidHandle \<times> KernelStack \<times> 'w kernel) res" where
  "pid_and_stack k =
     (case pid_alloc (PID_ALLOCATOR k) of (h, pa) \<Rightarrow>
      bindr (ks_new h (KERNEL_SPACE k) (kmm k)) (\<lambda>(ks, space, m).
        Ok (h, ks, k\<lparr>PID_ALLOCATOR := pa, KERNEL_SPACE := space, kmm := m\<rparr>)))"

definition write_context :: "PhysPageNum \<Rightarrow> TrapContext \<Rightarrow> 'w kernel \<Rightarrow> 'w kernel" where
  "write_context ppn c k = k\<lparr>kmm := (kmm k)\<lparr>mem := tc_write ppn c (mem (kmm k))\<rparr>\<rparr>"

definition set_context_word :: "PhysPageNum \<Rightarrow> nat \<Rightarrow> usize \<Rightarrow> 'w kernel \<Rightarrow> 'w kernel" where
  "set_context_word ppn i w k = k\<lparr>kmm := (kmm k)\<lparr>mem := tc_set ppn i w (mem (kmm k))\<rparr>\<rparr>"

definition app_context :: "params \<Rightarrow> usize \<Rightarrow> usize \<Rightarrow> KernelStack \<Rightarrow> 'w kernel \<Rightarrow> TrapContext" where
  "app_context P entry user_sp ks k =
     app_init_context (user_sstatus P) entry user_sp (ms_token (KERNEL_SPACE k)) (ks_get_top ks) (trap_handler_addr P)"

text \<open>\<open>TaskControlBlock::new\<close> with the \<open>Arc::new\<close> of its one caller.\<close>

definition tcb_new :: "params \<Rightarrow> u8 list \<Rightarrow> 'w kernel \<Rightarrow> (tid \<times> 'w kernel) res" where
  "tcb_new P elf_data k =
     bindr (from_elf (parse_elf P) (tramp_pa P) elf_data (kmm k)) (\<lambda>(ms, user_sp, entry, m).
     bindr (trap_cx_frame ms (mem m)) (\<lambda>cx.
     bindr (pid_and_stack (k\<lparr>kmm := m\<rparr>)) (\<lambda>(h, ks, k).
       Ok (alloc_task (tcb_initial (trap_return_addr P) h ks cx user_sp ms None standard_fds)
             (write_context cx (app_context P entry user_sp ks k) k)))))"

text \<open>Assigning the new address space drops the old one.\<close>

definition tcb_exec :: "params \<Rightarrow> tid \<Rightarrow> u8 list \<Rightarrow> 'w kernel \<Rightarrow> 'w kernel res" where
  "tcb_exec P t elf_data k =
     bindr (from_elf (parse_elf P) (tramp_pa P) elf_data (kmm k)) (\<lambda>(ms, user_sp, entry, m).
     bindr (trap_cx_frame ms (mem m)) (\<lambda>cx.
     bindr (get_task t k) (\<lambda>b.
     bindr (drop_memory_set (memory_set b) m) (\<lambda>m.
     let k = (put_task t (b\<lparr>memory_set := ms, trap_cx_ppn := cx\<rparr>) k)\<lparr>kmm := m\<rparr> in
       Ok (write_context cx (app_context P entry user_sp (kernel_stack b) k) k)))))"

definition tcb_fork :: "params \<Rightarrow> tid \<Rightarrow> 'w kernel \<Rightarrow> (tid \<times> 'w kernel) res" where
  "tcb_fork P t k =
     bindr (get_task t k) (\<lambda>b.
     bindr (from_existed_user (tramp_pa P) (memory_set b) (kmm k)) (\<lambda>(ms, m).
     bindr (trap_cx_frame ms (mem m)) (\<lambda>cx.
     bindr (pid_and_stack (k\<lparr>kmm := m\<rparr>)) (\<lambda>(h, ks, k).
     case alloc_task (tcb_initial (trap_return_addr P) h ks cx (base_size b) ms (Some t) (fd_table b)) k of (c, k) \<Rightarrow>
     bindr (modify_task t (\<lambda>b. b\<lparr>children := children b @ [c]\<rparr>) k) (\<lambda>k.
       Ok (c, set_context_word cx KERNEL_SP (ks_get_top ks) k))))))"

definition tcb_spawn :: "params \<Rightarrow> tid \<Rightarrow> u8 list \<Rightarrow> 'w kernel \<Rightarrow> (tid \<times> 'w kernel) res" where
  "tcb_spawn P t elf_data k =
     bindr (pid_and_stack k) (\<lambda>(h, ks, k).
     bindr (from_elf (parse_elf P) (tramp_pa P) elf_data (kmm k)) (\<lambda>(ms, user_sp, entry, m).
     bindr (trap_cx_frame ms (mem m)) (\<lambda>cx.
     case alloc_task (tcb_initial (trap_return_addr P) h ks cx user_sp ms (Some t) standard_fds) (k\<lparr>kmm := m\<rparr>) of (c, k) \<Rightarrow>
     bindr (modify_task t (\<lambda>b. b\<lparr>children := children b @ [c]\<rparr>) k) (\<lambda>k.
       Ok (c, write_context cx (app_context P entry user_sp ks k) k)))))"

end
