(* ===== verification/Scheduler.thy ===== *)
theory Scheduler
  imports Kernel MemorySetInv BlockFile
begin

text \<open>
  The stride scheduler of \<open>src/os/src/task/manager.rs\<close>: \<open>fetch\<close> takes the first task with the smallest
  stride out of the ready queue and advances its stride, and so every task that is ready runs again
  after a bounded number of yields, as long as no stride wraps around and no priority is above
  \<open>BIG_STRIDE\<close>. A priority above it makes the advance 0, and such a task can keep the processor.
\<close>

section \<open>Blocks that are there\<close>

definition valid_task :: "'w kernel \<Rightarrow> tid \<Rightarrow> bool" where
  "valid_task k t \<longleftrightarrow> t < length (tcbs k) \<and> tcbs k ! t \<noteq> None"

definition tcb_of :: "'w kernel \<Rightarrow> tid \<Rightarrow> TaskControlBlock" where
  "tcb_of k t = the (tcbs k ! t)"

abbreviation stride_of :: "'w kernel \<Rightarrow> tid \<Rightarrow> usize" where
  "stride_of k t \<equiv> task_stride (tcb_of k t)"

abbreviation pass_of :: "'w kernel \<Rightarrow> tid \<Rightarrow> usize" where
  "pass_of k t \<equiv> BIG_STRIDE div task_priority (tcb_of k t)"

lemma get_task_valid: "valid_task k t \<Longrightarrow> get_task t k = Ok (tcb_of k t)"
  by (auto simp: get_task_def valid_task_def tcb_of_def)

lemma get_task_eq_Ok: "get_task t k = Ok b \<longleftrightarrow> valid_task k t \<and> b = tcb_of k t"
  by (auto simp: get_task_def valid_task_def tcb_of_def)

lemma valid_task_cong [simp]:
  "valid_task (put_task u b k) t \<longleftrightarrow> valid_task k t \<or> t = u \<and> t < length (tcbs k)"
  "valid_task (k\<lparr>ready_queue := q\<rparr>) t \<longleftrightarrow> valid_task k t"
  "valid_task (k\<lparr>current := c\<rparr>) t \<longleftrightarrow> valid_task k t"
  "valid_task (add_task u k) t \<longleftrightarrow> valid_task k t"
  by (cases "t = u"; auto simp: valid_task_def put_task_def add_task_def)+

lemma tcb_of_update [simp]:
  "valid_task k u \<Longrightarrow> tcb_of (put_task u b k) t = (if t = u then b else tcb_of k t)"
  "tcb_of (k\<lparr>ready_queue := q\<rparr>) t = tcb_of k t" "tcb_of (k\<lparr>current := c\<rparr>) t = tcb_of k t"
  "tcb_of (add_task u k) t = tcb_of k t"
  by (auto simp: valid_task_def tcb_of_def put_task_def add_task_def)

lemma put_task_fields [simp]:
  "ready_queue (put_task t b k) = ready_queue k" "current (put_task t b k) = current k"
  "INITPROC (put_task t b k) = INITPROC k"
  by (simp_all add: put_task_def)

section \<open>The search\<close>

text \<open>The first position of the smallest value.\<close>

definition first_min :: "('a \<Rightarrow> 'b::linorder) \<Rightarrow> 'a list \<Rightarrow> nat \<Rightarrow> bool" where
  "first_min f xs i \<longleftrightarrow> i < length xs \<and> (\<forall>j < length xs. f (xs ! i) \<le> f (xs ! j)) \<and> (\<forall>j < i. f (xs ! i) < f (xs ! j))"

lemma first_min_0: "first_min f (x # xs) 0 \<longleftrightarrow> (\<forall>y \<in> set xs. f x \<le> f y)"
  by (auto simp: first_min_def less_Suc_eq_0_disj all_set_conv_all_nth)

lemma first_min_Suc: "first_min f (x # xs) (Suc i) \<longleftrightarrow> first_min f xs i \<and> f (xs ! i) < f x"
  by (auto simp: first_min_def less_Suc_eq_0_disj)

lemma first_min_le: "first_min f xs i \<Longrightarrow> y \<in> set xs \<Longrightarrow> f (xs ! i) \<le> f y"
  by (auto simp: first_min_def in_set_conv_nth)

lemma fetch_loop_ok:
  assumes "\<And>t. t \<in> set ts \<Longrightarrow> valid_task k t"
  shows "returns (fetch_loop (enumerate n ts) m best k) (\<lambda>r.
    if \<forall>t \<in> set ts. m \<le> stride_of k t then r = best
    else \<exists>i. r = n + i \<and> first_min (stride_of k) ts i \<and> stride_of k (ts ! i) < m)"
  using assms
proof (induction ts arbitrary: n m best)
  case Nil
  then show ?case by simp
next
  case (Cons t ts)
  let ?s = "stride_of k" and ?m' = "min (stride_of k t) m"
  have g: "get_task t k = Ok (tcb_of k t)" using Cons.prems by (simp add: get_task_valid)
  have IH: "returns (fetch_loop (enumerate (Suc n) ts) m' best' k) (\<lambda>r.
    if \<forall>t \<in> set ts. m' \<le> ?s t then r = best'
    else \<exists>i. r = Suc n + i \<and> first_min ?s ts i \<and> ?s (ts ! i) < m')" for m' best'
    by (rule Cons.IH) (use Cons.prems in auto)
  show ?case
  proof (cases "?s t < m")
    case True
    show ?thesis
    proof (cases "\<forall>u \<in> set ts. ?s t \<le> ?s u")
      case low: True
      show ?thesis using IH [of "?s t" n] True low
        by (auto simp: g first_min_0 elim!: returns_mono)
    next
      case False
      show ?thesis using IH [of "?s t" n] True False
        by (auto simp: g first_min_Suc elim!: returns_mono intro!: exI [of _ "Suc _"])
    qed
  next
    case False
    then have "m \<le> ?s t" by simp
    then show ?thesis using IH [of m best] 
      by (auto simp: g first_min_Suc elim!: returns_mono split: if_splits intro!: exI [of _ "Suc _"])
  qed
qed

text \<open>What \<open>fetch\<close> does with a queue of valid tasks.\<close>

definition fetched :: "'w kernel \<Rightarrow> nat \<Rightarrow> 'w kernel" where
  "fetched k i = (let t = ready_queue k ! i; b = tcb_of k t in
     (put_task t (b\<lparr>task_stride := task_stride b + BIG_STRIDE div task_priority b\<rparr>) k)\<lparr>ready_queue := remove_nth i (ready_queue k)\<rparr>)"

lemma fetch_task_ok:
  assumes "ready_queue k \<noteq> []" and v: "\<And>t. t \<in> set (ready_queue k) \<Longrightarrow> valid_task k t \<and> task_priority (tcb_of k t) \<noteq> 0"
  shows "returns (fetch_task k) (\<lambda>(t, k'). \<exists>i. first_min (stride_of k) (ready_queue k) i \<and> t = ready_queue k ! i \<and> k' = fetched k i)"
proof -
  have "returns (fetch_loop (enumerate 0 (ready_queue k)) 0xffffffffffffffff 0 k) (first_min (stride_of k) (ready_queue k))"
  proof (rule returns_mono [OF fetch_loop_ok])
    fix r assume r: "if \<forall>t \<in> set (ready_queue k). 0xffffffffffffffff \<le> stride_of k t then r = 0
      else \<exists>i. r = 0 + i \<and> first_min (stride_of k) (ready_queue k) i \<and> stride_of k (ready_queue k ! i) < 0xffffffffffffffff"
    have top: "x \<le> 0xffffffffffffffff" for x :: usize
    proof -
      have "(0xffffffffffffffff :: usize) = - 1" by simp
      then show ?thesis by (metis word_n1_ge)
    qed
    show "first_min (stride_of k) (ready_queue k) r"
    proof (cases "\<forall>t \<in> set (ready_queue k). 0xffffffffffffffff \<le> stride_of k t")
      case True
      then have "stride_of k t = 0xffffffffffffffff" if "t \<in> set (ready_queue k)" for t using that top by (simp add: antisym)
      then show ?thesis using r True assms(1) by (simp add: first_min_def)
    next
      case False
      then show ?thesis using r unfolding if_not_P [OF False] by auto
    qed
  qed (use v in simp)
  then obtain i where i: "fetch_loop (enumerate 0 (ready_queue k)) 0xffffffffffffffff 0 k = Ok i" "first_min (stride_of k) (ready_queue k) i"
    by (auto simp: returns_def)
  let ?t = "ready_queue k ! i"
  have lt: "i < length (ready_queue k)" using i(2) by (simp add: first_min_def)
  then have t: "valid_task k ?t" "task_priority (tcb_of k ?t) \<noteq> 0" using v by simp_all
  show ?thesis using i lt t
    by (auto simp: fetch_task_def indexr_def get_task_valid update_stride_def fetched_def Let_def)
qed

section \<open>Yielding\<close>

text \<open>The tasks that want to run: those in the queue and the current one.\<close>

definition pool :: "'w kernel \<Rightarrow> tid set" where
  "pool k = set (ready_queue k) \<union> set_option (current k)"

text \<open>All of them are there and their priorities are in range.\<close>

definition pool_ok :: "'w kernel \<Rightarrow> bool" where
  "pool_ok k \<longleftrightarrow> current k \<noteq> None \<and> (\<forall>t \<in> pool k. valid_task k t \<and> task_priority (tcb_of k t) \<noteq> 0)"

lemma set_remove_nth: "i < length xs \<Longrightarrow> insert (xs ! i) (set (remove_nth i xs)) = set xs"
  by (metis remove_nth_def id_take_nth_drop list.simps(15) set_append Un_insert_right)

text \<open>One yield: a task with the smallest stride becomes current and its stride advances.\<close>

lemma yield_ok:
  assumes ok: "pool_ok k"
  shows "returns (suspend_current_and_run_next r now k) (\<lambda>k'. \<exists>t \<in> pool k. current k' = Some t \<and> pool k' = pool k \<and> pool_ok k' \<and>
    (\<forall>u \<in> pool k. stride_of k t \<le> stride_of k u) \<and>
    (\<forall>u \<in> pool k. task_priority (tcb_of k' u) = task_priority (tcb_of k u) \<and>
       stride_of k' u = (if u = t then stride_of k u + pass_of k u else stride_of k u)))"
proof -
  obtain c where c: "current k = Some c" using ok by (auto simp: pool_ok_def)
  have vc: "valid_task k c" using ok c by (simp add: pool_ok_def pool_def)
  define k1 where "k1 = add_task c (put_task c ((tcb_of k c)\<lparr>task_status := Ready, resume := Some r\<rparr>) (k\<lparr>current := None\<rparr>))"
  have k1: "ready_queue k1 = ready_queue k @ [c]" "\<And>u. valid_task k1 u = valid_task k u"
      "\<And>u. stride_of k1 u = stride_of k u" "\<And>u. task_priority (tcb_of k1 u) = task_priority (tcb_of k u)" "current k1 = None"
    using vc by (auto simp: k1_def add_task_def valid_task_def put_task_def tcb_of_def nth_list_update split: if_splits)
  have q: "set (ready_queue k1) = pool k" by (auto simp: k1 pool_def c)
  have "returns (fetch_task k1) (\<lambda>(t, k'). \<exists>i. first_min (stride_of k1) (ready_queue k1) i \<and> t = ready_queue k1 ! i \<and> k' = fetched k1 i)"
    by (rule fetch_task_ok) (use ok q in \<open>auto simp: k1 pool_ok_def\<close>)
  then obtain i where i: "fetch_task k1 = Ok (ready_queue k1 ! i, fetched k1 i)" "first_min (stride_of k1) (ready_queue k1) i"
    by (auto simp: returns_def)
  let ?t = "ready_queue k1 ! i"
  have t: "i < length (ready_queue k1)" "?t \<in> pool k" using i(2) q by (auto simp: first_min_def)
  then have vt: "valid_task k1 ?t" using ok by (simp add: k1 pool_ok_def)
  define k2 where "k2 = fetched k1 i"
  have k2: "ready_queue k2 = remove_nth i (ready_queue k1)" "\<And>u. valid_task k2 u = valid_task k1 u"
      "\<And>u. task_priority (tcb_of k2 u) = task_priority (tcb_of k1 u)"
      "\<And>u. stride_of k2 u = (if u = ?t then stride_of k1 u + pass_of k1 u else stride_of k1 u)"
    using vt by (auto simp: k2_def fetched_def Let_def)
  define b where "b = (let b = (tcb_of k2 ?t)\<lparr>task_status := Running\<rparr> in
    if task_begin_time b = 0 then b\<lparr>task_begin_time := milliseconds (get_time_us now)\<rparr> else b)"
  have b: "task_stride b = stride_of k2 ?t" "task_priority b = task_priority (tcb_of k2 ?t)" by (simp_all add: b_def Let_def)
  define k3 where "k3 = (put_task ?t b k2)\<lparr>current := Some ?t\<rparr>"
  have k3: "ready_queue k3 = remove_nth i (ready_queue k1)" "current k3 = Some ?t" "\<And>u. valid_task k3 u = valid_task k u"
      "\<And>u. task_priority (tcb_of k3 u) = task_priority (tcb_of k u)"
      "\<And>u. stride_of k3 u = (if u = ?t then stride_of k u + pass_of k u else stride_of k u)"
    using vt by (auto simp: k3_def k2 k1(2-4) b)
  have run: "suspend_current_and_run_next r now k = Ok k3"
    using vc vt i(1) k2(2)
    by (simp add: suspend_current_and_run_next_def c modify_task_def get_task_valid run_tasks_def k1_def [symmetric] k2_def [symmetric] b_def k3_def Let_def)
  have "pool k3 = pool k" using set_remove_nth [OF t(1)] q by (auto simp: pool_def k3(1,2))
  then have "pool_ok k3" using ok by (simp add: pool_ok_def k3(2-4))
  moreover have "\<forall>u \<in> pool k. stride_of k ?t \<le> stride_of k u" using first_min_le [OF i(2)] q by (simp add: k1(3))
  ultimately show ?thesis using run t(2) \<open>pool k3 = pool k\<close> k3 by auto
qed

section \<open>Every task gets its turn\<close>

text \<open>How far the other tasks may still run ahead of \<open>t\<close>.\<close>

definition wait_bound :: "'w kernel \<Rightarrow> tid \<Rightarrow> nat" where
  "wait_bound k t = (\<Sum>u \<in> pool k. unat (stride_of k t) + 1 - unat (stride_of k u))"

definition priorities_bounded :: "'w kernel \<Rightarrow> bool" where
  "priorities_bounded k \<longleftrightarrow> (\<forall>t \<in> pool k. task_priority (tcb_of k t) \<le> BIG_STRIDE)"

lemma pass_bounds:
  assumes "p \<noteq> (0 :: usize)" and "p \<le> BIG_STRIDE"
  shows "1 \<le> unat (BIG_STRIDE div p)" and "unat (BIG_STRIDE div p) \<le> unat BIG_STRIDE"
proof -
  have "0 < unat p" "unat p \<le> unat BIG_STRIDE" using assms by (simp_all add: word_le_nat_alt unat_gt_0)
  then show "1 \<le> unat (BIG_STRIDE div p)" "unat (BIG_STRIDE div p) \<le> unat BIG_STRIDE"
    by (simp_all add: unat_div div_greater_zero_iff Suc_le_eq)
qed

lemma yield_progress:
  assumes ok: "pool_ok k" and t: "t \<in> pool k" and pb: "priorities_bounded k" and room: "unat (stride_of k t) + unat BIG_STRIDE < 2 ^ 64"
  shows "returns (suspend_current_and_run_next r now k) (\<lambda>k'. current k' = Some t \<or>
    pool_ok k' \<and> pool k' = pool k \<and> priorities_bounded k' \<and> stride_of k' t = stride_of k t \<and> wait_bound k' t < wait_bound k t)"
proof (rule returns_mono [OF yield_ok [OF ok]], elim bexE conjE)
  fix k' c
  assume c: "c \<in> pool k" "current k' = Some c" "pool k' = pool k" "pool_ok k'" "\<forall>u \<in> pool k. stride_of k c \<le> stride_of k u"
    and s: "\<forall>u \<in> pool k. task_priority (tcb_of k' u) = task_priority (tcb_of k u) \<and>
       stride_of k' u = (if u = c then stride_of k u + pass_of k u else stride_of k u)"
  show "current k' = Some t \<or> pool_ok k' \<and> pool k' = pool k \<and> priorities_bounded k' \<and> stride_of k' t = stride_of k t \<and> wait_bound k' t < wait_bound k t"
  proof (cases "c = t")
    case False
    have p: "task_priority (tcb_of k c) \<noteq> 0" "task_priority (tcb_of k c) \<le> BIG_STRIDE" using ok pb c(1) by (auto simp: pool_ok_def priorities_bounded_def)
    have le: "unat (stride_of k c) \<le> unat (stride_of k t)" using c(5) t by (simp add: word_le_nat_alt)
    have adv: "unat (stride_of k' c) = unat (stride_of k c) + unat (pass_of k c)"
      using s c(1) le room pass_bounds [OF p] by (simp add: unat_word_ariths)
    have st: "stride_of k' t = stride_of k t" using s t False by simp
    have "wait_bound k' t < wait_bound k t"
      unfolding wait_bound_def c(3) st
    proof (rule sum_strict_mono_ex1)
      show "finite (pool k)" by (simp add: pool_def)
      show "\<forall>u \<in> pool k. unat (stride_of k t) + 1 - unat (stride_of k' u) \<le> unat (stride_of k t) + 1 - unat (stride_of k u)"
        using s adv by (auto intro!: diff_le_mono2)
      have "unat (stride_of k t) + 1 - unat (stride_of k' c) < unat (stride_of k t) + 1 - unat (stride_of k c)"
        using adv le pass_bounds(1) [OF p] by linarith
      then show "\<exists>u \<in> pool k. unat (stride_of k t) + 1 - unat (stride_of k' u) < unat (stride_of k t) + 1 - unat (stride_of k u)"
        using c(1) by blast
    qed
    then show ?thesis using c(3,4) st s pb by (simp add: priorities_bounded_def)
  qed (use c(2) in simp)
qed

abbreviation yield_each :: "usize list \<Rightarrow> 'w kernel \<Rightarrow> 'w kernel res" where
  "yield_each \<equiv> for_each (suspend_current_and_run_next YieldReturn)"

lemma turn_comes:
  assumes "pool_ok k" and "t \<in> pool k" and "priorities_bounded k" and "unat (stride_of k t) + unat BIG_STRIDE < 2 ^ 64"
    and "wait_bound k t < length nows"
  shows "\<exists>n. 0 < n \<and> n \<le> length nows \<and> returns (yield_each (take n nows) k) (\<lambda>k'. current k' = Some t)"
  using assms
proof (induction nows arbitrary: k)
  case Nil
  then show ?case by simp
next
  case (Cons now nows)
  from yield_progress [OF Cons.prems(1-4), of YieldReturn now]
  obtain k' where k': "suspend_current_and_run_next YieldReturn now k = Ok k'"
    and or: "current k' = Some t \<or> pool_ok k' \<and> pool k' = pool k \<and> priorities_bounded k' \<and> stride_of k' t = stride_of k t \<and> wait_bound k' t < wait_bound k t"
    by (auto simp: returns_def)
  show ?case
  proof (cases "current k' = Some t")
    case True
    then show ?thesis by (intro exI [of _ 1]) (simp add: k')
  next
    case False
    then have "\<exists>n. 0 < n \<and> n \<le> length nows \<and> returns (yield_each (take n nows) k') (\<lambda>k'. current k' = Some t)"
      using or Cons.prems by (intro Cons.IH) auto
    then obtain n where "n \<le> length nows" "returns (yield_each (take n nows) k') (\<lambda>k'. current k' = Some t)" by blast
    then show ?thesis by (intro exI [of _ "Suc n"]) (simp add: k')
  qed
qed

section \<open>A task that keeps the processor\<close>

lemma hog_keeps:
  fixes k :: "'w kernel"
  assumes "pool_ok k" and "current k = Some c" and "BIG_STRIDE < task_priority (tcb_of k c)"
    and "\<And>u. u \<in> pool k \<Longrightarrow> u \<noteq> c \<Longrightarrow> stride_of k c < stride_of k u"
  shows "returns (yield_each nows k) (\<lambda>k'. current k' = Some c)"
  using assms
proof (induction nows arbitrary: k)
  case Nil
  then show ?case by simp
next
  case (Cons now nows)
  have z: "pass_of k c = 0"
    using Cons.prems(3) by (simp add: word_less_nat_alt unat_eq_0 [symmetric] unat_div)
  have cp: "c \<in> pool k" using Cons.prems(2) by (simp add: pool_def)
  show ?case
  proof (simp, rule returns_mono [OF yield_ok [OF Cons.prems(1)]], elim bexE conjE)
    fix k' :: "'w kernel" and t
    assume t: "t \<in> pool k" "current k' = Some t" "pool k' = pool k" "pool_ok k'" "\<forall>u \<in> pool k. stride_of k t \<le> stride_of k u"
      and s: "\<forall>u \<in> pool k. task_priority (tcb_of k' u) = task_priority (tcb_of k u) \<and>
         stride_of k' u = (if u = t then stride_of k u + pass_of k u else stride_of k u)"
    have "t = c" using t(5) Cons.prems(4) [OF t(1)] cp by (metis leD)
    show "returns (yield_each nows k') (\<lambda>k'. current k' = Some c)"
      by (rule Cons.IH) (use \<open>t = c\<close> t s z cp Cons.prems(3,4) in auto)
  qed
qed

section \<open>Properties\<close>

text \<open>A small kernel to try the statements on: \<open>initproc\<close> runs, its two children are ready.\<close>

definition demo_tcb :: "usize \<Rightarrow> usize \<Rightarrow> usize \<Rightarrow> TaskControlBlock" where
  "demo_tcb pid prio strd = (tcb_initial 0 (PidHandle pid) (KernelStack pid) (PhysPageNum 0x80500) 0 demo_ms (Some 0) standard_fds)
     \<lparr>task_priority := prio, task_stride := strd\<rparr>"

definition demo_efs :: "HostFile EasyFileSystem" where
  "demo_efs = \<lparr>efs_device = block_file, inode_bitmap = bitmap_new 1 1, data_bitmap = bitmap_new 4 1,
     inode_area_start_block = 2, data_area_start_block = 5\<rparr>"

definition demo_kernel :: "usize \<Rightarrow> HostFile kernel" where
  "demo_kernel prio =
     \<lparr>kmm = demo_mm, KERNEL_SPACE = demo_ms, PID_ALLOCATOR = \<lparr>pid_current = 3, pid_recycled = []\<rparr>,
      tcbs = [Some ((demo_tcb 0 prio 3)\<lparr>parent := None, children := [1, 2], task_status := Running, resume := None\<rparr>),
              Some (demo_tcb 1 2 5), Some (demo_tcb 2 16 4)],
      ready_queue = [1, 2], current = Some 0, idle_task_cx = zero_init, INITPROC = Some 0, files = [],
      fs = manager_new demo_file, ROOT_INODE = root_inode demo_efs, console = [], mtimecmp = 0\<rparr>"

lemma demo_kernel_tcbs [simp]:
  "tcb_of (demo_kernel p) 0 = (demo_tcb 0 p 3)\<lparr>parent := None, children := [1, 2], task_status := Running, resume := None\<rparr>"
  "tcb_of (demo_kernel p) (Suc 0) = demo_tcb 1 2 5" "tcb_of (demo_kernel p) 2 = demo_tcb 2 16 4"
  "valid_task (demo_kernel p) t \<longleftrightarrow> t < 3"
  by (auto simp: tcb_of_def valid_task_def demo_kernel_def less_Suc_eq numeral_eq_Suc)

lemma demo_kernel_fields [simp]:
  "ready_queue (demo_kernel p) = [1, 2]" "current (demo_kernel p) = Some 0" "INITPROC (demo_kernel p) = Some 0"
  "task_priority (demo_tcb i p q) = p" "task_stride (demo_tcb i p q) = q"
  by (simp_all add: demo_kernel_def demo_tcb_def)

lemma demo_pool: "pool (demo_kernel p) = {0, 1, 2}"
  by (auto simp: pool_def)

text \<open>C27: \<open>TaskManager::fetch\<close>. With tasks in the ready queue it returns the one with the smallest
  stride, the first of them where there are several, takes exactly that one out of the queue without
  changing the order of the others, and advances its stride by \<open>BIG_STRIDE\<close> over its priority; no
  other task changes. On an empty queue it panics with an index out of range instead of answering
  \<open>None\<close>.\<close>

theorem fetch_takes_smallest_stride:
  assumes "\<forall>t \<in> set (ready_queue k). valid_task k t \<and> task_priority (tcb_of k t) \<noteq> 0"
  shows "if ready_queue k = [] then fetch_task k = Panic IndexOutOfBounds
    else returns (fetch_task k) (\<lambda>(t, k'). \<exists>i. first_min (stride_of k) (ready_queue k) i \<and> t = ready_queue k ! i \<and>
      ready_queue k' = remove_nth i (ready_queue k) \<and> current k' = current k \<and>
      tcb_of k' t = (tcb_of k t)\<lparr>task_stride := stride_of k t + BIG_STRIDE div task_priority (tcb_of k t)\<rparr> \<and>
      (\<forall>u. u \<noteq> t \<longrightarrow> tcb_of k' u = tcb_of k u))"
proof (cases "ready_queue k = []")
  case True
  then show ?thesis by (simp add: fetch_task_def indexr_def)
next
  case False
  have "returns (fetch_task k) (\<lambda>(t, k'). \<exists>i. first_min (stride_of k) (ready_queue k) i \<and> t = ready_queue k ! i \<and> k' = fetched k i)"
    by (rule fetch_task_ok) (use False assms in auto)
  moreover have "valid_task k (ready_queue k ! i)" if "first_min (stride_of k) (ready_queue k) i" for i
    using that assms by (simp add: first_min_def)
  ultimately show ?thesis using False by (fastforce simp: fetched_def Let_def elim!: returns_mono)
qed

theorem fetch_takes_smallest_stride_witness:
  "returns (fetch_task (demo_kernel 16)) (\<lambda>(t, k'). t = 2 \<and> ready_queue k' = [1] \<and> stride_of k' 2 = 4 + 5555555)"
proof -
  have "first_min (stride_of (demo_kernel 16)) [Suc 0, 2] i \<longleftrightarrow> i = Suc 0" for i
    by (auto simp: first_min_def less_Suc_eq All_less_Suc)
  then show ?thesis
    using fetch_takes_smallest_stride [of "demo_kernel 16"]
    by (auto simp: BIG_STRIDE_def remove_nth_def elim!: returns_mono)
qed



text \<open>C29: a priority above \<open>BIG_STRIDE\<close> starves the other tasks. \<open>sys_set_priority\<close> accepts it, the
  advance of the stride is then 0, and a current task whose stride is below all others is fetched
  again after every yield, however often it yields.\<close>

theorem large_priority_starves:
  assumes "pool_ok k" and "current k = Some c" and "BIG_STRIDE < task_priority (tcb_of k c)"
    and "\<forall>u \<in> pool k. u \<noteq> c \<longrightarrow> stride_of k c < stride_of k u"
  shows "returns (yield_each nows k) (\<lambda>k'. current k' = Some c)"
  by (rule hog_keeps) (use assms in auto)

theorem large_priority_starves_witness:
  "returns (yield_each (replicate 9 5) (demo_kernel 100000000)) (\<lambda>k'. current k' = Some 0)"
  using large_priority_starves [of "demo_kernel 100000000" 0 "replicate 9 5"]
  by (auto simp: demo_pool pool_ok_def BIG_STRIDE_def)

end
