(* ===== verification/TaskInv.thy ===== *)
theory TaskInv
  imports Scheduler
begin

text \<open>
  The invariant of the process tree and of the ready queue. Every live process but \<open>initproc\<close> is the
  child of exactly one live process, and its \<open>parent\<close> is that process; a zombie has no children; each
  process that is not a zombie is either current or in the ready queue, once; what is scheduled is
  ready to be switched to; and the pids of live processes are different and those the allocator has
  given out. The operations of \<open>src/os/src/task\<close> keep it.

  The strong count of a block follows from it, and with it what \<open>exit_current_and_run_next\<close> and
  \<open>sys_waitpid\<close> free.
\<close>

section \<open>The invariant\<close>

type_synonym tasks = "tid \<Rightarrow> TaskControlBlock option"

text \<open>The heap of control blocks as a map.\<close>

definition tasks :: "'w kernel \<Rightarrow> tasks" where
  "tasks k t = (if t < length (tcbs k) then tcbs k ! t else None)"

definition block_ok :: "TaskControlBlock \<Rightarrow> bool" where
  "block_ok b \<longleftrightarrow> task_priority b \<noteq> 0 \<and> length (task_syscall_times b) = MAX_SYSCALL_NUM \<and>
     ks_pid (kernel_stack b) = pid_val (task_pid b)"

text \<open>The tree, as the set of live processes with their children and parents; \<open>i\<close> is the root.\<close>

definition tree :: "tid \<Rightarrow> tid set \<Rightarrow> (tid \<Rightarrow> tid list) \<Rightarrow> (tid \<Rightarrow> tid option) \<Rightarrow> bool" where
  "tree i D K P \<longleftrightarrow> i \<in> D \<and> (\<forall>p. p \<notin> D \<longrightarrow> K p = []) \<and>
     (\<forall>c \<in> D - {i}. \<exists>p. P c = Some p \<and> c \<in> set (K p)) \<and>
     (\<forall>p. distinct (K p) \<and> p \<notin> set (K p) \<and> (\<forall>c \<in> set (K p). c \<in> D \<and> c \<noteq> i \<and> P c = Some p))"

definition kids :: "tasks \<Rightarrow> tid \<Rightarrow> tid list" where
  "kids M p = (case M p of Some b \<Rightarrow> children b | None \<Rightarrow> [])"

definition parents :: "tasks \<Rightarrow> tid \<Rightarrow> tid option" where
  "parents M c = (case M c of Some b \<Rightarrow> parent b | None \<Rightarrow> None)"

definition zombies :: "tasks \<Rightarrow> tid set" where
  "zombies M = {t. \<exists>b. M t = Some b \<and> task_status b = Zombie}"

definition tree_inv :: "tid \<Rightarrow> tasks \<Rightarrow> bool" where
  "tree_inv i M \<longleftrightarrow> tree i (dom M) (kids M) (parents M) \<and> i \<notin> zombies M \<and> (\<forall>t \<in> zombies M. kids M t = [])"

definition queue_inv :: "tasks \<Rightarrow> tid list \<Rightarrow> tid option \<Rightarrow> bool" where
  "queue_inv M q cur \<longleftrightarrow> distinct q \<and>
     (\<forall>t \<in> set q. \<exists>b. M t = Some b \<and> task_status b = Ready \<and> resume b \<noteq> None) \<and>
     (\<forall>t. cur = Some t \<longrightarrow> t \<notin> set q \<and> (\<exists>b. M t = Some b \<and> task_status b = Running)) \<and>
     (\<forall>t b. M t = Some b \<longrightarrow> task_status b = Zombie \<or> t \<in> set q \<or> cur = Some t)"

text \<open>Every block comes with a pid of its own, so the counter of pids is at most the number of blocks
  ever made; while that fits into a \<open>usize\<close> no pid is given out twice.\<close>

definition pids :: "tasks \<Rightarrow> tid \<Rightarrow> usize option" where
  "pids M t = map_option getpid (M t)"

definition pids_inv :: "tasks \<Rightarrow> nat \<Rightarrow> PidAllocator \<Rightarrow> bool" where
  "pids_inv M n pa \<longleftrightarrow> (n < 2 ^ 64 \<longrightarrow> unat (pid_current pa) \<le> n \<and> pid_inv pa \<and> pid_live pa = ran (pids M) \<and> inj_on (pids M) (dom M))"

definition proc_inv :: "'w kernel \<Rightarrow> bool" where
  "proc_inv k \<longleftrightarrow> (\<exists>i. INITPROC k = Some i \<and> tree_inv i (tasks k)) \<and> queue_inv (tasks k) (ready_queue k) (current k) \<and>
     (\<forall>t b. tasks k t = Some b \<longrightarrow> block_ok b) \<and> pids_inv (tasks k) (length (tcbs k)) (PID_ALLOCATOR k)"

section \<open>Changes of the tree\<close>

lemma treeD:
  assumes "tree i D K P"
  shows "i \<in> D" and "\<And>p. p \<notin> D \<Longrightarrow> K p = []" and "\<And>c. c \<in> D \<Longrightarrow> c \<noteq> i \<Longrightarrow> \<exists>p. P c = Some p \<and> c \<in> set (K p)"
    and "\<And>p. distinct (K p)" and "\<And>p. p \<notin> set (K p)"
    and "\<And>p c. c \<in> set (K p) \<Longrightarrow> c \<in> D \<and> c \<noteq> i \<and> P c = Some p"
  using assms unfolding tree_def by blast+

lemma treeI:
  assumes "i \<in> D" and "\<And>p. p \<notin> D \<Longrightarrow> K p = []" and "\<And>c. c \<in> D \<Longrightarrow> c \<noteq> i \<Longrightarrow> \<exists>p. P c = Some p \<and> c \<in> set (K p)"
    and "\<And>p. distinct (K p)" and "\<And>p. p \<notin> set (K p)"
    and "\<And>p c. c \<in> set (K p) \<Longrightarrow> c \<in> D \<and> c \<noteq> i \<and> P c = Some p"
  shows "tree i D K P"
  using assms unfolding tree_def by blast

lemma tree_unique: "tree i D K P \<Longrightarrow> c \<in> set (K p) \<Longrightarrow> c \<in> set (K q) \<Longrightarrow> p = q"
  using treeD(6) by (metis option.inject)

lemma tree_add:
  assumes "tree i D K P" and "t \<in> D" and "c \<notin> D"
  shows "tree i (insert c D) (K(t := K t @ [c])) (P(c := Some t))"
proof -
  note T = treeD [OF assms(1)]
  have c: "c \<notin> set (K p)" for p using T(6) assms(3) by blast
  have i: "c \<noteq> i" "c \<noteq> t" using T(1) assms(2,3) by blast+
  show ?thesis
  proof (rule treeI)
    fix d assume d: "d \<in> insert c D" "d \<noteq> i"
    show "\<exists>p. (P(c := Some t)) d = Some p \<and> d \<in> set ((K(t := K t @ [c])) p)"
    proof (cases "d = c")
      case False
      then obtain p where "P d = Some p" "d \<in> set (K p)" using T(3) d by blast
      then show ?thesis using False by (intro exI [of _ p]) auto
    qed auto
  next
    show "(K(t := K t @ [c])) p = []" if "p \<notin> insert c D" for p using that T(2) [of p] assms(2) by auto
    show "distinct ((K(t := K t @ [c])) p)" for p using T(4) c by auto
    show "p \<notin> set ((K(t := K t @ [c])) p)" for p using T(5) i(2) by auto
    show "d \<in> insert c D \<and> d \<noteq> i \<and> (P(c := Some t)) d = Some p" if "d \<in> set ((K(t := K t @ [c])) p)" for p d
      using that T(6) [of d p] c [of p] i by (auto split: if_splits)
  qed (use T(1) in simp)
qed

lemma tree_move:
  assumes "tree i D K P" and "t \<noteq> i"
  shows "tree i D (K(i := K i @ K t, t := [])) (\<lambda>c. if c \<in> set (K t) then Some i else P c)"
proof -
  note T = treeD [OF assms(1)]
  have dis: "set (K i) \<inter> set (K t) = {}" using tree_unique [OF assms(1)] assms(2) by blast
  show ?thesis
  proof (rule treeI)
    fix c assume "c \<in> D" "c \<noteq> i"
    then obtain p where p: "P c = Some p" "c \<in> set (K p)" using T(3) by blast
    show "\<exists>p. (if c \<in> set (K t) then Some i else P c) = Some p \<and> c \<in> set ((K(i := K i @ K t, t := [])) p)"
      using p assms(2) by (cases "c \<in> set (K t)") auto
  next
    fix p c assume "c \<in> set ((K(i := K i @ K t, t := [])) p)"
    then show "c \<in> D \<and> c \<noteq> i \<and> (if c \<in> set (K t) then Some i else P c) = Some p"
      using T(6) tree_unique [OF assms(1)] by (auto split: if_splits)
  next
    show "p \<notin> set ((K(i := K i @ K t, t := [])) p)" for p
      using T(5,6) by (auto split: if_splits)
  qed (use T(1,2,4) dis in auto)
qed

lemma tree_remove:
  assumes "tree i D K P" and "idx < length (K t)" and "K t ! idx = c" and "K c = []"
  shows "tree i (D - {c}) (K(t := remove_nth idx (K t))) (P(c := None))"
proof -
  note T = treeD [OF assms(1)]
  have c: "c \<in> set (K t)" using assms(2,3) by auto
  have s: "set (remove_nth idx (K t)) = set (K t) - {c}" "distinct (remove_nth idx (K t))"
    using T(4) [of t] assms(2,3) by (auto simp: set_remove_nth_distinct distinct_remove_nth)
  have other: "c \<notin> set (K p)" if "p \<noteq> t" for p using tree_unique [OF assms(1) c] that by blast
  show ?thesis
  proof (rule treeI)
    fix d assume "d \<in> D - {c}" "d \<noteq> i"
    then obtain p where "P d = Some p" "d \<in> set (K p)" "d \<noteq> c" using T(3) by blast
    then show "\<exists>p. (P(c := None)) d = Some p \<and> d \<in> set ((K(t := remove_nth idx (K t))) p)"
      using s(1) by (auto intro!: exI [of _ p])
  next
    fix p d assume "d \<in> set ((K(t := remove_nth idx (K t))) p)"
    then show "d \<in> D - {c} \<and> d \<noteq> i \<and> (P(c := None)) d = Some p"
      using T(6) s(1) other by (auto split: if_splits)
  next
    show "p \<notin> set ((K(t := remove_nth idx (K t))) p)" for p using T(5) s(1) by auto
    show "distinct ((K(t := remove_nth idx (K t))) p)" for p using T(4) s(2) by auto
    show "i \<in> D - {c}" using T(1) T(6) [OF c] by blast
    show "(K(t := remove_nth idx (K t))) p = []" if "p \<notin> D - {c}" for p
      using that T(2) [of p] assms(2,4) by (cases "p = t") (auto simp: remove_nth_def)
  qed
qed

section \<open>Changes of the map\<close>

lemma map_views [simp]:
  "kids (M(t \<mapsto> b)) = (kids M)(t := children b)" "kids (M(t := None)) = (kids M)(t := [])"
  "parents (M(t \<mapsto> b)) = (parents M)(t := parent b)" "parents (M(t := None)) = (parents M)(t := None)"
  "zombies (M(t \<mapsto> b)) = (if task_status b = Zombie then insert t (zombies M) else zombies M - {t})"
  "zombies (M(t := None)) = zombies M - {t}"
  "pids (M(t \<mapsto> b)) = (pids M)(t \<mapsto> getpid b)" "pids (M(t := None)) = (pids M)(t := None)"
  by (auto simp: fun_eq_iff kids_def parents_def zombies_def pids_def split: if_splits)

lemma map_views_at:
  assumes "M t = Some b"
  shows "kids M t = children b" and "parents M t = parent b" and "t \<in> zombies M \<longleftrightarrow> task_status b = Zombie" and "pids M t = Some (getpid b)"
  using assms by (simp_all add: kids_def parents_def zombies_def pids_def)

lemma dom_pids [simp]: "dom (pids M) = dom M"
  by (auto simp: pids_def)

lemma tree_inv_same:
  assumes "tree_inv i M" and "M t = Some b" and "children b' = children b" and "parent b' = parent b"
    and "task_status b' = Zombie \<longleftrightarrow> task_status b = Zombie"
  shows "tree_inv i (M(t \<mapsto> b'))"
proof -
  note v = map_views_at [of M t b, OF assms(2)]
  have same: "kids (M(t \<mapsto> b')) = kids M" "parents (M(t \<mapsto> b')) = parents M" "dom (M(t \<mapsto> b')) = dom M" "zombies (M(t \<mapsto> b')) = zombies M"
    using v assms(2-5) by (auto simp: fun_upd_idem_iff)
  show ?thesis using assms(1) unfolding tree_inv_def same .
qed

lemma tree_inv_child:
  assumes "tree_inv i M" and "M t = Some tb" and "task_status tb \<noteq> Zombie" and "M c = None"
    and "children b = []" and "parent b = Some t" and "task_status b \<noteq> Zombie"
  shows "tree_inv i (M(c \<mapsto> b, t \<mapsto> tb\<lparr>children := children tb @ [c]\<rparr>))"
proof -
  note v = map_views_at [of M t tb, OF assms(2)]
  have ct: "c \<noteq> t" using assms(2,4) by auto
  have "tree i (insert c (dom M)) ((kids M)(t := kids M t @ [c])) ((parents M)(c := Some t))"
    by (rule tree_add) (use assms(1,2,4) in \<open>auto simp: tree_inv_def\<close>)
  moreover have "(kids M)(c := [], t := kids M t @ [c]) = (kids M)(t := kids M t @ [c])"
    using assms(4) ct by (auto simp: fun_eq_iff kids_def)
  moreover have "(parents M)(c := Some t, t := parents M t) = (parents M)(c := Some t)" using ct by (auto simp: fun_eq_iff)
  moreover have "insert t (insert c (dom M)) = insert c (dom M)" using assms(2) by auto
  ultimately show ?thesis using assms(1,3,5,6,7) v ct unfolding tree_inv_def by (auto simp: fun_upd_twist)
qed

lemma tree_inv_exit:
  assumes "tree_inv i M" and "t \<noteq> i" and "dom M' = dom M" and "kids M' = (kids M)(i := kids M i @ kids M t, t := [])"
    and "parents M' = (\<lambda>c. if c \<in> set (kids M t) then Some i else parents M c)" and "zombies M' = insert t (zombies M)"
  shows "tree_inv i M'"
  using assms tree_move [of i "dom M" "kids M" "parents M" t] unfolding tree_inv_def by auto

lemma tree_inv_reap:
  assumes "tree_inv i M" and "M t = Some tb" and "idx < length (children tb)" and "children tb ! idx = c" and "c \<in> zombies M"
  shows "tree_inv i (M(t \<mapsto> tb\<lparr>children := remove_nth idx (children tb)\<rparr>, c := None))" (is "tree_inv i ?M'")
proof -
  note v = map_views_at [of M t tb, OF assms(2)]
  have tr: "tree i (dom M) (kids M) (parents M)" using assms(1) by (simp add: tree_inv_def)
  have c: "c \<in> set (kids M t)" using assms(3,4) v(1) by auto
  have ct: "c \<noteq> t" using treeD(5) [OF tr] c by blast
  have kc: "kids M c = []" using assms(1,5) by (simp add: tree_inv_def)
  have "tree i (dom M - {c}) ((kids M)(t := remove_nth idx (kids M t))) ((parents M)(c := None))"
    by (rule tree_remove [OF tr _ _ kc]) (use assms(3,4) v(1) in auto)
  moreover have "dom ?M' = dom M - {c}" using assms(2) by auto
  moreover have "kids ?M' = (kids M)(t := remove_nth idx (kids M t))" using ct kc v(1) by (simp add: fun_eq_iff)
  moreover have "parents ?M' = (parents M)(c := None)" using v(2) by (simp add: fun_eq_iff)
  moreover have t: "t \<notin> zombies M" using assms(1) c by (auto simp: tree_inv_def)
  moreover have "zombies ?M' = zombies M - {c}" using t v(3) by simp
  moreover have "\<forall>z \<in> zombies M - {c}. ((kids M)(t := remove_nth idx (kids M t))) z = []" using assms(1) t by (simp add: tree_inv_def)
  ultimately show ?thesis using assms(1) by (simp only: tree_inv_def) simp
qed

text \<open>The ready queue.\<close>

lemma queue_invD:
  assumes "queue_inv M q cur"
  shows "distinct q" and "\<And>t. t \<in> set q \<Longrightarrow> \<exists>b. M t = Some b \<and> task_status b = Ready \<and> resume b \<noteq> None"
    and "\<And>t. cur = Some t \<Longrightarrow> t \<notin> set q" and "\<And>t. cur = Some t \<Longrightarrow> \<exists>b. M t = Some b \<and> task_status b = Running"
    and "\<And>t b. M t = Some b \<Longrightarrow> task_status b = Zombie \<or> t \<in> set q \<or> cur = Some t"
  using assms unfolding queue_inv_def by blast+

lemma queue_inv_same:
  assumes "queue_inv M q cur" and "M t = Some b" and "task_status b' = task_status b" and "t \<in> set q \<longrightarrow> resume b' \<noteq> None"
  shows "queue_inv (M(t \<mapsto> b')) q cur"
  using assms unfolding queue_inv_def by auto

lemma queue_inv_suspend:
  assumes "queue_inv M q (Some t)" and "task_status b = Ready" and "resume b \<noteq> None"
  shows "queue_inv (M(t \<mapsto> b)) (q @ [t]) None"
  using assms unfolding queue_inv_def by auto

lemma queue_inv_exit:
  assumes "queue_inv M q (Some t)" and "task_status b = Zombie"
  shows "queue_inv (M(t \<mapsto> b)) q None"
  using assms unfolding queue_inv_def by auto

lemma queue_inv_run:
  assumes "queue_inv M q None" and "i < length q" and "task_status b = Running"
  shows "queue_inv (M(q ! i \<mapsto> b)) (remove_nth i q) (Some (q ! i))"
proof -
  note Q = queue_invD [OF assms(1)]
  have "set (remove_nth i q) = set q - {q ! i}" "distinct (remove_nth i q)"
    using Q(1) assms(2) by (auto simp: set_remove_nth_distinct distinct_remove_nth)
  then show ?thesis using Q(2,5) assms(3) unfolding queue_inv_def by auto
qed

lemma queue_inv_child:
  assumes "queue_inv M q cur" and "M c = None" and "task_status b = Ready" and "resume b \<noteq> None"
  shows "queue_inv (M(c \<mapsto> b)) (q @ [c]) cur"
  using assms unfolding queue_inv_def by auto

lemma queue_inv_reap:
  assumes "queue_inv M q cur" and "c \<in> zombies M"
  shows "queue_inv (M(c := None)) q cur"
  using assms unfolding queue_inv_def zombies_def by auto

text \<open>The pids.\<close>

lemma pids_inv_same:
  assumes "pids_inv M n pa" and "M t = Some b" and "getpid b' = getpid b"
  shows "pids_inv (M(t \<mapsto> b')) n pa"
proof -
  have "pids (M(t \<mapsto> b')) = pids M" using assms(2,3) by (simp add: fun_upd_idem_iff map_views_at)
  moreover have "dom (M(t \<mapsto> b')) = dom M" using assms(2) by auto
  ultimately show ?thesis using assms(1) by (simp only: pids_inv_def)
qed

lemma pids_inv_new:
  assumes "pids_inv M n pa" and "pid_alloc pa = (task_pid b, pa')" and "M c = None"
  shows "pids_inv (M(c \<mapsto> b)) (Suc n) pa'"
  unfolding pids_inv_def
proof (intro impI)
  assume n: "Suc n < 2 ^ 64"
  then have P: "unat (pid_current pa) \<le> n" "pid_inv pa" "pid_live pa = ran (pids M)" "inj_on (pids M) (dom M)"
    using assms(1) by (auto simp: pids_inv_def)
  have "unat (- 1 :: usize) = 2 ^ 64 - 1" by (simp add: unsigned_minus_1_eq_mask mask_eq_exp_minus_1)
  then have "pid_current pa \<noteq> - 1" using P(1) n by auto
  then have room: "pid_room pa" by (simp add: pid_room_def)
  from pid_alloc_contract [OF P(2) room assms(2)]
  have a: "getpid b \<notin> pid_live pa" "pid_live pa' = insert (getpid b) (pid_live pa)" "pid_inv pa'"
    by (simp_all add: getpid_def)
  have "unat (pid_current pa + 1) \<le> Suc n" using P(1) n by (simp add: unat_word_ariths)
  then have "unat (pid_current pa') \<le> Suc n" using assms(2) P(1) by (auto simp: pid_alloc_def split: if_splits)
  moreover have "pids M c = None" using assms(3) by (simp add: pids_def)
  moreover have "inj_on (pids (M(c \<mapsto> b))) (dom (M(c \<mapsto> b)))"
  proof -
    have "pids M t \<noteq> Some (getpid b)" for t using a(1) P(3) by (auto simp: ran_def)
    then have "Some (getpid b) \<notin> pids M ` (dom M - {c})" by (metis imageE)
    then show ?thesis using P(4) assms(3) by (auto simp: inj_on_fun_updI domIff)
  qed
  ultimately show "unat (pid_current pa') \<le> Suc n \<and> pid_inv pa' \<and> pid_live pa' = ran (pids (M(c \<mapsto> b))) \<and> inj_on (pids (M(c \<mapsto> b))) (dom (M(c \<mapsto> b)))"
    using a P(3) by simp
qed

lemma pids_inv_free:
  assumes "pids_inv M n pa" and "M c = Some b" and "drop_pid (task_pid b) pa = Ok pa'"
  shows "pids_inv (M(c := None)) n pa'"
  unfolding pids_inv_def
proof (intro impI)
  assume n: "n < 2 ^ 64"
  then have P: "unat (pid_current pa) \<le> n" "pid_inv pa" "pid_live pa = ran (pids M)" "inj_on (pids M) (dom M)"
    using assms(1) by (auto simp: pids_inv_def)
  have "pid_dealloc pa (getpid b) = Ok pa'" using assms(3) by (simp add: drop_pid_def getpid_def)
  from pid.dealloc_live [OF P(2) this] have "pid_inv pa'" "pid_live pa' = pid_live pa - {getpid b}" by auto
  moreover have "pid_current pa' = pid_current pa" using assms(3) by (auto simp: drop_pid_def pid_dealloc_def)
  moreover have "ran ((pids M)(c := None)) = ran (pids M) - {getpid b}"
  proof -
    have c: "pids M c = Some (getpid b)" using assms(2) by (simp add: pids_def)
    have only: "t = c" if "pids M t = Some (getpid b)" for t
      using inj_onD [OF P(4), of t c] that c by (metis domIff dom_pids option.distinct(1))
    show ?thesis
    proof (intro set_eqI iffI)
      fix x assume "x \<in> ran ((pids M)(c := None))"
      then obtain t where "t \<noteq> c" "pids M t = Some x" by (auto simp: ran_def split: if_splits)
      then show "x \<in> ran (pids M) - {getpid b}" using only [of t] by (auto simp: ran_def)
    next
      fix x assume "x \<in> ran (pids M) - {getpid b}"
      then obtain t where "pids M t = Some x" "x \<noteq> getpid b" by (auto simp: ran_def)
      moreover from this have "t \<noteq> c" using c by auto
      ultimately have "((pids M)(c := None)) t = Some x" by simp
      then show "x \<in> ran ((pids M)(c := None))" by (rule ranI)
    qed
  qed
  moreover have "inj_on ((pids M)(c := None)) (dom (M(c := None)))" using P(4) by (auto simp: inj_on_def)
  ultimately show "unat (pid_current pa') \<le> n \<and> pid_inv pa' \<and> pid_live pa' = ran (pids (M(c := None))) \<and> inj_on (pids (M(c := None))) (dom (M(c := None)))"
    using P(1,3) by simp
qed

section \<open>The heap\<close>

lemma get_task_iff: "get_task t k = Ok b \<longleftrightarrow> tasks k t = Some b"
  by (auto simp: get_task_def tasks_def)

lemma tasks_cong: "tcbs k' = tcbs k \<Longrightarrow> tasks k' = tasks k"
  by (simp add: tasks_def fun_eq_iff)

lemma tasks_fields [simp]:
  "tasks (k\<lparr>kmm := m\<rparr>) = tasks k" "tasks (k\<lparr>KERNEL_SPACE := ks\<rparr>) = tasks k" "tasks (k\<lparr>PID_ALLOCATOR := pa\<rparr>) = tasks k"
  "tasks (k\<lparr>ready_queue := q\<rparr>) = tasks k" "tasks (k\<lparr>current := c\<rparr>) = tasks k" "tasks (add_task t k) = tasks k"
  by (auto intro: tasks_cong simp: add_task_def)

lemma tasks_put:
  assumes "tasks k t = Some b"
  shows "tasks (put_task t b' k) = (tasks k)(t \<mapsto> b')"
  using assms by (auto simp: fun_eq_iff tasks_def put_task_def split: if_splits)

lemma length_put_task [simp]: "length (tcbs (put_task t b k)) = length (tcbs k)"
  by (simp add: put_task_def)

lemma put_task_pids [simp]: "PID_ALLOCATOR (put_task t b k) = PID_ALLOCATOR k"
  by (simp add: put_task_def)

lemma tasks_alloc:
  assumes "alloc_task b k = (c, k')"
  shows "tasks k' = (tasks k)(c \<mapsto> b)" and "tasks k c = None" and "length (tcbs k') = Suc (length (tcbs k))"
  using assms by (auto simp: alloc_task_def tasks_def fun_eq_iff nth_append)

text \<open>How often a process is listed as a child.\<close>

lemma child_refs_kids: "p < length (tcbs k) \<Longrightarrow> child_refs t (tcbs k ! p) = count_list (kids (tasks k) p) t"
  by (simp add: child_refs_def kids_def tasks_def split: option.split)

lemma count_list_distinct: "distinct xs \<Longrightarrow> count_list xs x = of_bool (x \<in> set xs)"
  by (induction xs) auto

lemma child_count:
  assumes "tree_inv i (tasks k)"
  shows "sum_list (map (child_refs t) (tcbs k)) = of_bool (t \<in> dom (tasks k) \<and> t \<noteq> i)"
proof -
  have tr: "tree i (dom (tasks k)) (kids (tasks k)) (parents (tasks k))" using assms by (simp add: tree_inv_def)
  note T = treeD [OF tr]
  let ?n = "length (tcbs k)" and ?A = "{p \<in> {0..<length (tcbs k)}. t \<in> set (kids (tasks k) p)}"
  have "sum_list (map (child_refs t) (tcbs k)) = (\<Sum>p = 0..<?n. of_bool (t \<in> set (kids (tasks k) p)))"
    using T(4) by (simp add: sum_list_sum_nth child_refs_kids count_list_distinct)
  also have "\<dots> = card ?A" by (simp add: of_bool_def sum.If_cases Int_def)
  also have "\<dots> = of_bool (t \<in> dom (tasks k) \<and> t \<noteq> i)"
  proof (cases "t \<in> dom (tasks k) \<and> t \<noteq> i")
    case True
    then obtain p where p: "t \<in> set (kids (tasks k) p)" using T(3) by blast
    then have n: "p < ?n" using T(2) [of p] by (cases "p \<in> dom (tasks k)") (auto simp: tasks_def split: if_splits)
    have "?A = {p}"
    proof (intro set_eqI iffI)
      fix q assume "q \<in> ?A"
      then have "t \<in> set (kids (tasks k) q)" by simp
      then show "q \<in> {p}" using tree_unique [OF tr _ p] by blast
    qed (use n p in simp)
    then show ?thesis using True by simp
  next
    case False
    then have "?A = {}" using T(6) by blast
    then show ?thesis using False by auto
  qed
  finally show ?thesis .
qed

section \<open>Kernel states\<close>

text \<open>What the invariant looks at.\<close>

definition sched_of :: "'w kernel \<Rightarrow> TaskControlBlock option list \<times> tid list \<times> tid option \<times> tid option \<times> PidAllocator" where
  "sched_of k = (tcbs k, ready_queue k, current k, INITPROC k, PID_ALLOCATOR k)"

lemma proc_inv_cong: "sched_of k' = sched_of k \<Longrightarrow> proc_inv k' = proc_inv k"
  using tasks_cong [of k' k] by (simp add: proc_inv_def sched_of_def)

lemma proc_inv_same:
  assumes "proc_inv k" and "tasks k t = Some b" and "children b' = children b" and "parent b' = parent b"
    and "task_status b' = task_status b" and "task_pid b' = task_pid b" and "block_ok b'" and "t \<in> set (ready_queue k) \<longrightarrow> resume b' \<noteq> None"
  shows "proc_inv (put_task t b' k)"
  using assms unfolding proc_inv_def
  by (auto simp: tasks_put getpid_def intro!: tree_inv_same queue_inv_same pids_inv_same)

lemma proc_invD:
  assumes "proc_inv k"
  shows "\<exists>i. INITPROC k = Some i \<and> tree_inv i (tasks k)" and "queue_inv (tasks k) (ready_queue k) (current k)"
    and "\<And>t b. tasks k t = Some b \<Longrightarrow> block_ok b" and "pids_inv (tasks k) (length (tcbs k)) (PID_ALLOCATOR k)"
  using assms by (auto simp: proc_inv_def)

lemma proc_invI:
  assumes "INITPROC k = Some i" and "tree_inv i M" and "queue_inv M q c" and "\<And>t b. M t = Some b \<Longrightarrow> block_ok b" and "pids_inv M n pa"
    and "tasks k = M" and "ready_queue k = q" and "current k = c" and "length (tcbs k) = n" and "PID_ALLOCATOR k = pa"
  shows "proc_inv k"
  using assms by (auto simp: proc_inv_def)

end
