(* ===== verification/KernelFs.thy ===== *)
theory KernelFs
  imports Kernel
begin

text \<open>
  \<open>src/os/src/fs\<close>: files as the kernel sees them. An open file is an entry of \<open>files\<close>, shared by all the
  descriptors that refer to it; the standard streams have no state. Text that is printed is appended
  to \<open>console\<close>, as its UTF-8 bytes. Reading all of a file is a loop that every round moves at least one
  byte forward in a file of fewer than \<open>2\<^sup>3\<^sup>2\<close> bytes, which is its fuel.
\<close>

section \<open>Flags\<close>

definition OF_RDONLY :: u32 where "OF_RDONLY = 0"
definition OF_WRONLY :: u32 where "OF_WRONLY = push_bit 0 1"
definition OF_RDWR :: u32 where "OF_RDWR = push_bit 1 1"
definition OF_CREATE :: u32 where "OF_CREATE = push_bit 9 1"
definition OF_TRUNC :: u32 where "OF_TRUNC = push_bit 10 1"

definition flags_from_bits :: "u32 \<Rightarrow> u32 option" where
  "flags_from_bits bits =
     (if bits AND NOT (OF_RDONLY OR OF_WRONLY OR OF_RDWR OR OF_CREATE OR OF_TRUNC) = 0 then Some bits else None)"

definition flags_contain :: "u32 \<Rightarrow> u32 \<Rightarrow> bool" where
  "flags_contain flags f \<longleftrightarrow> flags AND f = f"

definition read_write :: "u32 \<Rightarrow> bool \<times> bool" where
  "read_write flags =
     (if flags = 0 then (True, False)
      else if flags_contain flags OF_WRONLY then (False, True)
      else (True, True))"

definition SM_NULL :: u32 where "SM_NULL = 0"
definition SM_DIR :: u32 where "SM_DIR = 16384"
definition SM_FILE :: u32 where "SM_FILE = 32768"

section \<open>Open files\<close>

definition os_new :: "bool \<Rightarrow> bool \<Rightarrow> 'w Inode \<Rightarrow> 'w OSInode" where
  "os_new r w ino = \<lparr>readable = r, writable = w, os_offset = 0, os_inode = ino\<rparr>"

text \<open>\<open>Arc::new(OSInode::new(readable, writable, inode))\<close>\<close>

definition new_file :: "bool \<times> bool \<Rightarrow> 'w Inode \<Rightarrow> 'w kernel \<Rightarrow> nat \<times> 'w kernel" where
  "new_file rw ino k = (length (files k), k\<lparr>files := files k @ [os_new (fst rw) (snd rw) ino]\<rparr>)"

definition get_file :: "nat \<Rightarrow> 'w kernel \<Rightarrow> 'w OSInode res" where
  "get_file i k = indexr (files k) i"

fun read_all_loop :: "nat \<Rightarrow> 'w Inode \<Rightarrow> usize \<Rightarrow> u8 list \<Rightarrow> u8 list \<Rightarrow> 'w store \<Rightarrow> (usize \<times> u8 list \<times> 'w store) res" where
  "read_all_loop 0 ino offset buffer v s = Panic Diverges"
| "read_all_loop (Suc fuel) ino offset buffer v s =
     bindr (vfs_read_at ino offset buffer s) (\<lambda>((len, buffer), s).
       if len = 0 then Ok (offset, v, s)
       else read_all_loop fuel ino (offset + of_nat len) buffer (v @ take len buffer) s)"

definition read_all :: "nat \<Rightarrow> 'w kernel \<Rightarrow> (u8 list \<times> 'w kernel) res" where
  "read_all i k =
     bindr (get_file i k) (\<lambda>f.
     bindr (read_all_loop (2 ^ 32 + 1) (os_inode f) (os_offset f) (replicate 512 0) [] (fs k)) (\<lambda>(offset, v, s).
       Ok (v, k\<lparr>files := (files k)[i := f\<lparr>os_offset := offset\<rparr>], fs := s\<rparr>)))"

definition open_file :: "u8 list \<Rightarrow> u32 \<Rightarrow> 'w kernel \<Rightarrow> (nat option \<times> 'w kernel) res" where
  "open_file name flags k =
     (let rw = read_write flags in
      bindr (vfs_find (ROOT_INODE k) name (fs k)) (\<lambda>(found, s).
      if flags_contain flags OF_CREATE then
        case found of
          Some ino \<Rightarrow>
            bindr (vfs_clear ino s) (\<lambda>s.
            case new_file rw ino (k\<lparr>fs := s\<rparr>) of (i, k) \<Rightarrow> Ok (Some i, k))
        | None \<Rightarrow>
            bindr (vfs_create (ROOT_INODE k) name s) (\<lambda>(created, s).
            case created of
              None \<Rightarrow> Ok (None, k\<lparr>fs := s\<rparr>)
            | Some ino \<Rightarrow> (case new_file rw ino (k\<lparr>fs := s\<rparr>) of (i, k) \<Rightarrow> Ok (Some i, k)))
      else
        case found of
          None \<Rightarrow> Ok (None, k\<lparr>fs := s\<rparr>)
        | Some ino \<Rightarrow>
            bindr (if flags_contain flags OF_TRUNC then vfs_clear ino s else Ok s) (\<lambda>s.
            case new_file rw ino (k\<lparr>fs := s\<rparr>) of (i, k) \<Rightarrow> Ok (Some i, k))))"

definition link_file :: "u8 list \<Rightarrow> u8 list \<Rightarrow> 'w kernel \<Rightarrow> (isize \<times> 'w kernel) res" where
  "link_file old_name new_name k =
     bindr (vfs_find (ROOT_INODE k) old_name (fs k)) (\<lambda>(found, s).
     case found of
       Some old_inode \<Rightarrow>
         bindr (vfs_link (ROOT_INODE k) (get_ino old_inode) new_name s) (\<lambda>(r, s). Ok (r, k\<lparr>fs := s\<rparr>))
     | None \<Rightarrow> Ok (- 1, k\<lparr>fs := s\<rparr>))"

definition unlink_file :: "u8 list \<Rightarrow> 'w kernel \<Rightarrow> (isize \<times> 'w kernel) res" where
  "unlink_file name k = bindr (vfs_unlink (ROOT_INODE k) name (fs k)) (\<lambda>(r, s). Ok (r, k\<lparr>fs := s\<rparr>))"

definition print_text :: "u8 list \<Rightarrow> 'w kernel \<Rightarrow> 'w kernel" where
  "print_text txt k = k\<lparr>console := console k @ txt\<rparr>"

text \<open>ASCII text as bytes.\<close>

definition ascii :: "string \<Rightarrow> u8 list" where
  "ascii str = map (\<lambda>c. of_char c) str"

definition newline :: "u8 list" where "newline = [10]"

definition list_apps :: "'w kernel \<Rightarrow> 'w kernel res" where
  "list_apps k =
     (let k = print_text (ascii ''/**** APPS ****'' @ newline) k in
      bindr (vfs_ls (ROOT_INODE k) (fs k)) (\<lambda>(apps, s).
        Ok (print_text (ascii ''**************/'' @ newline)
              (foldl (\<lambda>k app. print_text (app @ newline) k) (k\<lparr>fs := s\<rparr>) apps))))"

section \<open>The trait \<open>File\<close>\<close>

fun file_ino :: "File \<Rightarrow> 'w kernel \<Rightarrow> u32 res" where
  "file_ino (OSFile i) k = bindr (get_file i k) (\<lambda>f. Ok (get_ino (os_inode f)))"
| "file_ino _ k = Ok 0"

text \<open>The mode is asked for twice where it is not 0.\<close>

fun file_mode :: "File \<Rightarrow> 'w kernel \<Rightarrow> (u32 \<times> 'w kernel) res" where
  "file_mode (OSFile i) k =
     bindr (get_file i k) (\<lambda>f.
     bindr (get_mode (os_inode f) (fs k)) (\<lambda>(m, s).
       if m = 0 then Ok (SM_NULL, k\<lparr>fs := s\<rparr>)
       else bindr (get_mode (os_inode f) s) (\<lambda>(m, s). Ok (if m = 1 then SM_DIR else SM_FILE, k\<lparr>fs := s\<rparr>))))"
| "file_mode _ k = Ok (SM_NULL, k)"

fun file_block :: "File \<Rightarrow> 'w kernel \<Rightarrow> (u32 \<times> usize) res" where
  "file_block (OSFile i) k =
     bindr (get_file i k) (\<lambda>f. Ok (inode_block_id (os_inode f), i_block_offset (os_inode f)))"
| "file_block _ k = Ok (0, 0)"

fun os_read_loop ::
  "user_slice list \<Rightarrow> 'w Inode \<Rightarrow> usize \<Rightarrow> usize \<Rightarrow> phys_mem \<Rightarrow> 'w store \<Rightarrow> (usize \<times> usize \<times> phys_mem \<times> 'w store) res" where
  "os_read_loop [] ino offset tot m s = Ok (offset, tot, m, s)"
| "os_read_loop ((a, n) # bs) ino offset tot m s =
     bindr (vfs_read_at ino offset (read_bytes m a n) s) (\<lambda>((read_size, buf), s).
     let m = write_bytes m a buf in
     if read_size = 0 then Ok (offset, tot, m, s)
     else os_read_loop bs ino (offset + of_nat read_size) (tot + of_nat read_size) m s)"

definition os_read :: "nat \<Rightarrow> UserBuffer \<Rightarrow> 'w kernel \<Rightarrow> (usize \<times> 'w kernel) res" where
  "os_read i buf k =
     bindr (get_file i k) (\<lambda>f.
     bindr (os_read_loop (buffers buf) (os_inode f) (os_offset f) 0 (mem (kmm k)) (fs k)) (\<lambda>(offset, tot, m, s).
       Ok (tot, k\<lparr>files := (files k)[i := f\<lparr>os_offset := offset\<rparr>], fs := s, kmm := (kmm k)\<lparr>mem := m\<rparr>\<rparr>)))"

fun os_write_loop ::
  "user_slice list \<Rightarrow> 'w Inode \<Rightarrow> usize \<Rightarrow> usize \<Rightarrow> phys_mem \<Rightarrow> 'w store \<Rightarrow> (usize \<times> usize \<times> 'w store) res" where
  "os_write_loop [] ino offset tot m s = Ok (offset, tot, s)"
| "os_write_loop ((a, n) # bs) ino offset tot m s =
     bindr (vfs_write_at ino offset (read_bytes m a n) s) (\<lambda>(write_size, s).
     bindr (assertr (write_size = n)) (\<lambda>_.
       os_write_loop bs ino (offset + of_nat write_size) (tot + of_nat write_size) m s))"

definition os_write :: "nat \<Rightarrow> UserBuffer \<Rightarrow> 'w kernel \<Rightarrow> (usize \<times> 'w kernel) res" where
  "os_write i buf k =
     bindr (get_file i k) (\<lambda>f.
     bindr (os_write_loop (buffers buf) (os_inode f) (os_offset f) 0 (mem (kmm k)) (fs k)) (\<lambda>(offset, tot, s).
       Ok (tot, k\<lparr>files := (files k)[i := f\<lparr>os_offset := offset\<rparr>], fs := s\<rparr>)))"

fun print_slices :: "user_slice list \<Rightarrow> 'w kernel \<Rightarrow> 'w kernel res" where
  "print_slices [] k = Ok k"
| "print_slices ((a, n) # bs) k =
     bindr (from_utf8 (read_bytes (mem (kmm k)) a n)) (\<lambda>txt. print_slices bs (print_text txt k))"

fun file_write :: "File \<Rightarrow> UserBuffer \<Rightarrow> 'w kernel \<Rightarrow> (usize \<times> 'w kernel) res" where
  "file_write Stdin buf k = Panic (Explicit ''Cannot write to stdin!'')"
| "file_write Stdout buf k = bindr (print_slices (buffers buf) k) (\<lambda>k. Ok (ub_len buf, k))"
| "file_write (OSFile i) buf k = os_write i buf k"

text \<open>One round of the loop of \<open>Stdin::read\<close>, with the character the console gives: on 0 the task is
  suspended and will be back here.\<close>

definition stdin_round :: "usize \<Rightarrow> usize \<Rightarrow> usize \<Rightarrow> 'w kernel \<Rightarrow> (usize option \<times> 'w kernel) res" where
  "stdin_round a c now k =
     (if c = 0 then bindr (suspend_current_and_run_next (StdinRead a) now k) (\<lambda>k. Ok (None, k))
      else Ok (Some 1, k\<lparr>kmm := (kmm k)\<lparr>mem := write_bytes (mem (kmm k)) a [ucast c]\<rparr>\<rparr>))"

text \<open>\<open>None\<close> where the task was suspended.\<close>

fun file_read :: "File \<Rightarrow> UserBuffer \<Rightarrow> usize \<Rightarrow> usize \<Rightarrow> 'w kernel \<Rightarrow> (usize option \<times> 'w kernel) res" where
  "file_read Stdin buf c now k =
     bindr (assertr (ub_len buf = 1)) (\<lambda>_.
     bindr (indexr (buffers buf) 0) (\<lambda>(a, n). stdin_round a c now k))"
| "file_read Stdout buf c now k = Panic (Explicit ''Cannot read from stdout!'')"
| "file_read (OSFile i) buf c now k = bindr (os_read i buf k) (\<lambda>(n, k). Ok (Some n, k))"

end
