(* ===== verification/Syscall.thy ===== *)
theory Syscall
  imports KernelFs
begin

text \<open>
  \<open>src/os/src/syscall\<close> and \<open>src/os/src/trap/mod.rs\<close>: the system calls, their dispatcher, the trap handler
  and the return to user mode. A call answers \<open>None\<close> where it has switched to another task instead of
  returning; the task that continues is then current, and \<open>resume_current\<close> carries on where it had
  been stopped. \<open>now\<close> is the time register and \<open>c\<close> what the console would give. The texts that the
  kernel itself logs are left out.
\<close>

section \<open>Processes\<close>

definition sys_exit :: "i32 \<Rightarrow> usize \<Rightarrow> 'w kernel \<Rightarrow> (isize option \<times> 'w kernel) res" where
  "sys_exit code now k = bindr (exit_current_and_run_next code now k) (\<lambda>k. Ok (None, k))"

definition sys_yield :: "usize \<Rightarrow> 'w kernel \<Rightarrow> (isize option \<times> 'w kernel) res" where
  "sys_yield now k = bindr (suspend_current_and_run_next YieldReturn now k) (\<lambda>k. Ok (None, k))"

definition sys_getpid :: "'w kernel \<Rightarrow> (isize \<times> 'w kernel) res" where
  "sys_getpid k = bindr (current_block k) (\<lambda>(_, b). Ok (getpid b, k))"

text \<open>A new task returns 0 from its system call and joins the ready queue.\<close>

definition start_child :: "tid \<Rightarrow> 'w kernel \<Rightarrow> (isize \<times> 'w kernel) res" where
  "start_child c k =
     bindr (get_task c k) (\<lambda>b.
       Ok (getpid b, add_task c (set_context_word (trap_cx_ppn b) REG_A0 0 k)))"

definition sys_fork :: "params \<Rightarrow> 'w kernel \<Rightarrow> (isize \<times> 'w kernel) res" where
  "sys_fork P k =
     bindr (unwrap (current k)) (\<lambda>t.
     bindr (tcb_fork P t k) (\<lambda>(c, k). start_child c k))"

definition user_str :: "usize \<Rightarrow> 'w kernel \<Rightarrow> u8 list res" where
  "user_str ptr k = bindr (current_user_token k) (\<lambda>tok. translated_str tok ptr (mem (kmm k)))"

definition sys_exec :: "params \<Rightarrow> usize \<Rightarrow> 'w kernel \<Rightarrow> (isize \<times> 'w kernel) res" where
  "sys_exec P path k =
     bindr (user_str path k) (\<lambda>path.
     bindr (open_file path OF_RDONLY k) (\<lambda>(app, k).
     case app of
       Some i \<Rightarrow>
         bindr (read_all i k) (\<lambda>(all_data, k).
         bindr (unwrap (current k)) (\<lambda>t.
         bindr (tcb_exec P t all_data k) (\<lambda>k. Ok (0, k))))
     | None \<Rightarrow> Ok (- 1, k)))"

text \<open>The pid is compared as a \<open>usize\<close>; -1 stands for any child.\<close>

definition pid_matches :: "isize \<Rightarrow> TaskControlBlock \<Rightarrow> bool" where
  "pid_matches pid b \<longleftrightarrow> pid = - 1 \<or> pid = getpid b"

fun get_tasks :: "tid list \<Rightarrow> 'w kernel \<Rightarrow> TaskControlBlock list res" where
  "get_tasks [] k = Ok []"
| "get_tasks (t # ts) k = bindr (get_task t k) (\<lambda>b. bindr (get_tasks ts k) (\<lambda>bs. Ok (b # bs)))"

text \<open>The local variable holds one more \<open>Arc\<close> of the child than \<open>strong_count\<close> counts.\<close>

definition sys_waitpid :: "isize \<Rightarrow> usize \<Rightarrow> 'w kernel \<Rightarrow> (isize \<times> 'w kernel) res" where
  "sys_waitpid pid exit_code_ptr k =
     bindr (current_block k) (\<lambda>(t, b).
     bindr (get_tasks (children b) k) (\<lambda>bs.
     if \<not> (\<exists>p \<in> set bs. pid_matches pid p) then Ok (- 1, k)
     else case find_index (\<lambda>p. is_zombie p \<and> pid_matches pid p) bs of
       Some idx \<Rightarrow>
         (let c = children b ! idx; child = bs ! idx;
              k = put_task t (b\<lparr>children := remove_nth idx (children b)\<rparr>) k in
          bindr (assertr (strong_count c k + 1 = 1)) (\<lambda>_.
          bindr (translated_refmut (get_user_token b) exit_code_ptr (mem (kmm k))) (\<lambda>pa.
          let k = k\<lparr>kmm := (kmm k)\<lparr>mem := write_bytes (mem (kmm k)) (pa_val pa) (le_bytes 4 (exit_code child))\<rparr>\<rparr> in
          bindr (release [c] k) (\<lambda>k. Ok (getpid child, k)))))
     | None \<Rightarrow> Ok (- 2, k)))"

text \<open>\<open>for dst in dsts { dst.copy_from_slice(&src) }\<close>\<close>

fun copy_to_slices :: "u8 list \<Rightarrow> user_slice list \<Rightarrow> phys_mem \<Rightarrow> phys_mem res" where
  "copy_to_slices src [] m = Ok m"
| "copy_to_slices src ((a, n) # dsts) m =
     (if n = length src then copy_to_slices src dsts (write_bytes m a src) else Panic SliceLengthMismatch)"

definition copy_to_user :: "u8 list \<Rightarrow> user_slice list \<Rightarrow> 'w kernel \<Rightarrow> 'w kernel res" where
  "copy_to_user src dsts k =
     bindr (copy_to_slices src dsts (mem (kmm k))) (\<lambda>m. Ok (k\<lparr>kmm := (kmm k)\<lparr>mem := m\<rparr>\<rparr>))"

definition user_buffer :: "usize \<Rightarrow> usize \<Rightarrow> 'w kernel \<Rightarrow> user_slice list res" where
  "user_buffer ptr len k =
     bindr (current_user_token k) (\<lambda>tok. translated_byte_buffer tok ptr len (mem (kmm k)))"

record TimeVal =
  sec :: usize
  usec :: usize

definition time_val :: "usize \<Rightarrow> TimeVal" where
  "time_val us = \<lparr>sec = us div 1000000, usec = us mod 1000000\<rparr>"

definition sys_get_time :: "usize \<Rightarrow> usize \<Rightarrow> 'w kernel \<Rightarrow> (isize \<times> 'w kernel) res" where
  "sys_get_time ts now k =
     (let us = get_time_us now in
      bindr (user_buffer ts 16 k) (\<lambda>dsts.
      bindr (copy_to_user (store_words 8 [sec (time_val us), usec (time_val us)]) dsts k) (\<lambda>k. Ok (0, k))))"

text \<open>\<open>size_of::<TaskInfo>()\<close> is 2016.\<close>

definition sys_task_info :: "params \<Rightarrow> usize \<Rightarrow> usize \<Rightarrow> 'w kernel \<Rightarrow> (isize \<times> 'w kernel) res" where
  "sys_task_info P ti now k =
     (let ms = milliseconds (get_time_us now) in
      bindr (user_buffer ti 2016 k) (\<lambda>dsts.
      bindr (current_syscall_times k) (\<lambda>times.
      bindr (current_begin_time k) (\<lambda>begin_time.
      bindr (copy_to_user (task_info_bytes P Running times (ms - begin_time)) dsts k) (\<lambda>k. Ok (0, k))))))"

definition sys_set_priority :: "isize \<Rightarrow> 'w kernel \<Rightarrow> (isize \<times> 'w kernel) res" where
  "sys_set_priority prio k =
     (if 2 \<le> sint prio then bindr (set_current_priority prio k) (\<lambda>k. Ok (prio, k)) else Ok (- 1, k))"

definition permission_from_bits :: "u8 \<Rightarrow> MapPermission option" where
  "permission_from_bits b = (if b AND NOT (MP_R OR MP_W OR MP_X OR MP_U) = 0 then Some b else None)"

definition sys_mmap :: "usize \<Rightarrow> usize \<Rightarrow> usize \<Rightarrow> 'w kernel \<Rightarrow> (isize \<times> 'w kernel) res" where
  "sys_mmap start len port k =
     (if va_page_offset (VirtAddr start) = 0 \<and> port AND NOT 0x7 = 0 \<and> port AND 0x7 \<noteq> 0 then
        bindr (unwrap (permission_from_bits (ucast (push_bit 1 port OR push_bit 4 1)))) (\<lambda>permission.
        bindr (insert_current_memory_set (VirtAddr start) (VirtAddr (start + len)) permission k) (\<lambda>(r, k).
          Ok (if r = 0 then 0 else - 1, k)))
      else Ok (- 1, k))"

definition sys_munmap :: "usize \<Rightarrow> usize \<Rightarrow> 'w kernel \<Rightarrow> (isize \<times> 'w kernel) res" where
  "sys_munmap start len k = remove_current_memory_set (VirtAddr start) (VirtAddr (start + len)) k"

definition sys_spawn :: "params \<Rightarrow> usize \<Rightarrow> 'w kernel \<Rightarrow> (isize \<times> 'w kernel) res" where
  "sys_spawn P path k =
     bindr (user_str path k) (\<lambda>path.
     bindr (open_file path OF_RDONLY k) (\<lambda>(app, k).
     case app of
       Some i \<Rightarrow>
         bindr (read_all i k) (\<lambda>(all_data, k).
         bindr (unwrap (current k)) (\<lambda>t.
         bindr (tcb_spawn P t all_data k) (\<lambda>(c, k). start_child c k)))
     | None \<Rightarrow> Ok (- 1, k)))"

section \<open>Files\<close>

text \<open>The file behind a descriptor of the current task.\<close>

definition current_file :: "usize \<Rightarrow> 'w kernel \<Rightarrow> File option res" where
  "current_file fd k =
     bindr (current_block k) (\<lambda>(_, b).
       Ok (if unat fd < length (fd_table b) then fd_table b ! unat fd else None))"

definition sys_write :: "usize \<Rightarrow> usize \<Rightarrow> usize \<Rightarrow> 'w kernel \<Rightarrow> (isize \<times> 'w kernel) res" where
  "sys_write fd buf len k =
     bindr (current_file fd k) (\<lambda>f.
     case f of
       Some f \<Rightarrow> bindr (user_buffer buf len k) (\<lambda>bs. file_write f (ub_new bs) k)
     | None \<Rightarrow> Ok (- 1, k))"

definition sys_read :: "usize \<Rightarrow> usize \<Rightarrow> usize \<Rightarrow> usize \<Rightarrow> usize \<Rightarrow> 'w kernel \<Rightarrow> (isize option \<times> 'w kernel) res" where
  "sys_read fd buf len c now k =
     bindr (current_file fd k) (\<lambda>f.
     case f of
       Some f \<Rightarrow> bindr (user_buffer buf len k) (\<lambda>bs. file_read f (ub_new bs) c now k)
     | None \<Rightarrow> Ok (Some (- 1), k))"

definition sys_open :: "usize \<Rightarrow> u32 \<Rightarrow> 'w kernel \<Rightarrow> (isize \<times> 'w kernel) res" where
  "sys_open path flags k =
     bindr (user_str path k) (\<lambda>path.
     bindr (unwrap (flags_from_bits flags)) (\<lambda>flags.
     bindr (open_file path flags k) (\<lambda>(inode, k).
     case inode of
       Some i \<Rightarrow>
         bindr (current_block k) (\<lambda>(t, b).
         case alloc_fd b of (fd, b) \<Rightarrow>
           Ok (of_nat fd, put_task t (b\<lparr>fd_table := (fd_table b)[fd := Some (OSFile i)]\<rparr>) k))
     | None \<Rightarrow> Ok (- 1, k))))"

definition sys_close :: "usize \<Rightarrow> 'w kernel \<Rightarrow> (isize \<times> 'w kernel) res" where
  "sys_close fd k =
     bindr (current_block k) (\<lambda>(t, b).
       if length (fd_table b) \<le> unat fd then Ok (- 1, k)
       else if fd_table b ! unat fd = None then Ok (- 1, k)
       else Ok (0, put_task t (b\<lparr>fd_table := (fd_table b)[unat fd := None]\<rparr>) k))"

text \<open>\<open>Stat\<close> is laid out as in C.\<close>

record Stat =
  st_dev :: u64
  st_ino :: u64
  st_mode :: u32
  st_nlink :: u32

definition stat_bytes :: "Stat \<Rightarrow> u8 list" where
  "stat_bytes st = store_words 8 [st_dev st, st_ino st] @ store_words 4 [st_mode st, st_nlink st] @ replicate 56 0"

definition sys_fstat :: "usize \<Rightarrow> usize \<Rightarrow> 'w kernel \<Rightarrow> (isize \<times> 'w kernel) res" where
  "sys_fstat fd st k =
     bindr (current_file fd k) (\<lambda>f.
     case f of
       Some f \<Rightarrow>
         bindr (user_buffer st 80 k) (\<lambda>dsts.
         bindr (file_ino f k) (\<lambda>ino.
         bindr (file_mode f k) (\<lambda>(mode, k).
         bindr (file_block f k) (\<lambda>(bid, off).
         bindr (get_nlink (ROOT_INODE k) bid off (fs k)) (\<lambda>(nlink, s).
         bindr (copy_to_user (stat_bytes \<lparr>st_dev = 0, st_ino = ucast ino, st_mode = mode, st_nlink = nlink\<rparr>) dsts (k\<lparr>fs := s\<rparr>))
           (\<lambda>k. Ok (0, k)))))))
     | None \<Rightarrow> Ok (- 1, k))"

definition sys_linkat :: "usize \<Rightarrow> usize \<Rightarrow> 'w kernel \<Rightarrow> (isize \<times> 'w kernel) res" where
  "sys_linkat old_name new_name k =
     bindr (user_str old_name k) (\<lambda>old_name. bindr (user_str new_name k) (\<lambda>new_name. link_file old_name new_name k))"

definition sys_unlinkat :: "usize \<Rightarrow> 'w kernel \<Rightarrow> (isize \<times> 'w kernel) res" where
  "sys_unlinkat name k = bindr (user_str name k) (\<lambda>name. unlink_file name k)"

section \<open>The dispatcher\<close>

definition SYSCALL_UNLINKAT :: usize where "SYSCALL_UNLINKAT = 35"
definition SYSCALL_LINKAT :: usize where "SYSCALL_LINKAT = 37"
definition SYSCALL_OPEN :: usize where "SYSCALL_OPEN = 56"
definition SYSCALL_CLOSE :: usize where "SYSCALL_CLOSE = 57"
definition SYSCALL_READ :: usize where "SYSCALL_READ = 63"
definition SYSCALL_WRITE :: usize where "SYSCALL_WRITE = 64"
definition SYSCALL_FSTAT :: usize where "SYSCALL_FSTAT = 80"
definition SYSCALL_EXIT :: usize where "SYSCALL_EXIT = 93"
definition SYSCALL_YIELD :: usize where "SYSCALL_YIELD = 124"
definition SYSCALL_GET_TIME :: usize where "SYSCALL_GET_TIME = 169"
definition SYSCALL_GETPID :: usize where "SYSCALL_GETPID = 172"
definition SYSCALL_FORK :: usize where "SYSCALL_FORK = 220"
definition SYSCALL_EXEC :: usize where "SYSCALL_EXEC = 221"
definition SYSCALL_WAITPID :: usize where "SYSCALL_WAITPID = 260"
definition SYSCALL_SPAWN :: usize where "SYSCALL_SPAWN = 400"
definition SYSCALL_MUNMAP :: usize where "SYSCALL_MUNMAP = 215"
definition SYSCALL_MMAP :: usize where "SYSCALL_MMAP = 222"
definition SYSCALL_SET_PRIORITY :: usize where "SYSCALL_SET_PRIORITY = 140"
definition SYSCALL_TASK_INFO :: usize where "SYSCALL_TASK_INFO = 410"

lemmas syscall_numbers =
  SYSCALL_UNLINKAT_def SYSCALL_LINKAT_def SYSCALL_OPEN_def SYSCALL_CLOSE_def SYSCALL_READ_def SYSCALL_WRITE_def SYSCALL_FSTAT_def SYSCALL_EXIT_def SYSCALL_YIELD_def SYSCALL_GET_TIME_def SYSCALL_GETPID_def SYSCALL_FORK_def SYSCALL_EXEC_def SYSCALL_WAITPID_def SYSCALL_SPAWN_def SYSCALL_MUNMAP_def SYSCALL_MMAP_def SYSCALL_SET_PRIORITY_def SYSCALL_TASK_INFO_def

definition answered :: "(isize \<times> 'w kernel) res \<Rightarrow> (isize option \<times> 'w kernel) res" where
  "answered m = bindr m (\<lambda>(r, k). Ok (Some r, k))"

definition syscall :: "params \<Rightarrow> usize \<Rightarrow> usize list \<Rightarrow> usize \<Rightarrow> usize \<Rightarrow> 'w kernel \<Rightarrow> (isize option \<times> 'w kernel) res" where
  "syscall P syscall_id args c now k =
     bindr (update_current_syscall_times syscall_id k) (\<lambda>k.
       if syscall_id = SYSCALL_LINKAT then answered (sys_linkat (args ! 1) (args ! 3) k)
       else if syscall_id = SYSCALL_UNLINKAT then answered (sys_unlinkat (args ! 1) k)
       else if syscall_id = SYSCALL_OPEN then answered (sys_open (args ! 1) (ucast (args ! 2)) k)
       else if syscall_id = SYSCALL_CLOSE then answered (sys_close (args ! 0) k)
       else if syscall_id = SYSCALL_READ then sys_read (args ! 0) (args ! 1) (args ! 2) c now k
       else if syscall_id = SYSCALL_WRITE then answered (sys_write (args ! 0) (args ! 1) (args ! 2) k)
       else if syscall_id = SYSCALL_FSTAT then answered (sys_fstat (args ! 0) (args ! 1) k)
       else if syscall_id = SYSCALL_EXIT then sys_exit (ucast (args ! 0)) now k
       else if syscall_id = SYSCALL_YIELD then sys_yield now k
       else if syscall_id = SYSCALL_GETPID then answered (sys_getpid k)
       else if syscall_id = SYSCALL_FORK then answered (sys_fork P k)
       else if syscall_id = SYSCALL_EXEC then answered (sys_exec P (args ! 0) k)
       else if syscall_id = SYSCALL_WAITPID then answered (sys_waitpid (args ! 0) (args ! 1) k)
       else if syscall_id = SYSCALL_GET_TIME then answered (sys_get_time (args ! 0) now k)
       else if syscall_id = SYSCALL_MMAP then answered (sys_mmap (args ! 0) (args ! 1) (args ! 2) k)
       else if syscall_id = SYSCALL_MUNMAP then answered (sys_munmap (args ! 0) (args ! 1) k)
       else if syscall_id = SYSCALL_SET_PRIORITY then answered (sys_set_priority (args ! 0) k)
       else if syscall_id = SYSCALL_TASK_INFO then answered (sys_task_info P (args ! 0) now k)
       else if syscall_id = SYSCALL_SPAWN then answered (sys_spawn P (args ! 0) k)
       else Panic (Explicit ''Unsupported syscall_id''))"

section \<open>Traps\<close>

datatype trap_cause =
    UserEnvCall | StoreFault | StorePageFault | InstructionFault | InstructionPageFault
  | LoadFault | LoadPageFault | IllegalInstruction | SupervisorTimer | OtherTrap

text \<open>\<open>trap_return\<close> leaves the kernel: it hands \<open>__restore\<close> the address of the trap context and the token
  of the current address space.\<close>

definition trap_return :: "'w kernel \<Rightarrow> ((usize \<times> usize) \<times> 'w kernel) res" where
  "trap_return k =
     bindr (current_user_token k) (\<lambda>user_satp.
     bindr (current_block k) (\<lambda>(t, b). Ok ((TRAP_CONTEXT, user_satp), put_task t (b\<lparr>resume := None\<rparr>) k)))"

definition enter_user :: "'w kernel \<Rightarrow> 'w kernel res" where
  "enter_user k = bindr (trap_return k) (\<lambda>(_, k). Ok k)"

text \<open>The end of a system call: the result goes into \<open>a0\<close> of the context as it is now.\<close>

definition finish_syscall :: "isize \<Rightarrow> 'w kernel \<Rightarrow> 'w kernel res" where
  "finish_syscall r k = bindr (current_trap_cx k) (\<lambda>cx. enter_user (set_context_word cx REG_A0 r k))"

definition trap_handler :: "params \<Rightarrow> trap_cause \<Rightarrow> usize \<Rightarrow> usize \<Rightarrow> 'w kernel \<Rightarrow> 'w kernel res" where
  "trap_handler P cause c now k =
     (if cause = UserEnvCall then
        bindr (current_trap_cx k) (\<lambda>cx.
        let k = set_context_word cx SEPC (tc_get cx SEPC (mem (kmm k)) + 4) k;
            arg = (\<lambda>i. tc_get cx i (mem (kmm k))) in
        bindr (syscall P (arg REG_A7) [arg 10, arg 11, arg 12, arg 13] c now k) (\<lambda>(result, k).
          case result of Some r \<Rightarrow> finish_syscall r k | None \<Rightarrow> Ok k))
      else if cause \<in> {StoreFault, StorePageFault, InstructionFault, InstructionPageFault, LoadFault, LoadPageFault} then
        bindr (current_trap_cx k) (\<lambda>_. exit_current_and_run_next (- 2) now k)
      else if cause = IllegalInstruction then exit_current_and_run_next (- 3) now k
      else if cause = SupervisorTimer then
        suspend_current_and_run_next TrapReturn now (set_next_trigger now k)
      else Panic (Explicit ''Unsupported trap''))"

text \<open>What a task does that \<open>__switch\<close> has switched to.\<close>

definition resume_current :: "usize \<Rightarrow> usize \<Rightarrow> 'w kernel \<Rightarrow> 'w kernel res" where
  "resume_current c now k =
     bindr (current_block k) (\<lambda>(t, b).
     case resume b of
       None \<Rightarrow> Ok k
     | Some TrapReturn \<Rightarrow> enter_user k
     | Some YieldReturn \<Rightarrow> finish_syscall 0 k
     | Some (StdinRead a) \<Rightarrow>
         bindr (stdin_round a c now k) (\<lambda>(r, k). case r of Some n \<Rightarrow> finish_syscall n k | None \<Rightarrow> Ok k))"

end
