(* ===== verification/VirtIO.thy ===== *)
theory VirtIO
  imports MemorySet
begin

text \<open>
  The services that \<open>src/os/src/drivers/block/virtio_blk.rs\<close> gives to the \<open>virtio_drivers\<close> crate: contiguous
  frames for its queues, kept alive in \<open>QUEUE_FRAMES\<close>, and the translation of addresses. The driver
  itself is a block device whose functions are parameters (\<open>BlockCache\<close>).
\<close>

text \<open>The loop of \<open>virtio_dma_alloc\<close>, with the number of the round and the first frame.\<close>

fun dma_alloc_loop :: "nat list \<Rightarrow> PhysPageNum \<Rightarrow> FrameTracker list \<times> mm \<Rightarrow> (PhysPageNum \<times> FrameTracker list \<times> mm) res" where
  "dma_alloc_loop [] ppn_base s = Ok (ppn_base, s)"
| "dma_alloc_loop (i # is) ppn_base s =
     (case s of (q, k) \<Rightarrow>
      bindr (frame_alloc_unwrap k) (\<lambda>(frame, k).
      let ppn_base = (if i = 0 then ft_ppn frame else ppn_base) in
      bindr (assertr (ppn_val (ft_ppn frame) = ppn_val ppn_base + of_nat i)) (\<lambda>_.
        dma_alloc_loop is ppn_base (q @ [frame], k))))"

definition virtio_dma_alloc :: "usize \<Rightarrow> FrameTracker list \<times> mm \<Rightarrow> (PhysAddr \<times> FrameTracker list \<times> mm) res" where
  "virtio_dma_alloc pages s =
     bindr (dma_alloc_loop [0..<unat pages] (PhysPageNum 0) s) (\<lambda>(ppn_base, s). Ok (pa_from_ppn ppn_base, s))"

text \<open>The trackers stay in \<open>QUEUE_FRAMES\<close>, so what is given back here is still owned there.\<close>

fun dma_dealloc_loop :: "nat \<Rightarrow> PhysPageNum \<Rightarrow> mm \<Rightarrow> mm res" where
  "dma_dealloc_loop 0 ppn k = Ok k"
| "dma_dealloc_loop (Suc n) ppn k = bindr (frame_dealloc ppn k) (dma_dealloc_loop n (ppn_step ppn))"

definition virtio_dma_dealloc :: "PhysAddr \<Rightarrow> usize \<Rightarrow> mm \<Rightarrow> (i32 \<times> mm) res" where
  "virtio_dma_dealloc pa pages k =
     bindr (ppn_from_pa pa) (\<lambda>ppn. bindr (dma_dealloc_loop (unat pages) ppn k) (\<lambda>k. Ok (0, k)))"

definition virtio_phys_to_virt :: "PhysAddr \<Rightarrow> VirtAddr" where
  "virtio_phys_to_virt paddr = VirtAddr (pa_val paddr)"

definition virtio_virt_to_phys :: "usize \<Rightarrow> VirtAddr \<Rightarrow> phys_mem \<Rightarrow> PhysAddr res" where
  "virtio_virt_to_phys kernel_token vaddr m = unwrap (translate_va (pt_from_token kernel_token) vaddr m)"

end
