(* ===== verification/Boot.thy ===== *)
theory Boot
  imports Syscall VirtIO
begin

text \<open>
  \<open>rust_main\<close> of \<open>src/os/src/main.rs\<close> with the lazy statics it is the first to use, and the kernel as a
  transition system: one step is a trap of the running program handled, the continuation of a task
  that has just been switched to, or a store of the running program into its own memory. The heap of
  the kernel (\<open>heap_allocator.rs\<close>) is the logic's own, the activation of the kernel's page table has no
  effect on the flat memory, and \<open>remap_test\<close> only asserts.
\<close>

section \<open>Start\<close>

text \<open>\<open>mm::init\<close>: the frame allocator, then the static \<open>KERNEL_SPACE\<close>.\<close>

definition mm_init :: "LinkerSymbols \<Rightarrow> phys_mem \<Rightarrow> (MemorySet \<times> mm) res" where
  "mm_init L m = new_kernel L (init_frame_allocator (ekernel L) \<lparr>mem = m, FRAME_ALLOCATOR = fa_new\<rparr>)"

text \<open>The static \<open>ROOT_INODE\<close>. The driver asks for frames when the static \<open>BLOCK_DEVICE\<close> is made, in
  the amounts \<open>dma\<close>.\<close>

definition open_root :: "'w BlockDevice \<Rightarrow> 'w store \<Rightarrow> ('w Inode \<times> 'w store) res" where
  "open_root dev s = bindr (efs_open dev s) (\<lambda>(efs, s). Ok (root_inode efs, s))"

text \<open>The static \<open>INITPROC\<close>.\<close>

definition make_initproc :: "params \<Rightarrow> 'w kernel \<Rightarrow> 'w kernel res" where
  "make_initproc P k =
     bindr (open_file (ascii ''ch6b_initproc'') OF_RDONLY k) (\<lambda>(inode, k).
     bindr (unwrap inode) (\<lambda>i.
     bindr (read_all i k) (\<lambda>(v, k).
     bindr (tcb_new P v k) (\<lambda>(t, k). Ok (k\<lparr>INITPROC := Some t\<rparr>)))))"

definition add_initproc :: "params \<Rightarrow> 'w kernel \<Rightarrow> 'w kernel res" where
  "add_initproc P k =
     bindr (make_initproc P k) (\<lambda>k. bindr (unwrap (INITPROC k)) (\<lambda>t. Ok (add_task t k)))"

definition rust_main ::
  "params \<Rightarrow> LinkerSymbols \<Rightarrow> usize list \<Rightarrow> 'w BlockDevice \<Rightarrow> 'w \<Rightarrow> phys_mem \<Rightarrow> usize \<Rightarrow> 'w kernel res" where
  "rust_main P L dma dev w m now =
     bindr (mm_init L m) (\<lambda>(space, mm0).
     bindr (for_each (\<lambda>pages s. bindr (virtio_dma_alloc pages s) (\<lambda>(_, s). Ok s)) dma ([], mm0)) (\<lambda>(queue_frames, mm0).
     bindr (open_root dev (manager_new w)) (\<lambda>(root, s).
     let k = set_next_trigger now
       \<lparr>kmm = mm0, KERNEL_SPACE = space, PID_ALLOCATOR = pa_new, tcbs = [], ready_queue = [], current = None,
        idle_task_cx = zero_init, INITPROC = None, files = [], fs = s, ROOT_INODE = root,
        console = ascii ''[kernel] Hello, world!'' @ newline, mtimecmp = 0\<rparr> in
     bindr (list_apps k) (\<lambda>k.
     bindr (add_initproc P k) (run_tasks now)))))"

section \<open>Steps\<close>

text \<open>A program may store into the pages that its page table maps for it, user-accessible and writable.\<close>

definition user_store :: "usize \<Rightarrow> u8 \<Rightarrow> 'w kernel \<Rightarrow> 'w kernel res" where
  "user_store a v k =
     bindr (current_block k) (\<lambda>(t, b).
     case pt_lookup (mem (kmm k)) (page_table (memory_set b)) (va_floor (VirtAddr a)) of
       Some e \<Rightarrow>
         if pte_writable e \<and> pte_flags e AND PTE_U \<noteq> 0
         then Ok (k\<lparr>kmm := (kmm k)\<lparr>mem :=
                (mem (kmm k))(pa_val (pa_from_ppn (pte_ppn e)) + va_page_offset (VirtAddr a) := v)\<rparr>\<rparr>)
         else Panic (Explicit ''fault'')
     | None \<Rightarrow> Panic (Explicit ''fault''))"

text \<open>A trap saves the registers of the program in its trap context (\<open>__alltraps\<close>) before the handler runs.\<close>

definition take_trap ::
  "params \<Rightarrow> trap_cause \<Rightarrow> usize list \<Rightarrow> usize \<Rightarrow> usize \<Rightarrow> usize \<Rightarrow> 'w kernel \<Rightarrow> 'w kernel res" where
  "take_trap P cause regs pc c now k =
     bindr (current_trap_cx k) (\<lambda>cx.
       trap_handler P cause c now
         (k\<lparr>kmm := (kmm k)\<lparr>mem := save_context cx regs (user_sstatus P) pc (mem (kmm k))\<rparr>\<rparr>))"

definition in_user :: "'w kernel \<Rightarrow> bool" where
  "in_user k \<longleftrightarrow> (case current_block k of Ok (_, b) \<Rightarrow> resume b = None | Panic _ \<Rightarrow> False)"

inductive kernel_step :: "params \<Rightarrow> 'w kernel \<Rightarrow> 'w kernel \<Rightarrow> bool" for P where
  step_trap: "in_user k \<Longrightarrow> take_trap P cause regs pc c now k = Ok k' \<Longrightarrow> kernel_step P k k'"
| step_resume: "\<not> in_user k \<Longrightarrow> resume_current c now k = Ok k' \<Longrightarrow> kernel_step P k k'"
| step_store: "in_user k \<Longrightarrow> user_store a v k = Ok k' \<Longrightarrow> kernel_step P k k'"

inductive kernel_reaches :: "params \<Rightarrow> 'w kernel \<Rightarrow> 'w kernel \<Rightarrow> bool" for P where
  reaches_refl: "kernel_reaches P k k"
| reaches_step: "kernel_reaches P k k1 \<Longrightarrow> kernel_step P k1 k2 \<Longrightarrow> kernel_reaches P k k2"

end
