(* ===== verification/ProcInv.thy ===== *)
theory ProcInv
  imports TaskInv Boot
begin

text \<open>
  The operations of \<open>src/os/src/task\<close> and the system calls built on them keep the invariant of the
  process tree: switching tasks, ending a process, making a child by \<open>fork\<close> or \<open>spawn\<close>, \<open>exec\<close>, and
  waiting for a child, whose block nothing else refers to by then.
\<close>

section \<open>Scheduling\<close>

lemma run_tasks_inv:
  assumes "proc_inv k" and "current k = None" and "run_tasks now k = Ok k'"
  shows "proc_inv k' \<and> current k' \<noteq> None"
proof -
  note I = proc_invD [OF assms(1)]
  obtain i where i: "INITPROC k = Some i" "tree_inv i (tasks k)" using I(1) by blast
  from assms(3) obtain best b where best: "best < length (ready_queue k)" "tasks k (ready_queue k ! best) = Some b" "task_priority b \<noteq> 0"
    and k': "k' = (let b = b\<lparr>task_stride := task_stride b + BIG_STRIDE div task_priority b\<rparr> in
       put_task (ready_queue k ! best) (let b = b\<lparr>task_status := Running\<rparr> in
              if task_begin_time b = 0 then b\<lparr>task_begin_time := milliseconds (get_time_us now)\<rparr> else b)
         ((put_task (ready_queue k ! best) b k)\<lparr>ready_queue := remove_nth best (ready_queue k)\<rparr>))\<lparr>current := Some (ready_queue k ! best)\<rparr>"
    by (auto simp: run_tasks_def fetch_task_def modify_task_def get_task_iff update_stride_def tasks_put Let_def split: if_splits)
  let ?t = "ready_queue k ! best"
  define b' where "b' = (let b = b\<lparr>task_stride := task_stride b + BIG_STRIDE div task_priority b, task_status := Running\<rparr> in
      if task_begin_time b = 0 then b\<lparr>task_begin_time := milliseconds (get_time_us now)\<rparr> else b)"
  have b': "children b' = children b" "parent b' = parent b" "task_status b' = Running" "getpid b' = getpid b" "block_ok b' = block_ok b"
    by (simp_all add: b'_def Let_def getpid_def block_ok_def)
  have ready: "task_status b = Ready" using queue_invD(2) [OF I(2), of ?t] best by auto
  have "proc_inv k'"
  proof (rule proc_invI)
    show "tree_inv i ((tasks k)(?t \<mapsto> b'))" by (rule tree_inv_same [OF i(2) best(2)]) (simp_all add: b' ready)
    show "queue_inv ((tasks k)(?t \<mapsto> b')) (remove_nth best (ready_queue k)) (Some ?t)"
      by (rule queue_inv_run) (use I(2) assms(2) best(1) b' in simp_all)
    show "pids_inv ((tasks k)(?t \<mapsto> b')) (length (tcbs k)) (PID_ALLOCATOR k)" by (rule pids_inv_same [OF I(4) best(2) b'(4)])
    show "block_ok c" if "((tasks k)(?t \<mapsto> b')) t = Some c" for t c using that I(3) best(2) b'(5) by (auto split: if_splits)
    show "tasks k' = (tasks k)(?t \<mapsto> b')" using best(2) by (simp add: k' Let_def tasks_put b'_def)
  qed (simp_all add: k' Let_def i)
  then show ?thesis by (simp add: k' Let_def)
qed

lemma suspend_inv:
  assumes "proc_inv k" and "suspend_current_and_run_next r now k = Ok k'"
  shows "proc_inv k' \<and> current k' \<noteq> None"
proof -
  note I = proc_invD [OF assms(1)]
  obtain i where i: "INITPROC k = Some i" "tree_inv i (tasks k)" using I(1) by blast
  from assms(2) obtain t b where t: "current k = Some t" "tasks k t = Some b"
    and run: "run_tasks now (add_task t (put_task t (b\<lparr>task_status := Ready, resume := Some r\<rparr>) (k\<lparr>current := None\<rparr>))) = Ok k'"
    by (auto simp: suspend_current_and_run_next_def modify_task_def get_task_iff)
  let ?b = "b\<lparr>task_status := Ready, resume := Some r\<rparr>"
  have running: "task_status b = Running" using queue_invD(4) [OF I(2) t(1)] t(2) by auto
  have "proc_inv (add_task t (put_task t ?b (k\<lparr>current := None\<rparr>)))"
  proof (rule proc_invI)
    show "tree_inv i ((tasks k)(t \<mapsto> ?b))" by (rule tree_inv_same [OF i(2) t(2)]) (simp_all add: running)
    show "queue_inv ((tasks k)(t \<mapsto> ?b)) (ready_queue k @ [t]) None" by (rule queue_inv_suspend) (use I(2) t(1) in simp_all)
    show "pids_inv ((tasks k)(t \<mapsto> ?b)) (length (tcbs k)) (PID_ALLOCATOR k)"
      by (rule pids_inv_same [OF I(4) t(2)]) (simp add: getpid_def)
    show "block_ok c" if "((tasks k)(t \<mapsto> ?b)) u = Some c" for u c
      using that I(3) [OF t(2)] I(3) [of u c] by (auto simp: block_ok_def split: if_splits)
  qed (use i t in \<open>simp_all add: add_task_def tasks_put\<close>)
  then show ?thesis using run_tasks_inv [OF _ _ run] by (simp add: add_task_def)
qed

section \<open>Ending a process\<close>

definition reparented :: "tid \<Rightarrow> tid list \<Rightarrow> tasks \<Rightarrow> tasks" where
  "reparented i cs M t =
     (if t = i then map_option (\<lambda>b. b\<lparr>children := children b @ cs\<rparr>) (M t)
      else if t \<in> set cs then map_option (\<lambda>b. b\<lparr>parent := Some i\<rparr>) (M t) else M t)"

lemma reparented_views:
  "i \<in> dom M \<Longrightarrow> kids (reparented i cs M) = (kids M)(i := kids M i @ cs)"
  "i \<notin> set cs \<Longrightarrow> set cs \<subseteq> dom M \<Longrightarrow> parents (reparented i cs M) = (\<lambda>c. if c \<in> set cs then Some i else parents M c)"
  "zombies (reparented i cs M) = zombies M" "pids (reparented i cs M) = pids M" "dom (reparented i cs M) = dom M"
proof -
  have "map_option getpid (reparented i cs M t) = map_option getpid (M t)" for t
    by (cases "M t") (auto simp: reparented_def getpid_def)
  then show "pids (reparented i cs M) = pids M" by (simp add: fun_eq_iff pids_def)
qed (auto simp: reparented_def kids_def parents_def zombies_def fun_eq_iff split: option.split if_splits)

text \<open>The loop of \<open>exit_current_and_run_next\<close>.\<close>

definition rest_of :: "'w kernel \<Rightarrow> nat \<times> tid list \<times> tid option \<times> tid option \<times> PidAllocator \<times> mm" where
  "rest_of k = (length (tcbs k), ready_queue k, current k, INITPROC k, PID_ALLOCATOR k, kmm k)"

lemma reparent_loop:
  assumes "i \<notin> set cs" and "for_each (reparent i) cs k = Ok k'"
  shows "tasks k' = reparented i cs (tasks k) \<and> rest_of k' = rest_of k"
  using assms
proof (induction cs arbitrary: k)
  case Nil
  have "map_option (\<lambda>b. b\<lparr>children := children b @ []\<rparr>) v = v" for v :: "TaskControlBlock option" by (cases v) simp_all
  then show ?case using Nil by (auto simp: reparented_def fun_eq_iff)
next
  case (Cons c cs)
  from Cons.prems obtain k1 where k1: "reparent i c k = Ok k1" "for_each (reparent i) cs k1 = Ok k'" by auto
  have ci: "c \<noteq> i" using Cons.prems(1) by auto
  from k1(1) obtain b bi where b: "tasks k c = Some b" "tasks k i = Some bi"
    and e: "k1 = put_task i (bi\<lparr>children := children bi @ [c]\<rparr>) (put_task c (b\<lparr>parent := Some i\<rparr>) k)"
    using ci by (auto simp: reparent_def modify_task_def get_task_iff tasks_put)
  have t1: "tasks k1 = (tasks k)(c \<mapsto> b\<lparr>parent := Some i\<rparr>, i \<mapsto> bi\<lparr>children := children bi @ [c]\<rparr>)"
    unfolding e using b ci by (simp add: tasks_put)
  have IH: "tasks k' = reparented i cs (tasks k1) \<and> rest_of k' = rest_of k1" using Cons k1(2) by simp
  have "reparented i cs (tasks k1) = reparented i (c # cs) (tasks k)"
    unfolding t1 using b ci by (auto simp: reparented_def fun_eq_iff)
  moreover have "rest_of k1 = rest_of k" by (simp add: e rest_of_def) (simp add: put_task_def)
  ultimately show ?case using IH by simp
qed

text \<open>The strong count of a process that is some other process's child.\<close>

lemma strong_count_child:
  assumes "tree_inv i (tasks k)" and "t \<in> dom (tasks k)" and "t \<noteq> i"
  shows "strong_count t k = count_list (ready_queue k) t + of_bool (current k = Some t) + of_bool (INITPROC k = Some t) + 1"
  using child_count [OF assms(1), of t] assms(2,3) by (simp add: strong_count_def)

lemma queue_inv_view:
  assumes "queue_inv M q c" and "\<And>t. map_option (\<lambda>b. (task_status b, resume b)) (M' t) = map_option (\<lambda>b. (task_status b, resume b)) (M t)"
  shows "queue_inv M' q c"
proof -
  note Q = queue_invD [OF assms(1)]
  have to: "\<exists>b'. M' t = Some b' \<and> task_status b' = task_status b \<and> resume b' = resume b" if "M t = Some b" for t b
    using assms(2) [of t] that by auto
  have fro: "\<exists>b. M t = Some b \<and> task_status b = task_status b'" if "M' t = Some b'" for t b'
    using assms(2) [of t] that by (cases "M t") auto
  show ?thesis unfolding queue_inv_def
  proof (intro conjI ballI allI impI)
    show "\<exists>b. M' t = Some b \<and> task_status b = Ready \<and> resume b \<noteq> None" if "t \<in> set q" for t using Q(2) [OF that] to by fastforce
    show "t \<notin> set q" "\<exists>b. M' t = Some b \<and> task_status b = Running" if "c = Some t" for t using Q(3,4) [OF that] to by fastforce+
    show "task_status b' = Zombie \<or> t \<in> set q \<or> c = Some t" if "M' t = Some b'" for t b' using fro [OF that] Q(5) by metis
  qed (rule Q(1))
qed

lemma exit_inv:
  assumes "proc_inv k" and "exit_current_and_run_next code now k = Ok k'"
  shows "proc_inv k' \<and> current k' \<noteq> None"
proof -
  note I = proc_invD [OF assms(1)]
  obtain i where i: "INITPROC k = Some i" "tree_inv i (tasks k)" using I(1) by blast
  obtain t b where t: "current k = Some t" "tasks k t = Some b" using assms(2)
    by (auto simp: exit_current_and_run_next_def modify_task_def get_task_iff)
  define b1 where "b1 = b\<lparr>task_status := Zombie, exit_code := code\<rparr>"
  have b1: "children b1 = children b" "parent b1 = parent b" "task_status b1 = Zombie" "getpid b1 = getpid b" by (simp_all add: b1_def getpid_def)
  define k1 where "k1 = put_task t b1 (k\<lparr>current := None\<rparr>)"
  have t1: "tasks k1 = (tasks k)(t \<mapsto> b1)" using t(2) by (simp add: k1_def tasks_put)
  have f1: "INITPROC k1 = Some i" "ready_queue k1 = ready_queue k" "current k1 = None" "PID_ALLOCATOR k1 = PID_ALLOCATOR k" "length (tcbs k1) = length (tcbs k)" "kmm k1 = kmm k"
    using i(1) by (simp_all add: k1_def put_task_def)
  from assms(2) obtain k2 ms m b2 k4 where ti: "t \<noteq> i" and loop: "for_each (reparent i) (children b) k1 = Ok k2"
    and b2: "tasks k2 t = Some b2" and rel: "release [t] (put_task t (b2\<lparr>children := [], memory_set := ms\<rparr>) (k2\<lparr>kmm := m\<rparr>)) = Ok k4"
    and run: "run_tasks now k4 = Ok k'"
    by (auto simp: exit_current_and_run_next_def modify_task_def get_task_iff t t1 f1(1) b1 b1_def [symmetric] k1_def [symmetric] split: if_splits simp del: release.simps)
  let ?M = "tasks k" and ?M1 = "(tasks k)(t \<mapsto> b1)"
  have tr: "tree i (dom ?M) (kids ?M) (parents ?M)" using i(2) by (simp add: tree_inv_def)
  note v = map_views_at [of ?M t b, OF t(2)]
  have kid: "i \<notin> set (children b)" "t \<notin> set (children b)" "set (children b) \<subseteq> dom ?M1"
    using treeD(5) [OF tr, of t] treeD(6) [OF tr, of _ t] v(1) by auto
  have L: "tasks k2 = reparented i (children b) ?M1" "rest_of k2 = rest_of k1" using reparent_loop [OF kid(1) loop] by (simp_all add: t1)
  have b2': "b2 = b1" using b2 ti kid(2) by (simp add: L(1) reparented_def)
  define b3 where "b3 = b1\<lparr>children := [], memory_set := ms\<rparr>"
  define k3 where "k3 = put_task t b3 (k2\<lparr>kmm := m\<rparr>)"
  let ?M3 = "(reparented i (children b) ?M1)(t \<mapsto> b3)"
  have t3: "tasks k3 = ?M3" using b2 by (simp add: k3_def tasks_put L(1))
  have f3: "INITPROC k3 = Some i" "ready_queue k3 = ready_queue k" "current k3 = None" "PID_ALLOCATOR k3 = PID_ALLOCATOR k" "length (tcbs k3) = length (tcbs k)"
    using L(2) f1 by (simp_all add: k3_def rest_of_def put_task_def)
  have b3: "children b3 = []" "parent b3 = parent b" "task_status b3 = Zombie" "getpid b3 = getpid b" by (simp_all add: b3_def b1_def getpid_def)
  have idom: "i \<in> dom ?M1" using treeD(1) [OF tr] by auto
  have tree3: "tree_inv i ?M3"
  proof (rule tree_inv_exit [OF i(2) ti])
    show "dom ?M3 = dom ?M" using t(2) by (auto simp: reparented_views(5))
    show "kids ?M3 = (kids ?M)(i := kids ?M i @ kids ?M t, t := [])"
      using idom ti by (simp add: reparented_views(1) b3 b1 v fun_eq_iff)
    show "parents ?M3 = (\<lambda>c. if c \<in> set (kids ?M t) then Some i else parents ?M c)"
      using reparented_views(2) [OF kid(1,3)] kid(2) by (simp add: b3 b1 v fun_eq_iff)
    show "zombies ?M3 = insert t (zombies ?M)" by (simp add: reparented_views(3) b3 b1)
  qed
  have "queue_inv ?M1 (ready_queue k) None" by (rule queue_inv_exit) (use I(2) t(1) b1 in simp_all)
  then have queue3: "queue_inv ?M3 (ready_queue k) None"
    by (rule queue_inv_view) (auto simp: reparented_def b3_def option.map_comp comp_def intro!: option.map_cong)
  have pids3: "pids_inv ?M3 (length (tcbs k)) (PID_ALLOCATOR k)"
  proof -
    have "pids ?M3 = pids ?M" "dom ?M3 = dom ?M" using v(4) t(2) by (auto simp: reparented_views(4,5) b3 b1 fun_upd_idem_iff)
    then show ?thesis using I(4) by (simp only: pids_inv_def)
  qed
  have ok3: "block_ok c" if "?M3 u = Some c" for u c
    using that I(3) [OF t(2)] I(3) [of u] by (auto simp: reparented_def block_ok_def b3_def b1_def split: if_splits)
  have inv3: "proc_inv k3" by (rule proc_invI [OF f3(1) tree3 queue3 ok3 pids3 t3]) (simp_all add: f3)
  have "strong_count t k3 \<noteq> 0" using strong_count_child [of i k3 t] tree3 ti by (simp add: t3)
  then have "k4 = k3" using rel by (simp add: b2' b3_def [symmetric] k3_def [symmetric])
  then show ?thesis using run_tasks_inv [OF inv3 f3(3)] run by simp
qed

section \<open>New processes\<close>

lemma child_inv:
  assumes inv: "proc_inv k" and t: "tasks k t = Some tb" "task_status tb \<noteq> Zombie" and c: "tasks k c = None"
    and b: "pid_alloc (PID_ALLOCATOR k) = (task_pid b, pa)" "children b = []" "parent b = Some t" "task_status b = Ready" "resume b \<noteq> None" "block_ok b"
    and k': "tasks k' = (tasks k)(c \<mapsto> b, t \<mapsto> tb\<lparr>children := children tb @ [c]\<rparr>)" "length (tcbs k') = Suc (length (tcbs k))"
      "PID_ALLOCATOR k' = pa" "ready_queue k' = ready_queue k @ [c]" "current k' = current k" "INITPROC k' = INITPROC k"
  shows "proc_inv k'"
proof -
  note I = proc_invD [OF inv]
  obtain i where i: "INITPROC k = Some i" "tree_inv i (tasks k)" using I(1) by blast
  let ?tb = "tb\<lparr>children := children tb @ [c]\<rparr>" and ?M = "(tasks k)(c \<mapsto> b)"
  have ct: "c \<noteq> t" using t(1) c by auto
  then have t': "?M t = Some tb" using t(1) by simp
  show ?thesis
  proof (rule proc_invI)
    show "tree_inv i (?M(t \<mapsto> ?tb))" by (rule tree_inv_child [OF i(2) t c b(2,3)]) (simp add: b(4))
    have "queue_inv ?M (ready_queue k @ [c]) (current k)" by (rule queue_inv_child [OF I(2) c b(4,5)])
    then show "queue_inv (?M(t \<mapsto> ?tb)) (ready_queue k @ [c]) (current k)"
      by (rule queue_inv_same [where M = ?M and t = t, OF _ t']) (use queue_invD(2) [OF I(2), of t] t(1) ct in auto)
    have "pids_inv ?M (Suc (length (tcbs k))) pa" by (rule pids_inv_new [OF I(4) b(1) c])
    then show "pids_inv (?M(t \<mapsto> ?tb)) (Suc (length (tcbs k))) pa" by (rule pids_inv_same [where M = ?M and t = t, OF _ t']) (simp add: getpid_def)
    show "block_ok d" if "(?M(t \<mapsto> ?tb)) u = Some d" for u d
      using that I(3) [OF t(1)] I(3) [of u] b(6) by (auto simp: block_ok_def split: if_splits)
  qed (use i k' in simp_all)
qed

lemma pid_and_stack_sched:
  assumes "pid_and_stack k = Ok (h, ks, k')"
  shows "pid_alloc (PID_ALLOCATOR k) = (h, PID_ALLOCATOR k')" and "ks = KernelStack (pid_val h)"
    and "tasks k' = tasks k" and "tcbs k' = tcbs k" and "ready_queue k' = ready_queue k" and "current k' = current k" and "INITPROC k' = INITPROC k"
  using assms by (auto simp: pid_and_stack_def ks_new_def intro!: tasks_cong split: prod.splits)

lemma block_ok_initial: "ks = KernelStack (pid_val h) \<Longrightarrow> block_ok (tcb_initial tr h ks cx base ms par fds)"
  by (simp add: block_ok_def tcb_initial_def MAX_SYSCALL_NUM_def)

lemma current_running:
  assumes "proc_inv k" and "current k = Some t"
  shows "\<exists>b. tasks k t = Some b \<and> task_status b = Running" and "t \<notin> set (ready_queue k)"
  using queue_invD(3,4) [OF proc_invD(2) [OF assms(1)] assms(2)] by auto

text \<open>\<open>fork\<close> and \<open>spawn\<close> end alike: the new block is allocated, its parent lists it, and it joins the queue.\<close>

lemma enlist_child:
  assumes inv: "proc_inv k" and cur: "current k = Some t" and tb: "tasks k t = Some tb"
    and h: "pid_alloc (PID_ALLOCATOR k) = (h, PID_ALLOCATOR k1)"
    and k1: "tasks k1 = tasks k" "tcbs k1 = tcbs k" "ready_queue k1 = ready_queue k" "current k1 = current k" "INITPROC k1 = INITPROC k"
    and c: "alloc_task (tcb_initial tr h (KernelStack (pid_val h)) cx base ms (Some t) fds) k1 = (c, k2)"
    and k3: "modify_task t (\<lambda>b. b\<lparr>children := children b @ [c]\<rparr>) k2 = Ok k3"
    and k4: "sched_of k4 = sched_of k3" and r: "start_child c k4 = Ok (r, k')"
  shows "proc_inv k' \<and> current k' = current k"
proof -
  let ?b = "tcb_initial tr h (KernelStack (pid_val h)) cx base ms (Some t) fds" and ?tb = "tb\<lparr>children := children tb @ [c]\<rparr>"
  note A = tasks_alloc [OF c]
  have ct: "c \<noteq> t" using A(2) tb k1(1) by auto
  have f2: "ready_queue k2 = ready_queue k" "current k2 = current k" "INITPROC k2 = INITPROC k" "PID_ALLOCATOR k2 = PID_ALLOCATOR k1"
    using c k1 by (auto simp: alloc_task_def)
  have "tasks k2 t = Some tb" using A(1) tb k1(1) ct by simp
  then have e3: "k3 = put_task t ?tb k2" using k3 by (simp add: modify_task_def get_task_iff)
  have t3: "tasks k3 = (tasks k)(c \<mapsto> ?b, t \<mapsto> ?tb)" unfolding e3 using A(1) tb k1(1) ct by (simp add: tasks_put)
  have t4: "tasks k4 = tasks k3" using k4 by (auto intro: tasks_cong simp: sched_of_def)
  obtain b where r': "get_task c k4 = Ok b" "k' = add_task c (set_context_word (trap_cx_ppn b) REG_A0 0 k4)"
    using r by (auto simp: start_child_def)
  have t': "tasks k' = tasks k4" unfolding r'(2) by (auto intro: tasks_cong simp: add_task_def set_context_word_def)
  have "proc_inv k'"
  proof (rule child_inv [OF inv tb _ _ h [THEN trans]])
    show "tasks k' = (tasks k)(c \<mapsto> ?b, t \<mapsto> ?tb)" by (simp add: t' t4 t3)
    show "length (tcbs k') = Suc (length (tcbs k))" "PID_ALLOCATOR k' = PID_ALLOCATOR k1" "ready_queue k' = ready_queue k @ [c]" "current k' = current k" "INITPROC k' = INITPROC k"
      using k4 e3 f2 A(3) k1(2) by (simp_all add: r'(2) add_task_def set_context_word_def sched_of_def)
    show "task_status tb \<noteq> Zombie" using current_running [OF inv cur] tb by auto
  qed (use A(2) k1(1) in \<open>simp_all add: block_ok_initial\<close>, simp_all add: tcb_initial_def)
  then show ?thesis using k4 e3 f2 by (simp add: r'(2) add_task_def set_context_word_def sched_of_def)
qed

lemma fork_inv:
  assumes inv: "proc_inv k" and "sys_fork P k = Ok (r, k')"
  shows "proc_inv k' \<and> current k' = current k"
proof -
  from assms(2) obtain t b ms m cx h ks k1 c k2 k3 where cur: "current k = Some t" and b: "tasks k t = Some b"
    and ps: "pid_and_stack (k\<lparr>kmm := m\<rparr>) = Ok (h, ks, k1)"
    and al: "k2 = k1\<lparr>tcbs := tcbs k1 @ [Some (tcb_initial (trap_return_addr P) h ks cx (base_size b) ms (Some t) (fd_table b))]\<rparr>" "c = length (tcbs k1)"
    and md: "modify_task t (\<lambda>b. b\<lparr>children := children b @ [c]\<rparr>) k2 = Ok k3"
    and st: "start_child c (set_context_word cx KERNEL_SP (ks_get_top ks) k3) = Ok (r, k')"
    by (auto simp: sys_fork_def tcb_fork_def get_task_iff alloc_task_def)
  note S = pid_and_stack_sched [OF ps]
  have al2: "alloc_task (tcb_initial (trap_return_addr P) h (KernelStack (pid_val h)) cx (base_size b) ms (Some t) (fd_table b)) k1 = (c, k2)"
    using al S(2) by (simp add: alloc_task_def)
  show ?thesis
    by (rule enlist_child [OF inv cur b _ _ _ _ _ _ al2 md _ st]) (use S in \<open>simp_all add: sched_of_def set_context_word_def\<close>)
qed

lemma spawn_inv:
  assumes inv: "proc_inv k" and cur: "current k = Some t" and "tcb_spawn P t elf k = Ok (c, k1)" and st: "start_child c k1 = Ok (r, k')"
  shows "proc_inv k' \<and> current k' = current k"
proof -
  obtain b where b: "tasks k t = Some b" using current_running [OF inv cur] by blast
  from assms(3) obtain h ks k2 ms user_sp entry m cx k3 k4 where ps: "pid_and_stack k = Ok (h, ks, k2)"
    and al: "k3 = k2\<lparr>kmm := m, tcbs := tcbs k2 @ [Some (tcb_initial (trap_return_addr P) h ks cx user_sp ms (Some t) standard_fds)]\<rparr>" "c = length (tcbs k2)"
    and md: "modify_task t (\<lambda>b. b\<lparr>children := children b @ [c]\<rparr>) k3 = Ok k4"
    and e: "k1 = write_context cx (app_context P entry user_sp ks k4) k4"
    by (auto simp: tcb_spawn_def alloc_task_def)
  note S = pid_and_stack_sched [OF ps]
  have al2: "alloc_task (tcb_initial (trap_return_addr P) h (KernelStack (pid_val h)) cx user_sp ms (Some t) standard_fds) (k2\<lparr>kmm := m\<rparr>) = (c, k3)"
    using al S(2) by (simp add: alloc_task_def)
  show ?thesis
    by (rule enlist_child [OF inv cur b _ _ _ _ _ _ al2 md _ st]) (use S in \<open>simp_all add: sched_of_def e write_context_def\<close>)
qed

lemma sched_step: "proc_inv k \<Longrightarrow> sched_of k' = sched_of k \<Longrightarrow> proc_inv k' \<and> current k' = current k"
  using proc_inv_cong [of k' k] by (simp add: sched_of_def)

lemma exec_inv:
  assumes inv: "proc_inv k" and "tcb_exec P t elf k = Ok k'"
  shows "proc_inv k' \<and> current k' = current k"
proof -
  from assms(2) obtain b ms cx m c where b: "tasks k t = Some b"
    and k': "k' = write_context cx c ((put_task t (b\<lparr>memory_set := ms, trap_cx_ppn := cx\<rparr>) k)\<lparr>kmm := m\<rparr>)"
    by (auto simp: tcb_exec_def get_task_iff Let_def)
  have "proc_inv (put_task t (b\<lparr>memory_set := ms, trap_cx_ppn := cx\<rparr>) k)"
    by (rule proc_inv_same [OF inv b])
      (use proc_invD(3) [OF inv b] queue_invD(2) [OF proc_invD(2) [OF inv], of t] b in \<open>auto simp: block_ok_def\<close>)
  moreover have "sched_of k' = sched_of (put_task t (b\<lparr>memory_set := ms, trap_cx_ppn := cx\<rparr>) k)"
    by (simp add: k' sched_of_def write_context_def)
  ultimately show ?thesis using sched_step by fastforce
qed

section \<open>Waiting for a child\<close>

text \<open>Once its parent has taken it off its list, nothing holds a zombie any more.\<close>

lemma zombie_unreferenced:
  assumes inv: "proc_inv k" and tb: "tasks k t = Some tb" and idx: "idx < length (children tb)" "children tb ! idx = c" and z: "c \<in> zombies (tasks k)"
  shows "strong_count c (put_task t (tb\<lparr>children := remove_nth idx (children tb)\<rparr>) k) = 0"
proof -
  note I = proc_invD [OF inv]
  obtain i where i: "INITPROC k = Some i" "tree_inv i (tasks k)" using I(1) by blast
  note v = map_views_at [of "tasks k" t tb, OF tb]
  have tr: "tree i (dom (tasks k)) (kids (tasks k)) (parents (tasks k))" using i(2) by (simp add: tree_inv_def)
  obtain cb where cb: "tasks k c = Some cb" "task_status cb = Zombie" using z by (auto simp: zombies_def)
  have ci: "c \<noteq> i" using i(2) z by (auto simp: tree_inv_def)
  have q: "c \<notin> set (ready_queue k)" "current k \<noteq> Some c" using queue_invD(2,4) [OF I(2), of c] cb by auto
  let ?k = "put_task t (tb\<lparr>children := remove_nth idx (children tb)\<rparr>) k"
  have cin: "c \<in> set (children tb)" using idx by auto
  have d: "distinct (children tb)" using treeD(4) [OF tr, of t] v(1) by simp
  have "t < length (tcbs k)" "tcbs k ! t = Some tb" using tb by (simp_all add: tasks_def split: if_splits)
  then have "sum_list (map (child_refs c) (tcbs ?k)) = sum_list (map (child_refs c) (tcbs k)) + count_list (remove_nth idx (children tb)) c - count_list (children tb) c"
    by (simp add: put_task_def map_update sum_list_update child_refs_def)
  also have "\<dots> = 1 + 0 - 1"
    using child_count [OF i(2), of c] cb(1) ci d idx cin
    by (simp add: count_list_distinct distinct_remove_nth set_remove_nth_distinct domI)
  finally have "sum_list (map (child_refs c) (tcbs ?k)) = 0" by simp
  then show ?thesis using q ci i(1) by (simp add: strong_count_def count_list_0_iff)
qed

lemma get_tasks_eq_Ok:
  "get_tasks ts k = Ok bs \<longleftrightarrow> length bs = length ts \<and> (\<forall>j < length ts. tasks k (ts ! j) = Some (bs ! j))"
proof (induction ts arbitrary: bs)
  case (Cons t ts)
  show ?case
    by (cases bs) (auto simp: Cons get_task_iff All_less_Suc2)
qed auto

lemma free_zombie:
  assumes "tasks k c = Some b" and "children b = []" and "strong_count c k = 0" and "release [c] k = Ok k'"
  shows "tasks k' = (tasks k)(c := None)" and "drop_pid (task_pid b) (PID_ALLOCATOR k) = Ok (PID_ALLOCATOR k')"
    and "length (tcbs k') = length (tcbs k)" "ready_queue k' = ready_queue k" "current k' = current k" "INITPROC k' = INITPROC k"
proof -
  from assms obtain pa ks m where d: "drop_pid (task_pid b) (PID_ALLOCATOR k) = Ok pa"
    and k': "k' = k\<lparr>PID_ALLOCATOR := pa, KERNEL_SPACE := ks, kmm := m, tcbs := (tcbs k)[c := None]\<rparr>"
    by (auto simp: free_task_def get_task_iff)
  have "tcbs k' = (tcbs k)[c := None]" by (simp add: k')
  then show "tasks k' = (tasks k)(c := None)" "length (tcbs k') = length (tcbs k)" by (auto simp: tasks_def fun_eq_iff)
  show "drop_pid (task_pid b) (PID_ALLOCATOR k) = Ok (PID_ALLOCATOR k')" using d by (simp add: k')
  show "ready_queue k' = ready_queue k" "current k' = current k" "INITPROC k' = INITPROC k" by (simp_all add: k')
qed

lemma reap_inv:
  assumes inv: "proc_inv k" and tb: "tasks k t = Some tb" and idx: "idx < length (children tb)" "children tb ! idx = c" and z: "c \<in> zombies (tasks k)"
    and k1: "sched_of k1 = sched_of (put_task t (tb\<lparr>children := remove_nth idx (children tb)\<rparr>) k)" and rel: "release [c] k1 = Ok k'"
  shows "proc_inv k' \<and> current k' = current k"
proof -
  note I = proc_invD [OF inv]
  obtain i where i: "INITPROC k = Some i" "tree_inv i (tasks k)" using I(1) by blast
  have tr: "tree i (dom (tasks k)) (kids (tasks k)) (parents (tasks k))" using i(2) by (simp add: tree_inv_def)
  let ?tb = "tb\<lparr>children := remove_nth idx (children tb)\<rparr>"
  obtain cb where cb: "tasks k c = Some cb" "task_status cb = Zombie" using z by (auto simp: zombies_def)
  have "c \<in> set (kids (tasks k) t)" using idx map_views_at(1) [of "tasks k" t, OF tb] by auto
  then have ct: "c \<noteq> t" using treeD(5) [OF tr] by blast
  have "kids (tasks k) c = []" using i(2) z by (simp add: tree_inv_def)
  then have leaf: "children cb = []" using map_views_at(1) [of "tasks k" c, OF cb(1)] by simp
  have t1: "tasks k1 = (tasks k)(t \<mapsto> ?tb)"
    using k1 tasks_cong [of k1 "put_task t ?tb k"] tb by (simp add: sched_of_def tasks_put)
  have f1: "ready_queue k1 = ready_queue k" "current k1 = current k" "INITPROC k1 = INITPROC k" "PID_ALLOCATOR k1 = PID_ALLOCATOR k" "length (tcbs k1) = length (tcbs k)"
    using k1 by (simp_all add: sched_of_def)
  have zero: "strong_count c k1 = 0" using zombie_unreferenced [OF inv tb idx z] k1 by (simp add: strong_count_def sched_of_def)
  have c1: "tasks k1 c = Some cb" using cb(1) ct by (simp add: t1)
  note F = free_zombie [OF c1 leaf zero rel]
  have "proc_inv k'"
  proof (rule proc_invI)
    show "tree_inv i ((tasks k)(t \<mapsto> ?tb, c := None))" by (rule tree_inv_reap [OF i(2) tb idx z])
    have "queue_inv ((tasks k)(t \<mapsto> ?tb)) (ready_queue k) (current k)"
      by (rule queue_inv_same [OF I(2) tb]) (use queue_invD(2) [OF I(2), of t] tb in auto)
    then show "queue_inv ((tasks k)(t \<mapsto> ?tb, c := None)) (ready_queue k) (current k)"
      by (rule queue_inv_reap) (use cb ct in \<open>auto simp: zombies_def\<close>)
    have "pids_inv ((tasks k)(t \<mapsto> ?tb)) (length (tcbs k)) (PID_ALLOCATOR k)" by (rule pids_inv_same [OF I(4) tb]) (simp add: getpid_def)
    then show "pids_inv ((tasks k)(t \<mapsto> ?tb, c := None)) (length (tcbs k)) (PID_ALLOCATOR k')"
      by (rule pids_inv_free) (use F(2) c1 in \<open>simp_all add: f1 t1\<close>)
    show "block_ok d" if "((tasks k)(t \<mapsto> ?tb, c := None)) u = Some d" for u d
      using that I(3) [OF tb] I(3) [of u d] by (auto simp: block_ok_def split: if_splits)
  qed (use F f1 i in \<open>simp_all add: t1\<close>)
  then show ?thesis using F(5) f1 by simp
qed

lemma current_block_iff: "current_block k = Ok (t, b) \<longleftrightarrow> current k = Some t \<and> tasks k t = Some b"
  by (auto simp: current_block_def get_task_iff)

lemma waitpid_inv:
  assumes inv: "proc_inv k" and "sys_waitpid pid ptr k = Ok (r, k')"
  shows "proc_inv k' \<and> current k' = current k"
proof -
  from assms(2) obtain t b bs where t: "current k = Some t" "tasks k t = Some b" and bs: "get_tasks (children b) k = Ok bs"
    by (auto simp: sys_waitpid_def current_block_iff)
  show ?thesis
  proof (cases "find_index (\<lambda>p. is_zombie p \<and> pid_matches pid p) bs")
    case None
    then show ?thesis using assms t bs by (auto simp: sys_waitpid_def current_block_iff split: if_splits)
  next
    case (Some idx)
    let ?c = "children b ! idx"
    have idx: "idx < length (children b)" "tasks k ?c = Some (bs ! idx)" "is_zombie (bs ! idx)"
      using Some bs by (auto simp: find_index_Some get_tasks_eq_Ok)
    then have z: "?c \<in> zombies (tasks k)" by (auto simp: zombies_def is_zombie_def)
    from assms(2) t bs Some have "k' = k \<or> (\<exists>m. release [?c] ((put_task t (b\<lparr>children := remove_nth idx (children b)\<rparr>) k)\<lparr>kmm := m\<rparr>) = Ok k')"
      by (auto simp: sys_waitpid_def current_block_iff Let_def simp del: release.simps split: if_splits)
    then show ?thesis
    proof
      assume "\<exists>m. release [?c] ((put_task t (b\<lparr>children := remove_nth idx (children b)\<rparr>) k)\<lparr>kmm := m\<rparr>) = Ok k'"
      then obtain m where "release [?c] ((put_task t (b\<lparr>children := remove_nth idx (children b)\<rparr>) k)\<lparr>kmm := m\<rparr>) = Ok k'" ..
      then show ?thesis by (intro reap_inv [OF inv t(2) idx(1) refl z]) (simp_all add: sched_of_def del: release.simps)
    qed (use inv in simp)
  qed
qed

end
