(* ===== verification/SyscallInv.thy ===== *)
theory SyscallInv
  imports ProcInv
begin

text \<open>
  Every step of the kernel keeps the invariant of the process tree: each system call, the trap handler
  and the continuation of a task that was switched to; and the state that \<open>rust_main\<close> starts from
  satisfies it.
\<close>

section \<open>Operations that leave processes alone\<close>

named_theorems frames \<open>operations that do not touch the process tree\<close>

lemma new_file_sched [frames]: "new_file rw ino k = (i, k') \<Longrightarrow> sched_of k' = sched_of k"
  by (auto simp: new_file_def sched_of_def)

lemma sched_fields [simp]:
  "sched_of (k\<lparr>fs := s\<rparr>) = sched_of k" "sched_of (k\<lparr>files := f\<rparr>) = sched_of k" "sched_of (k\<lparr>kmm := m\<rparr>) = sched_of k"
  "sched_of (k\<lparr>console := t\<rparr>) = sched_of k" "sched_of (k\<lparr>mtimecmp := n\<rparr>) = sched_of k"
  "sched_of (set_context_word p i w k) = sched_of k" "sched_of (write_context p c k) = sched_of k"
  "sched_of (print_text x k) = sched_of k" "sched_of (set_next_trigger n k) = sched_of k"
  by (simp_all add: sched_of_def set_context_word_def write_context_def print_text_def set_next_trigger_def)

lemma read_all_sched [frames]: "read_all i k = Ok (v, k') \<Longrightarrow> sched_of k' = sched_of k"
  by (auto simp: read_all_def)

lemma open_file_sched [frames]: "open_file name flags k = Ok (r, k') \<Longrightarrow> sched_of k' = sched_of k"
  by (auto simp: open_file_def Let_def new_file_def split: if_splits option.splits)

lemma link_file_sched [frames]: "link_file a b k = Ok (r, k') \<Longrightarrow> sched_of k' = sched_of k"
  by (auto simp: link_file_def split: option.splits)

lemma unlink_file_sched [frames]: "unlink_file a k = Ok (r, k') \<Longrightarrow> sched_of k' = sched_of k"
  by (auto simp: unlink_file_def)

lemma file_mode_sched [frames]: "file_mode f k = Ok (r, k') \<Longrightarrow> sched_of k' = sched_of k"
  by (cases f) (auto split: if_splits)

lemma os_read_sched [frames]: "os_read i buf k = Ok (r, k') \<Longrightarrow> sched_of k' = sched_of k"
  by (auto simp: os_read_def)

lemma os_write_sched [frames]: "os_write i buf k = Ok (r, k') \<Longrightarrow> sched_of k' = sched_of k"
  by (auto simp: os_write_def)

lemma print_slices_sched [frames]: "print_slices bs k = Ok k' \<Longrightarrow> sched_of k' = sched_of k"
proof (induction bs arbitrary: k)
  case (Cons x bs)
  then show ?case by (cases x) fastforce
qed simp

lemma file_write_sched [frames]: "file_write f buf k = Ok (r, k') \<Longrightarrow> sched_of k' = sched_of k"
  by (cases f) (auto dest: frames)

lemma copy_to_user_sched [frames]: "copy_to_user src dsts k = Ok k' \<Longrightarrow> sched_of k' = sched_of k"
  by (auto simp: copy_to_user_def)

text \<open>Changes of the current block that do not concern the tree.\<close>

lemma put_current_inv:
  assumes inv: "proc_inv k" and cur: "current k = Some t" "tasks k t = Some b"
    and b': "children b' = children b" "parent b' = parent b" "task_status b' = task_status b" "task_pid b' = task_pid b"
      "kernel_stack b' = kernel_stack b" "task_priority b' \<noteq> 0" "length (task_syscall_times b') = length (task_syscall_times b)"
  shows "proc_inv (put_task t b' k) \<and> current (put_task t b' k) = current k"
proof -
  have "block_ok b'" using proc_invD(3) [OF inv cur(2)] b' by (simp add: block_ok_def)
  then show ?thesis using proc_inv_same [OF inv cur(2) b'(1-4)] current_running(2) [OF inv cur(1)] by simp
qed

lemma priority_nonzero: "proc_inv k \<Longrightarrow> tasks k t = Some b \<Longrightarrow> task_priority b \<noteq> 0"
  using proc_invD(3) [of k t b] by (simp add: block_ok_def)

lemma update_times_inv:
  assumes "proc_inv k" and "update_current_syscall_times n k = Ok k'"
  shows "proc_inv k' \<and> current k' = current k"
proof -
  from assms(2) obtain t b v where t: "current k = Some t" "tasks k t = Some b" and k': "k' = put_task t (b\<lparr>task_syscall_times := (task_syscall_times b)[unat n := v]\<rparr>) k"
    by (auto simp: update_current_syscall_times_def current_block_iff)
  show ?thesis unfolding k' by (rule put_current_inv [OF assms(1) t]) (use priority_nonzero [OF assms(1) t(2)] in simp_all)
qed

lemma sys_linkat_sched [frames]: "sys_linkat a b k = Ok (r, k') \<Longrightarrow> sched_of k' = sched_of k"
  by (auto simp: sys_linkat_def dest: frames)

lemma sys_unlinkat_sched [frames]: "sys_unlinkat a k = Ok (r, k') \<Longrightarrow> sched_of k' = sched_of k"
  by (auto simp: sys_unlinkat_def dest: frames)

lemma sys_write_sched [frames]: "sys_write a b c k = Ok (r, k') \<Longrightarrow> sched_of k' = sched_of k"
  by (auto simp: sys_write_def dest: frames split: option.splits)

lemma sys_fstat_sched [frames]: "sys_fstat a b k = Ok (r, k') \<Longrightarrow> sched_of k' = sched_of k"
  by (auto simp: sys_fstat_def dest!: frames split: option.splits)

lemma sys_getpid_sched [frames]: "sys_getpid k = Ok (r, k') \<Longrightarrow> sched_of k' = sched_of k"
  by (auto simp: sys_getpid_def)

lemma sys_get_time_sched [frames]: "sys_get_time a now k = Ok (r, k') \<Longrightarrow> sched_of k' = sched_of k"
  by (auto simp: sys_get_time_def Let_def dest: frames)

lemma sys_task_info_sched [frames]: "sys_task_info P a now k = Ok (r, k') \<Longrightarrow> sched_of k' = sched_of k"
  by (auto simp: sys_task_info_def Let_def dest: frames)

text \<open>The calls that change the current block or make processes.\<close>

lemma sys_close_inv:
  assumes "proc_inv k" and "sys_close fd k = Ok (r, k')"
  shows "proc_inv k' \<and> current k' = current k"
proof -
  from assms(2) obtain t b f where t: "current k = Some t" "tasks k t = Some b" and k': "k' = k \<or> k' = put_task t (b\<lparr>fd_table := f\<rparr>) k"
    by (auto simp: sys_close_def current_block_iff split: if_splits)
  have "proc_inv (put_task t (b\<lparr>fd_table := f\<rparr>) k) \<and> current (put_task t (b\<lparr>fd_table := f\<rparr>) k) = current k"
    by (rule put_current_inv [OF assms(1) t]) (use priority_nonzero [OF assms(1) t(2)] in simp_all)
  then show ?thesis using k' assms(1) by auto
qed

lemma sys_open_inv:
  assumes "proc_inv k" and "sys_open p fl k = Ok (r, k')"
  shows "proc_inv k' \<and> current k' = current k"
proof -
  from assms(2) obtain k1 where k1: "sched_of k1 = sched_of k" and
    or: "k' = k1 \<or> (\<exists>t b f. current k1 = Some t \<and> tasks k1 t = Some b \<and> k' = put_task t (b\<lparr>fd_table := f\<rparr>) k1)"
    by (fastforce simp: sys_open_def current_block_iff alloc_fd_def dest: open_file_sched split: option.splits)
  have inv: "proc_inv k1 \<and> current k1 = current k" by (rule sched_step [OF assms(1) k1])
  have "proc_inv (put_task t (b\<lparr>fd_table := f\<rparr>) k1) \<and> current (put_task t (b\<lparr>fd_table := f\<rparr>) k1) = current k1"
    if "current k1 = Some t" "tasks k1 t = Some b" for t b f
    using inv by (intro put_current_inv [OF _ that]) (use priority_nonzero that(2) in auto)
  then show ?thesis using or inv by auto
qed

lemma set_priority_inv:
  assumes "proc_inv k" and "sys_set_priority p k = Ok (r, k')"
  shows "proc_inv k' \<and> current k' = current k"
proof (cases "2 \<le> sint p")
  case True
  from assms(2) True obtain t b where t: "current k = Some t" "tasks k t = Some b" and k': "k' = put_task t (b\<lparr>task_priority := p\<rparr>) k"
    by (auto simp: sys_set_priority_def set_current_priority_def current_block_iff)
  show ?thesis unfolding k' by (rule put_current_inv [OF assms(1) t]) (use True in auto)
qed (use assms in \<open>simp add: sys_set_priority_def\<close>)

lemma map_calls_inv:
  assumes "proc_inv k" and "insert_current_memory_set a b p k = Ok (r, k') \<or> remove_current_memory_set a b k = Ok (r, k')"
  shows "proc_inv k' \<and> current k' = current k"
proof -
  from assms(2) obtain t tb ms m where t: "current k = Some t" "tasks k t = Some tb" and k': "k' = (put_task t (tb\<lparr>memory_set := ms\<rparr>) k)\<lparr>kmm := m\<rparr>"
    by (auto simp: insert_current_memory_set_def remove_current_memory_set_def current_block_iff)
  have "proc_inv (put_task t (tb\<lparr>memory_set := ms\<rparr>) k) \<and> current (put_task t (tb\<lparr>memory_set := ms\<rparr>) k) = current k"
    by (rule put_current_inv [OF assms(1) t]) (use priority_nonzero [OF assms(1) t(2)] in simp_all)
  then show ?thesis using sched_step [of "put_task t (tb\<lparr>memory_set := ms\<rparr>) k" k'] by (simp add: k')
qed

lemma sys_mmap_inv:
  assumes "proc_inv k" and "sys_mmap a b c k = Ok (r, k')"
  shows "proc_inv k' \<and> current k' = current k"
proof -
  from assms(2) have "k' = k \<or> (\<exists>p r. insert_current_memory_set (VirtAddr a) (VirtAddr (a + b)) p k = Ok (r, k'))"
    by (auto simp: sys_mmap_def split: if_splits)
  then show ?thesis using map_calls_inv [OF assms(1)] assms(1) by metis
qed

lemma sys_munmap_inv: "proc_inv k \<Longrightarrow> sys_munmap a b k = Ok (r, k') \<Longrightarrow> proc_inv k' \<and> current k' = current k"
  unfolding sys_munmap_def by (rule map_calls_inv) auto

lemma sys_exec_inv:
  assumes "proc_inv k" and r: "sys_exec P p k = Ok (r, k')"
  shows "proc_inv k' \<and> current k' = current k"
proof -
  from r obtain path app k1 where o: "user_str p k = Ok path" "open_file path OF_RDONLY k = Ok (app, k1)"
    by (auto simp: sys_exec_def)
  have k1: "proc_inv k1 \<and> current k1 = current k" by (rule sched_step [OF assms(1) open_file_sched [OF o(2)]])
  show ?thesis
  proof (cases app)
    case (Some i)
    with r o obtain d k2 t where *: "read_all i k1 = Ok (d, k2)" "tcb_exec P t d k2 = Ok k'" by (auto simp: sys_exec_def)
    have "proc_inv k2 \<and> current k2 = current k1" using k1 by (intro sched_step [OF _ read_all_sched [OF *(1)]]) simp
    then show ?thesis using exec_inv [OF _ *(2)] k1 by simp
  qed (use k1 r o in \<open>simp add: sys_exec_def\<close>)
qed

lemma sys_spawn_inv:
  assumes "proc_inv k" and r: "sys_spawn P p k = Ok (r, k')"
  shows "proc_inv k' \<and> current k' = current k"
proof -
  from r obtain path app k1 where o: "user_str p k = Ok path" "open_file path OF_RDONLY k = Ok (app, k1)"
    by (auto simp: sys_spawn_def)
  have k1: "proc_inv k1 \<and> current k1 = current k" by (rule sched_step [OF assms(1) open_file_sched [OF o(2)]])
  show ?thesis
  proof (cases app)
    case (Some i)
    with r o obtain d k2 t c k3 where *: "read_all i k1 = Ok (d, k2)" "current k2 = Some t" "tcb_spawn P t d k2 = Ok (c, k3)" "start_child c k3 = Ok (r, k')"
      by (auto simp: sys_spawn_def)
    have "proc_inv k2 \<and> current k2 = current k1" using k1 by (intro sched_step [OF _ read_all_sched [OF *(1)]]) simp
    then show ?thesis using spawn_inv [OF _ *(2-4)] k1 by simp
  qed (use k1 r o in \<open>simp add: sys_spawn_def\<close>)
qed

lemma stdin_round_inv:
  assumes "proc_inv k" and "current k \<noteq> None" and "stdin_round a c now k = Ok (r, k')"
  shows "proc_inv k' \<and> current k' \<noteq> None"
  using assms suspend_inv [OF assms(1)] sched_step [OF assms(1), of k'] by (auto simp: stdin_round_def split: if_splits)

lemma sys_read_inv:
  assumes inv: "proc_inv k" and cur: "current k \<noteq> None" and r: "sys_read fd buf len c now k = Ok (r, k')"
  shows "proc_inv k' \<and> current k' \<noteq> None"
proof -
  from r obtain f where f: "current_file fd k = Ok f" by (auto simp: sys_read_def)
  show ?thesis
  proof (cases f)
    case (Some g)
    with r f obtain bs where g: "file_read g (ub_new bs) c now k = Ok (r, k')" by (auto simp: sys_read_def)
    then show ?thesis
    proof (cases g)
      case Stdin
      with g obtain a where "stdin_round a c now k = Ok (r, k')" by (auto split: prod.splits)
      then show ?thesis by (rule stdin_round_inv [OF inv cur])
    next
      case (OSFile i)
      with g have "sched_of k' = sched_of k" by (auto dest: frames)
      then show ?thesis using sched_step [OF inv, of k'] cur by simp
    qed simp
  qed (use r f inv cur in \<open>simp add: sys_read_def\<close>)
qed

section \<open>Steps of the kernel\<close>

lemma answeredD: "answered m = Ok (r, k') \<Longrightarrow> \<exists>v. m = Ok (v, k')"
  by (auto simp: answered_def)

lemma syscall_inv:
  assumes inv: "proc_inv k" and cur: "current k \<noteq> None" and r: "syscall P n args c now k = Ok (r, k')"
  shows "proc_inv k' \<and> current k' \<noteq> None"
proof -
  from r obtain k1 where k1: "update_current_syscall_times n k = Ok k1" by (auto simp: syscall_def)
  have i1: "proc_inv k1" "current k1 \<noteq> None" using update_times_inv [OF inv k1] cur by auto
  have same: "proc_inv x \<and> current x = current k1 \<Longrightarrow> proc_inv x \<and> current x \<noteq> None" for x using i1(2) by simp
  note calls = frames [THEN sched_step [OF i1(1)]] sys_close_inv [OF i1(1)] sys_open_inv [OF i1(1)] set_priority_inv [OF i1(1)]
    sys_mmap_inv [OF i1(1)] sys_munmap_inv [OF i1(1)] sys_exec_inv [OF i1(1)] sys_spawn_inv [OF i1(1)] fork_inv [OF i1(1)] waitpid_inv [OF i1(1)]
  from r k1 show ?thesis
    unfolding syscall_def
    by (simp split: if_splits)
      (auto dest!: answeredD dest: calls [THEN same] sys_read_inv [OF i1] exit_inv [OF i1(1)] suspend_inv [OF i1(1)] simp: sys_exit_def sys_yield_def)
qed

lemma enter_user_inv:
  assumes "proc_inv k" and "enter_user k = Ok k'"
  shows "proc_inv k' \<and> current k' = current k"
proof -
  from assms(2) obtain t b where t: "current k = Some t" "tasks k t = Some b" and k': "k' = put_task t (b\<lparr>resume := None\<rparr>) k"
    by (auto simp: enter_user_def trap_return_def current_block_iff)
  show ?thesis unfolding k' by (rule put_current_inv [OF assms(1) t]) (use priority_nonzero [OF assms(1) t(2)] in simp_all)
qed

lemma finish_syscall_inv:
  assumes "proc_inv k" and "finish_syscall r k = Ok k'"
  shows "proc_inv k' \<and> current k' = current k"
proof -
  from assms(2) obtain cx where e: "enter_user (set_context_word cx REG_A0 r k) = Ok k'" by (auto simp: finish_syscall_def)
  have "proc_inv (set_context_word cx REG_A0 r k) \<and> current (set_context_word cx REG_A0 r k) = current k"
    by (rule sched_step [OF assms(1)]) simp
  then show ?thesis using enter_user_inv [OF _ e] by simp
qed

lemma trap_handler_inv:
  assumes inv: "proc_inv k" and cur: "current k \<noteq> None" and r: "trap_handler P cause c now k = Ok k'"
  shows "proc_inv k' \<and> current k' \<noteq> None"
proof (cases "cause = UserEnvCall")
  case True
  with r obtain cx where cx: "current_trap_cx k = Ok cx" by (auto simp: trap_handler_def)
  define k1 where "k1 = set_context_word cx SEPC (tc_get cx SEPC (mem (kmm k)) + 4) k"
  have i1: "proc_inv k1" "current k1 \<noteq> None" using sched_step [OF inv, of k1] cur by (auto simp: k1_def)
  from r True cx obtain n args res k2 where sc: "syscall P n args c now k1 = Ok (res, k2)"
    and rest: "(case res of Some r \<Rightarrow> finish_syscall r k2 | None \<Rightarrow> Ok k2) = Ok k'"
    by (auto simp: trap_handler_def Let_def k1_def [symmetric])
  have i2: "proc_inv k2 \<and> current k2 \<noteq> None" by (rule syscall_inv [OF i1 sc])
  then show ?thesis using rest finish_syscall_inv [of k2 _ k'] by (auto split: option.splits)
next
  case False
  have "proc_inv (set_next_trigger now k)" using sched_step [OF inv, of "set_next_trigger now k"] by simp
  then show ?thesis using False r exit_inv [OF inv] suspend_inv [of "set_next_trigger now k"] by (auto simp: trap_handler_def split: if_splits)
qed

lemma resume_inv:
  assumes inv: "proc_inv k" and cur: "current k \<noteq> None" and r: "resume_current c now k = Ok k'"
  shows "proc_inv k' \<and> current k' \<noteq> None"
proof -
  from r obtain t b where b: "current_block k = Ok (t, b)" by (auto simp: resume_current_def)
  show ?thesis
  proof (cases "resume b")
    case (Some p)
    then show ?thesis
    proof (cases p)
      case (StdinRead a)
      with Some r b obtain res k1 where s: "stdin_round a c now k = Ok (res, k1)"
        and rest: "(case res of Some n \<Rightarrow> finish_syscall n k1 | None \<Rightarrow> Ok k1) = Ok k'" by (auto simp: resume_current_def)
      have "proc_inv k1 \<and> current k1 \<noteq> None" by (rule stdin_round_inv [OF inv cur s])
      then show ?thesis using rest finish_syscall_inv [of k1 _ k'] by (auto split: option.splits)
    qed (use r b Some enter_user_inv [OF inv, of k'] finish_syscall_inv [OF inv, of _ k'] cur in \<open>auto simp: resume_current_def\<close>)
  qed (use r b inv cur in \<open>auto simp: resume_current_def\<close>)
qed

lemma kernel_step_inv:
  assumes "kernel_step P k k'" and "proc_inv k" and "current k \<noteq> None"
  shows "proc_inv k' \<and> current k' \<noteq> None"
  using assms
proof (cases rule: kernel_step.cases)
  case (step_trap cause regs pc c now)
  then obtain cx where t: "trap_handler P cause c now (k\<lparr>kmm := (kmm k)\<lparr>mem := save_context cx regs (user_sstatus P) pc (mem (kmm k))\<rparr>\<rparr>) = Ok k'"
    by (auto simp: take_trap_def)
  have "proc_inv (k\<lparr>kmm := (kmm k)\<lparr>mem := save_context cx regs (user_sstatus P) pc (mem (kmm k))\<rparr>\<rparr>)"
    using proc_inv_cong [of "k\<lparr>kmm := (kmm k)\<lparr>mem := save_context cx regs (user_sstatus P) pc (mem (kmm k))\<rparr>\<rparr>" k] assms(2) by simp
  then show ?thesis using trap_handler_inv [OF _ _ t] assms(3) by simp
next
  case (step_resume c now)
  then show ?thesis using resume_inv assms by blast
next
  case (step_store a v)
  then have "sched_of k' = sched_of k" by (auto simp: user_store_def split: option.splits if_splits)
  then show ?thesis using sched_step [OF assms(2), of k'] assms(3) by simp
qed

lemma kernel_reaches_inv:
  assumes "kernel_reaches P k k'" and "proc_inv k" and "current k \<noteq> None"
  shows "proc_inv k' \<and> current k' \<noteq> None"
  using assms by (induction rule: kernel_reaches.induct) (auto dest: kernel_step_inv)

section \<open>The first process\<close>

lemma list_apps_sched:
  assumes "list_apps k = Ok k'"
  shows "sched_of k' = sched_of k"
proof -
  have "sched_of (foldl (\<lambda>k app. print_text (app @ newline) k) k apps) = sched_of k" for k :: "'a kernel" and apps
    by (induction apps arbitrary: k) simp_all
  then show ?thesis using assms by (auto simp: list_apps_def Let_def)
qed

lemma first_inv:
  assumes k: "tcbs k = []" "ready_queue k = []" "current k = None" "PID_ALLOCATOR k = pa_new"
    and "add_initproc P k = Ok k'"
  shows "proc_inv k' \<and> current k' = None"
proof -
  from assms(5) obtain path i k1 d k2 t k3 where o: "open_file path OF_RDONLY k = Ok (Some i, k1)" and rd: "read_all i k1 = Ok (d, k2)"
    and new: "tcb_new P d k2 = Ok (t, k3)" and k': "k' = add_task t (k3\<lparr>INITPROC := Some t\<rparr>)"
    by (auto simp: add_initproc_def make_initproc_def)
  have s2: "sched_of k2 = sched_of k" using open_file_sched [OF o] read_all_sched [OF rd] by simp
  from new obtain ms user_sp entry m cx h ks k4 where ps: "pid_and_stack (k2\<lparr>kmm := m\<rparr>) = Ok (h, ks, k4)"
    and al: "alloc_task (tcb_initial (trap_return_addr P) h ks cx user_sp ms None standard_fds) (write_context cx (app_context P entry user_sp ks k4) k4) = (t, k3)"
    by (auto simp: tcb_new_def)
  note S = pid_and_stack_sched [OF ps]
  let ?b = "tcb_initial (trap_return_addr P) h ks cx user_sp ms None standard_fds"
  have t: "t = 0" "tcbs k3 = [Some ?b]" "ready_queue k3 = []" "current k3 = None" "PID_ALLOCATOR k3 = PID_ALLOCATOR k4"
    using al S s2 k by (auto simp: alloc_task_def sched_of_def write_context_def)
  have M: "tasks k' = Map.empty(0 \<mapsto> ?b)" by (auto simp: tasks_def k' add_task_def t fun_eq_iff)
  have "proc_inv k'"
  proof (rule proc_invI [OF _ _ _ _ _ M])
    show "tree_inv 0 (Map.empty(0 \<mapsto> ?b))"
      by (auto simp: tree_inv_def tree_def kids_def parents_def zombies_def tcb_initial_def)
    show "queue_inv (Map.empty(0 \<mapsto> ?b)) [0] None" by (auto simp: queue_inv_def tcb_initial_def)
    show "block_ok c" if "(Map.empty(0 \<mapsto> ?b)) u = Some c" for u c using that S(2) by (auto simp: block_ok_initial split: if_splits)
    have "pids Map.empty = Map.empty" by (simp add: pids_def fun_eq_iff)
    then have "pids_inv Map.empty 0 pa_new" by (simp add: pids_inv_def pa_new_def pid_inv_def pid_live_def)
    then show "pids_inv (Map.empty(0 \<mapsto> ?b)) (Suc 0) (PID_ALLOCATOR k4)"
      by (rule pids_inv_new) (use S(1) s2 k in \<open>simp_all add: sched_of_def tcb_initial_def\<close>)
  qed (simp_all add: k' add_task_def t)
  then show ?thesis by (simp add: k' add_task_def t)
qed

text \<open>The state in which \<open>rust_main\<close> switches to \<open>initproc\<close> satisfies the invariant.\<close>

lemma rust_main_inv:
  assumes "rust_main P L dma dev w m now = Ok k"
  shows "proc_inv k \<and> current k \<noteq> None"
proof -
  from assms obtain m1 space root s k1 k2 where
    la: "list_apps \<lparr>kmm = m1, KERNEL_SPACE = space, PID_ALLOCATOR = pa_new, tcbs = [], ready_queue = [], current = None,
        idle_task_cx = zero_init, INITPROC = None, files = [], fs = s, ROOT_INODE = root,
        console = ascii ''[kernel] Hello, world!'' @ newline, mtimecmp = now + CLOCK_FREQ div TICKS_PER_SEC\<rparr> = Ok k1"
    and ai: "add_initproc P k1 = Ok k2" and run: "run_tasks now k2 = Ok k"
    by (auto simp: rust_main_def Let_def set_next_trigger_def)
  have "proc_inv k2 \<and> current k2 = None"
    by (rule first_inv [OF _ _ _ _ ai]) (use list_apps_sched [OF la] in \<open>simp_all add: sched_of_def\<close>)
  then show ?thesis using run_tasks_inv [OF _ _ run] by simp
qed

end
