(* ===== verification/Processes.thy ===== *)
theory Processes
  imports SyscallInv
begin

text \<open>
  What the invariant of the process tree gives in every reachable state: the invariant itself, that
  \<open>sys_waitpid\<close> frees a block that nothing refers to any more, that live processes have different
  pids; and where the kernel panics on a system call: \<open>initproc\<close> must not end, and the number of a call
  must be known.
\<close>

section \<open>A state to try the statements on\<close>

definition demo_params :: params where
  "demo_params = \<lparr>parse_elf = (\<lambda>_. None), tramp_pa = 0x80200000, trap_handler_addr = 0x80201000, trap_return_addr = 0x80202000,
     user_sstatus = 0, task_info_bytes = (\<lambda>_ _ _. replicate 2016 0)\<rparr>"

lemma demo_tasks: "tasks (demo_kernel p) = [0 \<mapsto> (demo_tcb 0 p 3)\<lparr>parent := None, children := [1, 2], task_status := Running, resume := None\<rparr>,
    1 \<mapsto> demo_tcb 1 2 5, 2 \<mapsto> demo_tcb 2 16 4]"
  by (auto simp: fun_eq_iff tasks_def demo_kernel_def less_Suc_eq numeral_eq_Suc)

lemma demo_length: "length (tcbs (demo_kernel p)) = 3"
  by (simp add: demo_kernel_def)

lemma demo_tcb_fields [simp]:
  "children (demo_tcb i p q) = []" "parent (demo_tcb i p q) = Some 0" "task_status (demo_tcb i p q) = Ready" "resume (demo_tcb i p q) = Some TrapReturn"
  "getpid (demo_tcb i p q) = i" "trap_cx_ppn (demo_tcb i p q) = PhysPageNum 0x80500" "task_pid (demo_tcb i p q) = PidHandle i"
  by (simp_all add: demo_tcb_def tcb_initial_def getpid_def)

lemma pids_empty: "pids Map.empty = Map.empty"
  by (simp add: fun_eq_iff pids_def)

lemma demo_inv: "p \<noteq> 0 \<Longrightarrow> proc_inv (demo_kernel p)"
proof (rule proc_invI [OF demo_kernel_fields(3) _ _ _ _ demo_tasks demo_kernel_fields(1,2) refl refl])
  let ?M = "[0 \<mapsto> (demo_tcb 0 p 3)\<lparr>parent := None, children := [1, 2], task_status := Running, resume := None\<rparr>, 1 \<mapsto> demo_tcb 1 2 5, 2 \<mapsto> demo_tcb 2 16 4]"
  show "tree_inv 0 ?M" by (auto simp: tree_inv_def tree_def kids_def parents_def zombies_def split: if_splits)
  show "queue_inv ?M [1, 2] (Some 0)" by (auto simp: queue_inv_def split: if_splits)
  show "block_ok b" if "p \<noteq> 0" "?M t = Some b" for t b
    using that by (auto simp: block_ok_def demo_tcb_def tcb_initial_def MAX_SYSCALL_NUM_def split: if_splits)
  have "{q :: usize. q < 3} = {0, 1, 2}"
  proof -
    have "q < 3 \<longleftrightarrow> q = 0 \<or> q = 1 \<or> q = 2" for q :: usize
      unfolding word_less_nat_alt word_unat_eq_iff by auto
    then show ?thesis by auto
  qed
  moreover have p: "pids ?M = [0 \<mapsto> 0, 1 \<mapsto> 1, 2 \<mapsto> 2]" by (simp add: getpid_def pids_empty)
  moreover have "inj_on (pids ?M) (dom ?M)" unfolding p by (auto simp: inj_on_def)
  ultimately show "pids_inv ?M (length (tcbs (demo_kernel p))) (PID_ALLOCATOR (demo_kernel p))"
    by (simp add: pids_inv_def demo_kernel_def pid_inv_def pid_live_def insert_commute)
qed

section \<open>Properties\<close>

text \<open>C24: the process tree and the ready queue stay consistent. In every state that is reachable, by traps
  of any kind, system calls with any arguments, resumptions and stores of the program, from a state
  with the invariant, every process but \<open>initproc\<close> is listed by exactly one live process, its parent;
  zombies have no children; each process that is not a zombie is either current or in the ready queue,
  once, and ready to be switched to; no priority is 0; and pids, kernel stacks and the pid allocator
  agree. The state in which \<open>rust_main\<close> starts \<open>initproc\<close> has the invariant.\<close>

theorem process_tree_invariant:
  assumes "kernel_reaches P k k'" and "proc_inv k" and "current k \<noteq> None"
  shows "proc_inv k' \<and> current k' \<noteq> None"
  by (rule kernel_reaches_inv [OF assms])

lemma demo_timer:
  "\<exists>k'. kernel_step demo_params (demo_kernel 16) k' \<and> current k' \<noteq> None"
proof -
  let ?k = "demo_kernel 16"
  have b: "current_block ?k = Ok (0, (demo_tcb 0 16 3)\<lparr>parent := None, children := [1, 2], task_status := Running, resume := None\<rparr>)"
    by (simp add: current_block_iff demo_tasks)
  then have u: "in_user ?k" "current_trap_cx ?k = Ok (PhysPageNum 0x80500)" by (simp_all add: in_user_def current_trap_cx_def)
  define k1 where "k1 = set_next_trigger 7 (?k\<lparr>kmm := (kmm ?k)\<lparr>mem := save_context (PhysPageNum 0x80500) (replicate 32 0) (user_sstatus demo_params) 0 (mem (kmm ?k))\<rparr>\<rparr>)"
  have s1: "sched_of k1 = sched_of ?k" by (simp add: k1_def)
  then have t1: "tasks k1 = tasks ?k" "current k1 = Some 0" "ready_queue k1 = [1, 2]" using tasks_cong [of k1 ?k] by (simp_all add: sched_of_def)
  have "valid_task k1 t = valid_task ?k t" "tcb_of k1 t = tcb_of ?k t" for t using s1 by (simp_all add: sched_of_def valid_task_def tcb_of_def)
  then have "pool_ok k1" using t1 by (auto simp: pool_ok_def pool_def)
  from yield_ok [OF this, of TrapReturn 7] obtain k' where "suspend_current_and_run_next TrapReturn 7 k1 = Ok k'" "current k' \<noteq> None"
    by (auto simp: returns_def)
  moreover from this(1) have "take_trap demo_params SupervisorTimer (replicate 32 0) 0 0 7 ?k = Ok k'"
    by (simp add: take_trap_def u(2) trap_handler_def k1_def)
  ultimately show ?thesis using step_trap [OF u(1)] by blast
qed

theorem process_tree_invariant_witness:
  "\<exists>k'. kernel_reaches demo_params (demo_kernel 16) k' \<and> proc_inv k' \<and> current k' \<noteq> None"
proof -
  obtain k' where "kernel_step demo_params (demo_kernel 16) k'" using demo_timer by blast
  then have r: "kernel_reaches demo_params (demo_kernel 16) k'" by (rule reaches_step [OF reaches_refl])
  show ?thesis using process_tree_invariant [OF r] demo_inv [of 16] r by auto
qed

text \<open>A zombie has no children to release.\<close>

lemma free_zombie_children:
  assumes "proc_inv k" and "tasks k t = Some b" and "idx < length (children b)" and "children b ! idx \<in> zombies (tasks k)"
    and "free_task (children b ! idx) ((put_task t (b\<lparr>children := xs\<rparr>) k)\<lparr>kmm := m\<rparr>) = Ok (cs, k3)"
  shows "cs = []"
proof -
  obtain i where i: "tree_inv i (tasks k)" using proc_invD(1) [OF assms(1)] by blast
  let ?c = "children b ! idx"
  have tr: "tree i (dom (tasks k)) (kids (tasks k)) (parents (tasks k))" using i by (simp add: tree_inv_def)
  have "?c \<in> set (kids (tasks k) t)" using assms(3) map_views_at(1) [of "tasks k" t b, OF assms(2)] by simp
  then have ct: "?c \<noteq> t" using treeD(5) [OF tr] by metis
  have "kids (tasks k) ?c = []" using i assms(4) by (simp add: tree_inv_def)
  then have "children cb = []" if "tasks k ?c = Some cb" for cb using map_views_at(1) [of "tasks k" ?c cb, OF that] by simp
  then show ?thesis using assms(5) ct by (auto simp: free_task_def get_task_iff tasks_put [OF assms(2)])
qed

text \<open>C25: what \<open>sys_waitpid\<close> does in every reachable state. It answers -1 where no child has the pid asked
  for, -2 where such a child exists but none of them has ended, and otherwise removes the first zombie
  that matches from the children, stores its exit code at the address given and frees its block, pid,
  kernel stack and address space: the assertion that nothing else holds the child never fails, so the
  system call behaves like this reference without it.\<close>

theorem waitpid_outcomes:
  assumes "proc_inv k" and "current k = Some t" and "tasks k t = Some b"
  shows "sys_waitpid pid ptr k =
    (let bs = map (\<lambda>c. the (tasks k c)) (children b) in
     if filter (pid_matches pid) bs = [] then Ok (- 1, k)
     else case find_index (\<lambda>p. is_zombie p \<and> pid_matches pid p) bs of
       None \<Rightarrow> Ok (- 2, k)
     | Some i \<Rightarrow>
         (let k1 = put_task t (b\<lparr>children := remove_nth i (children b)\<rparr>) k in
          bindr (translated_refmut (get_user_token b) ptr (mem (kmm k))) (\<lambda>pa.
          bindr (free_task (children b ! i) (k1\<lparr>kmm := (kmm k)\<lparr>mem := write_bytes (mem (kmm k)) (pa_val pa) (le_bytes 4 (exit_code (bs ! i)))\<rparr>\<rparr>))
            (\<lambda>(_, k2). Ok (getpid (bs ! i), k2)))))"
proof -
  obtain i where "tree_inv i (tasks k)" using proc_invD(1) [OF assms(1)] by blast
  then have tr: "tree i (dom (tasks k)) (kids (tasks k)) (parents (tasks k))" by (simp add: tree_inv_def)
  let ?bs = "map (\<lambda>c. the (tasks k c)) (children b)"
  have "tasks k c = Some (the (tasks k c))" if "c \<in> set (children b)" for c
    using treeD(6) [OF tr, of c t] that map_views_at(1) [of "tasks k" t b, OF assms(3)] by auto
  then have bs: "get_tasks (children b) k = Ok ?bs" by (simp add: get_tasks_eq_Ok)
  have cb: "current_block k = Ok (t, b)" using assms(2,3) by (simp add: current_block_iff)
  show ?thesis
  proof (cases "find_index (\<lambda>p. is_zombie p \<and> pid_matches pid p) ?bs")
    case None
    then show ?thesis by (simp add: sys_waitpid_def cb bs Let_def filter_empty_conv)
  next
    case (Some j)
    let ?c = "children b ! j" and ?k1 = "put_task t (b\<lparr>children := remove_nth j (children b)\<rparr>) k"
    have j: "j < length (children b)" "tasks k ?c = Some (?bs ! j)" "is_zombie (?bs ! j)" "pid_matches pid (?bs ! j)"
      using Some bs by (auto simp: find_index_Some get_tasks_eq_Ok)
    then have z: "?c \<in> zombies (tasks k)" by (auto simp: zombies_def is_zombie_def)
    have ref: "strong_count ?c ?k1 = 0" by (rule zombie_unreferenced [OF assms(1,3) j(1) refl z])
    have some: "filter (pid_matches pid) ?bs \<noteq> []" using j(1,4) by (auto simp: filter_empty_conv)
    have leaf: "cs = []" if "free_task ?c (?k1\<lparr>kmm := m\<rparr>) = Ok (cs, k3)" for m cs k3
      using free_zombie_children [OF assms(1,3) j(1) z that] .
    have rel: "release [?c] (?k1\<lparr>kmm := m\<rparr>) = bindr (free_task ?c (?k1\<lparr>kmm := m\<rparr>)) (\<lambda>(_, k). Ok k)" for m
      using ref leaf [of m] by (cases "free_task ?c (?k1\<lparr>kmm := m\<rparr>)") (auto simp: strong_count_def)
    have ex: "\<exists>p \<in> set ?bs. pid_matches pid p" using some by (simp add: filter_empty_conv)
    have km: "kmm ?k1 = kmm k" by (simp add: put_task_def)
    have "sys_waitpid pid ptr k = bindr (translated_refmut (get_user_token b) ptr (mem (kmm k))) (\<lambda>pa.
        bindr (release [?c] (?k1\<lparr>kmm := (kmm k)\<lparr>mem := write_bytes (mem (kmm k)) (pa_val pa) (le_bytes 4 (exit_code (?bs ! j)))\<rparr>\<rparr>))
          (\<lambda>k. Ok (getpid (?bs ! j), k)))"
      unfolding sys_waitpid_def cb bs bindr.simps prod.case if_not_P [OF not_not [THEN iffD2, OF ex]] Some option.case Let_def ref km by simp
    then show ?thesis unfolding rel Let_def if_not_P [OF some] Some option.case by (simp add: bindr_assoc split_def)
  qed
qed

theorem waitpid_outcomes_witness:
  "sys_waitpid (- 1) 0 (demo_kernel 16) = Ok (- 2, demo_kernel 16) \<and> sys_waitpid 7 0 (demo_kernel 16) = Ok (- 1, demo_kernel 16)"
proof -
  let ?k = "demo_kernel 16"
  have t: "proc_inv ?k" "current ?k = Some 0" "tasks ?k 0 = Some ((demo_tcb 0 16 3)\<lparr>parent := None, children := [1, 2], task_status := Running, resume := None\<rparr>)"
    using demo_inv [of 16] by (simp_all add: demo_tasks)
  show ?thesis using waitpid_outcomes [OF t, of "- 1" 0] waitpid_outcomes [OF t, of 7 0]
    by (simp add: demo_tasks pid_matches_def is_zombie_def)
qed





text \<open>C31: the number of a system call decides over the whole kernel. A number that is not one of the nineteen
  calls stops the kernel: from 500 on by an index out of range in the table of call counts, below 500
  by the explicit panic of the dispatcher. A user program can do so at any time.\<close>

definition supported_calls :: "usize set" where
  "supported_calls = {35, 37, 56, 57, 63, 64, 80, 93, 124, 140, 169, 172, 215, 220, 221, 222, 260, 400, 410}"

theorem unknown_syscall_panics:
  assumes "proc_inv k" and "current k \<noteq> None" and "n \<notin> supported_calls"
  shows "syscall P n args c now k = Panic (if unat n < 500 then Explicit ''Unsupported syscall_id'' else IndexOutOfBounds)"
proof -
  obtain t b where t: "current_block k = Ok (t, b)" using assms(1,2) current_running(1) by (fastforce simp: current_block_iff)
  then have "length (task_syscall_times b) = 500"
    using proc_invD(3) [OF assms(1), of t b] by (simp add: current_block_iff block_ok_def MAX_SYSCALL_NUM_def)
  then have u: "update_current_syscall_times n k = (if unat n < 500
      then Ok (put_task t (b\<lparr>task_syscall_times := (task_syscall_times b)[unat n := task_syscall_times b ! unat n + 1]\<rparr>) k) else Panic IndexOutOfBounds)"
    by (simp add: update_current_syscall_times_def t indexr_def)
  show ?thesis using assms(3) by (simp add: syscall_def u supported_calls_def syscall_numbers)
qed

theorem unknown_syscall_panics_witness:
  "syscall demo_params 500 [0, 0, 0, 0] 0 0 (demo_kernel 16) = Panic IndexOutOfBounds \<and>
   syscall demo_params 36 [0, 0, 0, 0] 0 0 (demo_kernel 16) = Panic (Explicit ''Unsupported syscall_id'')"
  using unknown_syscall_panics [of "demo_kernel 16" 500 demo_params "[0, 0, 0, 0]" 0 0]
    unknown_syscall_panics [of "demo_kernel 16" 36 demo_params "[0, 0, 0, 0]" 0 0] demo_inv [of 16]
  by (simp add: supported_calls_def)

end
