(* ===== verification/Sbi.thy ===== *)
theory Sbi
  imports Prelude
begin

text \<open>
  Calls of the firmware (\<open>src/os/src/sbi.rs\<close>). The firmware is a parameter: what an \<open>ecall\<close> does with the
  number of the call and its three arguments on a machine in some state. A call comes back with a value
  and the machine, or the machine is off.
\<close>

datatype ('a, 'm) run = Back 'a 'm | Off 'm

fun bind_run :: "('a, 'm) run \<Rightarrow> ('a \<Rightarrow> 'm \<Rightarrow> ('b, 'm) run) \<Rightarrow> ('b, 'm) run" where
  "bind_run (Back a m) f = f a m"
| "bind_run (Off m) f = Off m"

type_synonym 'm firmware = "usize \<Rightarrow> usize \<Rightarrow> usize \<Rightarrow> usize \<Rightarrow> 'm \<Rightarrow> (usize, 'm) run"

definition SBI_SET_TIMER :: usize where "SBI_SET_TIMER = 0"
definition SBI_CONSOLE_PUTCHAR :: usize where "SBI_CONSOLE_PUTCHAR = 1"
definition SBI_CONSOLE_GETCHAR :: usize where "SBI_CONSOLE_GETCHAR = 2"
definition SBI_SHUTDOWN :: usize where "SBI_SHUTDOWN = 8"

lemmas sbi_calls = SBI_SET_TIMER_def SBI_CONSOLE_PUTCHAR_def SBI_CONSOLE_GETCHAR_def SBI_SHUTDOWN_def

definition sbi_call :: "'m firmware \<Rightarrow> usize \<Rightarrow> usize \<Rightarrow> usize \<Rightarrow> usize \<Rightarrow> 'm \<Rightarrow> (usize, 'm) run" where
  "sbi_call E which arg0 arg1 arg2 m = E which arg0 arg1 arg2 m"

definition set_timer :: "'m firmware \<Rightarrow> usize \<Rightarrow> 'm \<Rightarrow> (unit, 'm) run" where
  "set_timer E timer m = bind_run (sbi_call E SBI_SET_TIMER timer 0 0 m) (\<lambda>_ m. Back () m)"

definition console_putchar :: "'m firmware \<Rightarrow> usize \<Rightarrow> 'm \<Rightarrow> (unit, 'm) run" where
  "console_putchar E c m = bind_run (sbi_call E SBI_CONSOLE_PUTCHAR c 0 0 m) (\<lambda>_ m. Back () m)"

definition console_getchar :: "'m firmware \<Rightarrow> 'm \<Rightarrow> (usize, 'm) run" where
  "console_getchar E m = sbi_call E SBI_CONSOLE_GETCHAR 0 0 0 m"

text \<open>\<open>shutdown\<close> panics with this message where the call comes back.\<close>

definition shutdown :: "'m firmware \<Rightarrow> 'm \<Rightarrow> (string, 'm) run" where
  "shutdown E m = bind_run (sbi_call E SBI_SHUTDOWN 0 0 0 m) (\<lambda>_ m. Back ''It should shutdown!'' m)"

end
