(* ===== verification/Console.thy ===== *)
theory Console
  imports Sbi
begin

text \<open>
  Text on the console: \<open>src/os/src/console.rs\<close>, the logger (\<open>src/os/src/logging.rs\<close>) and the panic handler
  (\<open>src/os/src/lang_items.rs\<close>). Text is a list of code points. What \<open>core::fmt\<close> makes of the arguments of a
  format string is text already; numbers are printed in decimal.
\<close>

type_synonym rtext = "nat list"

definition txt_of :: "string \<Rightarrow> rtext" where
  "txt_of s = map of_char s"

text \<open>\<open>{}\<close> for a number\<close>

fun decimal :: "nat \<Rightarrow> rtext" where
  "decimal n = (if n < 10 then [48 + n] else decimal (n div 10) @ [48 + n mod 10])"

declare decimal.simps [simp del]

section \<open>Printing\<close>

fun write_str :: "'m firmware \<Rightarrow> rtext \<Rightarrow> 'm \<Rightarrow> (unit, 'm) run" where
  "write_str E [] m = Back () m"
| "write_str E (c # cs) m = bind_run (console_putchar E (of_nat c) m) (\<lambda>_ m. write_str E cs m)"

definition print :: "'m firmware \<Rightarrow> rtext \<Rightarrow> 'm \<Rightarrow> (unit, 'm) run" where
  "print E args m = write_str E args m"

definition println :: "'m firmware \<Rightarrow> rtext \<Rightarrow> 'm \<Rightarrow> (unit, 'm) run" where
  "println E args m = print E (args @ [10]) m"

datatype ANSICON = Reset | Bold | Underline | Blink | Reverse
  | FgBlack | FgRed | FgGreen | FgYellow | FgBlue | FgMagenta | FgCyan | FgWhite | FgDefault
  | FgLightGray | FgLightRed | FgLightGreen | FgLightYellow | FgLightBlue | FgLightMagenta | FgLightCyan | FgLightWhite
  | BgBlack | BgRed | BgGreen | BgYellow | BgBlue | BgMagenta | BgCyan | BgWhite | BgDefault
  | BgLightGray | BgLightRed | BgLightGreen | BgLightYellow | BgLightBlue | BgLightMagenta | BgLightCyan | BgLightWhite

text \<open>\<open>con as u8\<close>\<close>

primrec ansicon_code :: "ANSICON \<Rightarrow> u8" where
  "ansicon_code Reset = 0" | "ansicon_code Bold = 1" | "ansicon_code Underline = 4" | "ansicon_code Blink = 5"
| "ansicon_code Reverse = 7"
| "ansicon_code FgBlack = 30" | "ansicon_code FgRed = 31" | "ansicon_code FgGreen = 32" | "ansicon_code FgYellow = 33"
| "ansicon_code FgBlue = 34" | "ansicon_code FgMagenta = 35" | "ansicon_code FgCyan = 36" | "ansicon_code FgWhite = 37"
| "ansicon_code FgDefault = 39"
| "ansicon_code FgLightGray = 90" | "ansicon_code FgLightRed = 91" | "ansicon_code FgLightGreen = 92"
| "ansicon_code FgLightYellow = 93" | "ansicon_code FgLightBlue = 94" | "ansicon_code FgLightMagenta = 95"
| "ansicon_code FgLightCyan = 96" | "ansicon_code FgLightWhite = 97"
| "ansicon_code BgBlack = 40" | "ansicon_code BgRed = 41" | "ansicon_code BgGreen = 42" | "ansicon_code BgYellow = 43"
| "ansicon_code BgBlue = 44" | "ansicon_code BgMagenta = 45" | "ansicon_code BgCyan = 46" | "ansicon_code BgWhite = 47"
| "ansicon_code BgDefault = 49"
| "ansicon_code BgLightGray = 100" | "ansicon_code BgLightRed = 101" | "ansicon_code BgLightGreen = 102"
| "ansicon_code BgLightYellow = 103" | "ansicon_code BgLightBlue = 104" | "ansicon_code BgLightMagenta = 105"
| "ansicon_code BgLightCyan = 106" | "ansicon_code BgLightWhite = 107"

text \<open>An escape sequence selects a rendition; \<open>colorize!\<close> with two colours resets it at the end.\<close>

definition escape :: "u8 \<Rightarrow> rtext" where
  "escape c = [27] @ txt_of ''['' @ decimal (unat c) @ txt_of ''m''"

definition colorize :: "rtext \<Rightarrow> u8 \<Rightarrow> u8 \<Rightarrow> rtext" where
  "colorize content fg bg = escape fg @ escape bg @ content @ escape 0"

definition print_colorized :: "'m firmware \<Rightarrow> rtext \<Rightarrow> u8 \<Rightarrow> u8 \<Rightarrow> 'm \<Rightarrow> (unit, 'm) run" where
  "print_colorized E args fg bg m = write_str E (colorize args fg bg) m"

definition println_colorized :: "'m firmware \<Rightarrow> rtext \<Rightarrow> ANSICON \<Rightarrow> ANSICON \<Rightarrow> 'm \<Rightarrow> (unit, 'm) run" where
  "println_colorized E args fg bg m = print_colorized E (args @ [10]) (ansicon_code fg) (ansicon_code bg) m"

section \<open>The logger\<close>

datatype Level = Error | Warn | Info | Debug | Trace

datatype LevelFilter = OffFilter | MaxLevel Level

primrec level_name :: "Level \<Rightarrow> string" where
  "level_name Error = ''ERROR''" | "level_name Warn = ''WARN''" | "level_name Info = ''INFO''"
| "level_name Debug = ''DEBUG''" | "level_name Trace = ''TRACE''"

primrec level_color :: "Level \<Rightarrow> u8" where
  "level_color Error = 31" | "level_color Warn = 93" | "level_color Info = 34"
| "level_color Debug = 32" | "level_color Trace = 90"

text \<open>\<open>{:>5}\<close>\<close>

definition pad_left :: "nat \<Rightarrow> rtext \<Rightarrow> rtext" where
  "pad_left w t = replicate (w - length t) 32 @ t"

definition log_enabled :: "Level \<Rightarrow> bool" where
  "log_enabled l = True"

definition log_line :: "Level \<Rightarrow> rtext \<Rightarrow> rtext" where
  "log_line l args = escape (level_color l) @ txt_of ''['' @ pad_left 5 (txt_of (level_name l)) @ txt_of ''] '' @ args @ escape 0"

definition logger_log :: "'m firmware \<Rightarrow> Level \<Rightarrow> rtext \<Rightarrow> 'm \<Rightarrow> (unit, 'm) run" where
  "logger_log E l args m = (if log_enabled l then println E (log_line l args) m else Back () m)"

text \<open>The filter that \<open>logging::init\<close> sets, from the environment variable \<open>LOG\<close> at build time.\<close>

definition log_filter :: "string option \<Rightarrow> LevelFilter" where
  "log_filter v =
     (if v = Some ''ERROR'' then MaxLevel Error
      else if v = Some ''WARN'' then MaxLevel Warn
      else if v = Some ''INFO'' then MaxLevel Info
      else if v = Some ''DEBUG'' then MaxLevel Debug
      else if v = Some ''TRACE'' then MaxLevel Trace
      else OffFilter)"

section \<open>The panic handler\<close>

text \<open>The file and the line of the panic, where they are known.\<close>

type_synonym location = "(string \<times> nat) option"

definition panic_text :: "location \<Rightarrow> rtext \<Rightarrow> rtext" where
  "panic_text loc msg =
     (case loc of
        Some (file, line) \<Rightarrow> txt_of ''[kernel] Panicked at '' @ txt_of file @ txt_of '':'' @ decimal line @ txt_of '' '' @ msg
      | None \<Rightarrow> txt_of ''[kernel] Panicked: '' @ msg)"

text \<open>\<open>shutdown\<close> panics itself where the firmware comes back, and the handler starts again: \<open>rounds\<close> bounds
  how often, and \<open>None\<close> says that the machine is still on after as many.\<close>

fun panic_handler :: "nat \<Rightarrow> 'm firmware \<Rightarrow> location \<Rightarrow> rtext \<Rightarrow> 'm \<Rightarrow> 'm option" where
  "panic_handler 0 E loc msg m = None"
| "panic_handler (Suc rounds) E loc msg m =
     (case bind_run (println_colorized E (panic_text loc msg) FgRed BgDefault m) (\<lambda>_ m. shutdown E m) of
        Off m \<Rightarrow> Some m
      | Back again m \<Rightarrow> panic_handler rounds E (Some (''src/sbi.rs'', 44)) (txt_of again) m)"

text \<open>A firmware whose putchar calls come back prints a text character by character.\<close>

lemma write_str_fold:
  assumes "\<And>c m. E SBI_CONSOLE_PUTCHAR c 0 0 m = Back 0 (out c m)"
  shows "write_str E cs m = Back () (fold out (map of_nat cs) m)"
  using assms by (induction cs arbitrary: m) (simp_all add: console_putchar_def sbi_call_def)

lemma red_on_default:
  "colorize args (ansicon_code FgRed) (ansicon_code BgDefault) =
     [27] @ txt_of ''[31m'' @ [27] @ txt_of ''[49m'' @ args @ [27] @ txt_of ''[0m''"
  by (simp add: colorize_def escape_def txt_of_def decimal.simps)

text \<open>C32: the panic handler. With a firmware whose putchar call hands the character to the console and comes
  back, and whose shutdown call switches the machine off, the handler ends in its first round, having
  printed exactly the message, with the place of the panic, in red on the default background, with the
  rendition reset. Where the shutdown call comes back, the handler panics and starts again for ever.\<close>

theorem panic_handler_ends:
  assumes "\<And>c m. E 1 c 0 0 m = Back 0 (out c m)"
  shows "((\<forall>m. E 8 0 0 0 m = Off m) \<longrightarrow> panic_handler (Suc rounds) E loc msg m =
      Some (fold out (map of_nat ([27] @ txt_of ''[31m'' @ [27] @ txt_of ''[49m'' @ panic_text loc msg @ [10, 27] @ txt_of ''[0m'')) m)) \<and>
    ((\<forall>m. E 8 0 0 0 m = Back 0 m) \<longrightarrow> panic_handler rounds E loc msg m = None)"
proof (intro conjI impI)
  note w = write_str_fold [of E out, unfolded SBI_CONSOLE_PUTCHAR_def, OF assms]
  show "panic_handler (Suc rounds) E loc msg m =
      Some (fold out (map of_nat ([27] @ txt_of ''[31m'' @ [27] @ txt_of ''[49m'' @ panic_text loc msg @ [10, 27] @ txt_of ''[0m'')) m)"
    if "\<forall>m. E 8 0 0 0 m = Off m"
    using that unfolding panic_handler.simps println_colorized_def print_colorized_def red_on_default w
    by (simp add: shutdown_def sbi_call_def sbi_calls)
  show "panic_handler rounds E loc msg m = None" if "\<forall>m. E 8 0 0 0 m = Back 0 m"
  proof (induction rounds arbitrary: loc msg m)
    case (Suc rounds)
    show ?case using that Suc unfolding panic_handler.simps println_colorized_def print_colorized_def w
      by (simp add: shutdown_def sbi_call_def sbi_calls)
  qed simp
qed

text \<open>A firmware that keeps what has been printed, and switches off or not.\<close>

definition demo_firmware :: "bool \<Rightarrow> usize list firmware" where
  "demo_firmware switches_off which a b c printed =
     (if which = 1 then Back 0 (printed @ [a])
      else if which = 8 \<and> switches_off then Off printed
      else Back 0 printed)"

theorem panic_handler_ends_witness:
  "panic_handler 1 (demo_firmware True) (Some (''a.rs'', 12)) (txt_of ''x'') [] =
     Some (map of_char (CHR 0x1B # ''[31m'' @ CHR 0x1B # ''[49m[kernel] Panicked at a.rs:12 x'' @ [CHR 0x0A, CHR 0x1B] @ ''[0m''))
   \<and> panic_handler 5 (demo_firmware False) None (txt_of ''x'') [] = None"
proof -
  have "fold (\<lambda>c p. p @ [c]) xs p = p @ (xs :: usize list)" for xs p by (induction xs arbitrary: p) simp_all
  then show ?thesis
    using panic_handler_ends [of "demo_firmware True" "\<lambda>c p. p @ [c]" 0 "Some (''a.rs'', 12)" "txt_of ''x''" "[]"]
      panic_handler_ends [of "demo_firmware False" "\<lambda>c p. p @ [c]" 5 None "txt_of ''x''" "[]"]
    by (simp add: demo_firmware_def panic_text_def txt_of_def decimal.simps)
qed

end
