(* ===== verification/Spec2Isabelle.thy ===== *)
theory Spec2Isabelle
  imports AddressSpaces FsMake Processes Console
begin

text \<open>
  A verification library for rCore (\<open>src/\<close>): the kernel under \<open>src/os\<close>, the file system under
  \<open>src/easy-fs\<close>, and the block device of the image packer under \<open>src/easy-fs-fuse\<close>.

  \<^bold>\<open>The program.\<close> The kernel runs processes on one RV64 processor. Physical frames come from a stack
  allocator and are owned by trackers; page tables, areas and memory sets (SV39 address spaces) own
  frames. A process is a control block with an address space, a kernel stack, children and open files;
  a stride scheduler picks the next one. A trap enters the kernel, which serves a system call, ends or
  suspends the process, and returns to user mode. Files live in an easy-fs image: a super block, two
  bitmaps, an area of inodes and an area of data blocks, reached through a cache of 16 blocks.

  \<^bold>\<open>How it is modelled.\<close> Rust's integers are words of their width, and arithmetic wraps around, as in
  the release build. A call that may panic returns \<open>res\<close>: \<open>Ok\<close> with the result and the state, or
  \<open>Panic\<close> with the cause (theory \<open>Prelude\<close>). State is passed explicitly: \<open>mm\<close> is physical memory, as
  bytes, with the frame allocator; \<open>'w store\<close> is the block cache over a device with state \<open>'w\<close>;
  \<open>'w kernel\<close> is a record of all the statics of the kernel. Ownership is explicit too: where Rust drops
  a value, the model calls its drop.

  \<^bold>\<open>Memory\<close> (\<open>src/os/src/mm\<close>).
  \<^item> \<open>Address\<close>, \<open>PhysMem\<close>, \<open>Bytes\<close>: \<open>address.rs\<close>, and words in byte-addressed memory.
  \<^item> \<open>IdAllocator\<close>, \<open>FrameAllocator\<close>: \<open>frame_allocator.rs\<close>. The contract of a recycling allocator is the locale
    \<open>id_allocator\<close>, interpreted for frames here and for pids in \<open>Pid\<close>: nothing is handed out twice.
  \<^item> \<open>PageTable\<close>, \<open>PageTableRefine\<close>: \<open>page_table.rs\<close>. The three-level walk refines a finite map from
    page numbers to entries: \<open>map\<close> is an insert, \<open>unmap\<close> a delete, and no other page changes.
  \<^item> \<open>BTreeMap\<close>, \<open>MemorySet\<close>, \<open>MemorySetInv\<close>, \<open>AddressSpaces\<close>: \<open>memory_set.rs\<close>. Inserting an area maps
    zeroed frames of its own, removing and dropping give exactly the frames back; and one failing insert
    leaves pages mapped to frames it has given back.
  \<^item> \<open>UserBuffer\<close>: the translation of user buffers, strings and references in \<open>page_table.rs\<close>.

  \<^bold>\<open>The file system\<close> (\<open>src/easy-fs/src\<close>).
  \<^item> \<open>BlockCache\<close>, \<open>BlockCacheInv\<close>, \<open>BlockFile\<close>: \<open>block_cache.rs\<close>, and the packer's \<open>BlockFile\<close>. The locale
    \<open>device_contract\<close> says what a device promises; over it the cache is transparent: reads see the
    last write whatever was evicted, and \<open>sync_all\<close> brings everything to the device.
  \<^item> \<open>Bitmap\<close>, \<open>BitmapInv\<close>: \<open>bitmap.rs\<close>. Allocation sets the first clear bit and only that bit.
  \<^item> \<open>Layout\<close>, \<open>DirEntry\<close>, \<open>InodeInv\<close>: \<open>layout.rs\<close>. The byte layouts; the blocks of an inode through two
    levels of index blocks; reading and writing a file as reading and overwriting one byte sequence.
  \<^item> \<open>Efs\<close>, \<open>Vfs\<close>: \<open>efs.rs\<close> and \<open>vfs.rs\<close>, formatting and opening, and the operations of an inode.

  \<^bold>\<open>Processes\<close> (\<open>src/os/src/task\<close>, \<open>syscall\<close>, \<open>trap\<close>, \<open>fs\<close>, \<open>drivers\<close>, \<open>main.rs\<close>).
  \<^item> \<open>Pid\<close>, \<open>TrapContext\<close>, \<open>Task\<close>, \<open>Kernel\<close>: pids and kernel stacks, trap contexts, control blocks, the task
    manager and the processor. An \<open>Arc\<close> to a control block is its number in a heap of blocks; its strong
    count is computed from the places that hold it. \<open>__switch\<close> is modelled by the resume point of a task.
  \<^item> \<open>KernelFs\<close>, \<open>Syscall\<close>, \<open>VirtIO\<close>, \<open>Boot\<close>: open files, the system calls and the trap handler, the memory of
    the block driver, and \<open>rust_main\<close>. \<open>kernel_step\<close> is the transition relation of the whole kernel.
  \<^item> \<open>Scheduler\<close>: the search of \<open>fetch\<close>, and that every ready task gets its turn.
  \<^item> \<open>TaskInv\<close>, \<open>ProcInv\<close>, \<open>SyscallInv\<close>, \<open>Processes\<close>: the invariant of the process tree, kept by every step,
    and what follows from it.

  \<^bold>\<open>Parameters.\<close> The ELF parser, the addresses of the linker script, the initial \<open>sstatus\<close>, the memory
  layout of \<open>TaskInfo\<close>, the block device, the time register and the characters of the console are
  arguments of the definitions.

  \<^bold>\<open>Fuel.\<close> Loops are recursive functions with a termination proof, except three: the loop of
  \<open>translated_byte_buffer\<close> advances by whole pages and has \<open>2\<^sup>5\<^sup>2 + 1\<close> rounds, one more than there are pages;
  \<open>translated_str\<close> advances by bytes and has \<open>2\<^sup>6\<^sup>4\<close>; \<open>read_all\<close> advances in a file of fewer than \<open>2\<^sup>3\<^sup>2\<close>
  bytes and has \<open>2\<^sup>3\<^sup>2 + 1\<close>. Running out is the panic \<open>Diverges\<close>.

  \<^bold>\<open>Not modelled.\<close> Text formatting and colours (\<open>console.rs\<close>, \<open>logging.rs\<close>), the panic handler (a panic is a
  value here), the kernel heap (a third-party allocator), the assembly of \<open>__switch\<close> and of the SBI calls,
  the registers \<open>stvec\<close> and \<open>sie\<close>, the TLB, and the third-party crates. \<open>RefCell\<close> appears where a
  second borrow can happen. The locks of easy-fs are modelled in the block cache; the lock of the file
  system is never taken twice and is left out.
\<close>

end
